(* ===== verification/Prelude.thy ===== *)
theory Prelude
  imports Main "HOL-Library.Word"
begin

text \<open>
  Shared vocabulary of the development: the C integer types of the sources as words, the
  \<^verbatim>\<open>errno\<close> values and result type of the fallible functions, the byte-order
  conversions of \<^verbatim>\<open>arpa/inet.h\<close> and \<^verbatim>\<open>utils.h\<close> on the
  little-endian hosts the makefiles target, and the generic facts on lists, counting and
  words that more than one component uses.
\<close>

unbundle bit_operations_syntax

section \<open>C types and results\<close>

type_synonym u8 = "8 word"
type_synonym u16 = "16 word"
type_synonym u32 = "32 word"
type_synonym u64 = "64 word"
type_synonym bytes = "8 word list"

text \<open>Linux \<^verbatim>\<open>errno\<close> numbers (\<^verbatim>\<open>asm-generic/errno.h\<close>).\<close>

abbreviation ENOENT :: int where "ENOENT \<equiv> 2"
abbreviation EINTR :: int where "EINTR \<equiv> 4"
abbreviation ECHILD :: int where "ECHILD \<equiv> 10"
abbreviation EAGAIN :: int where "EAGAIN \<equiv> 11"
abbreviation ENOMEM :: int where "ENOMEM \<equiv> 12"
abbreviation ENODEV :: int where "ENODEV \<equiv> 19"
abbreviation EINVAL :: int where "EINVAL \<equiv> 22"
abbreviation ENOSPC :: int where "ENOSPC \<equiv> 28"
abbreviation ERANGE :: int where "ERANGE \<equiv> 34"
abbreviation ENOSYS :: int where "ENOSYS \<equiv> 38"
abbreviation EAFNOSUPPORT :: int where "EAFNOSUPPORT \<equiv> 97"
abbreviation ECONNABORTED :: int where "ECONNABORTED \<equiv> 103"
abbreviation ENOBUFS :: int where "ENOBUFS \<equiv> 105"
abbreviation ENOTCONN :: int where "ENOTCONN \<equiv> 107"
abbreviation ETIMEDOUT :: int where "ETIMEDOUT \<equiv> 110"
abbreviation ECANCELED :: int where "ECANCELED \<equiv> 125"

text \<open>
  What a call can do: return a value, fail with \<^verbatim>\<open>errno\<close> set, wait (the call
  does not return until another thread changes the state), or end the process through
  \<^verbatim>\<open>FATAL\<close> / \<^verbatim>\<open>abort\<close>.
\<close>

datatype 'a cres = Ok 'a | Err int | Block | Abort

text \<open>A pointer result as the C caller sees it: every failure is \<^verbatim>\<open>NULL\<close>.\<close>

fun cptr :: "'a option cres \<Rightarrow> 'a option" where
  "cptr (Ok p) = p"
| "cptr _ = None"

section \<open>Proof collections\<close>

named_theorems wf_intros \<open>invariant preservation, one rule per operation\<close>
named_theorems refines \<open>operations in terms of their abstract counterparts\<close>

section \<open>Sizes\<close>

text \<open>
  A \<^verbatim>\<open>size_t\<close> counter kept as a natural number, with the wrap-around of the
  64-bit type written out in its increment and decrement.
\<close>

abbreviation SIZE_MAX :: nat where "SIZE_MAX \<equiv> 2 ^ 64 - 1"
abbreviation SSIZE_MAX :: nat where "SSIZE_MAX \<equiv> 2 ^ 63 - 1"

definition size_inc :: "nat \<Rightarrow> nat" where
  "size_inc n = (n + 1) mod 2 ^ 64"

definition size_dec :: "nat \<Rightarrow> nat" where
  "size_dec n = (n + SIZE_MAX) mod 2 ^ 64"

lemma size_inc_eq [simp]: "n < SIZE_MAX \<Longrightarrow> size_inc n = Suc n"
  by (simp add: size_inc_def)

lemma size_dec_Suc [simp]: "n < SIZE_MAX \<Longrightarrow> size_dec (Suc n) = n"
proof -
  assume "n < SIZE_MAX"
  moreover have "Suc n + SIZE_MAX = n + 2 ^ 64" by simp
  ultimately show ?thesis unfolding size_dec_def by (simp only: mod_add_self2) simp
qed

lemma size_dec_eq: "0 < n \<Longrightarrow> n \<le> SIZE_MAX \<Longrightarrow> size_dec n = n - 1"
  using size_dec_Suc[of "n - 1"] by simp

lemma size_dec_0: "size_dec 0 = SIZE_MAX"
  by (simp add: size_dec_def)

section \<open>Lists\<close>

lemma list_update_upd_conv [simp]:
  "i < length xs \<Longrightarrow> (xs[i := v]) ! j = (if i = j then v else xs ! j)"
  by (auto simp: nth_list_update)

text \<open>Counting the entries of a table that satisfy a predicate, across one update.\<close>

definition cnt :: "('a \<Rightarrow> bool) \<Rightarrow> 'a list \<Rightarrow> nat" where
  "cnt P xs = length (filter P xs)"

lemma cnt_Nil [simp]: "cnt P [] = 0"
  and cnt_Cons [simp]: "cnt P (x # xs) = (if P x then Suc (cnt P xs) else cnt P xs)"
  and cnt_append [simp]: "cnt P (xs @ ys) = cnt P xs + cnt P ys"
  by (simp_all add: cnt_def)

lemma cnt_le_length: "cnt P xs \<le> length xs"
  by (simp add: cnt_def)

lemma cnt_pos: "i < length xs \<Longrightarrow> P (xs ! i) \<Longrightarrow> 0 < cnt P xs"
  by (auto simp: cnt_def filter_empty_conv intro!: nth_mem)

lemma cnt_update:
  "i < length xs \<Longrightarrow>
   cnt P (xs[i := v]) + of_bool (P (xs ! i)) = cnt P xs + of_bool (P v)"
proof (induction xs arbitrary: i)
  case Nil
  then show ?case by simp
next
  case (Cons x xs)
  then show ?case by (cases i) auto
qed

lemma cnt_replicate [simp]: "cnt P (replicate n x) = (if P x then n else 0)"
  by (induction n) auto

section \<open>Words\<close>

text \<open>Clearing the low bits rounds down to a multiple of the power of two.\<close>

lemma unat_and_not_mask:
  fixes a :: "'l::len word"
  shows "unat (a AND NOT (mask n)) = unat a div 2 ^ n * 2 ^ n"
proof -
  have "a AND NOT (mask n) = push_bit n (drop_bit n a)"
    by (rule bit_eqI) (auto simp: bit_simps)
  moreover have "unat (push_bit n (drop_bit n a)) = take_bit LENGTH('l) (push_bit n (drop_bit n (unat a)))"
  proof -
    have "take_bit LENGTH('l) (unat a) = unat a"
      using unsigned_less[of a, where ?'a = nat] by (intro take_bit_nat_eq_self)
    then show ?thesis by (simp only: unsigned_push_bit_eq unsigned_drop_bit_eq)
  qed
  moreover have "push_bit n (drop_bit n (unat a)) = unat a div 2 ^ n * 2 ^ n"
    by (simp add: push_bit_eq_mult drop_bit_eq_div)
  moreover have "unat a div 2 ^ n * 2 ^ n < 2 ^ LENGTH('l)"
    using unsigned_less[of a, where ?'a = nat] div_times_less_eq_dividend[of "unat a" "2 ^ n"]
    by (rule le_less_trans[rotated])
  ultimately show ?thesis by (simp only: take_bit_nat_eq_self)
qed

text \<open>The test for powers of two: no bit in common with the predecessor.\<close>

lemma nat_pow2_test: "0 < n \<Longrightarrow> n AND (n - 1) = 0 \<Longrightarrow> \<exists>k. n = (2::nat) ^ k"
proof (induction n rule: less_induct)
  case (less n)
  show ?case
  proof (cases "even n")
    case True
    then obtain m where m: "n = 2 * m" by (auto elim: evenE)
    then have pos: "0 < m" "m < n" using less.prems by auto
    have "(n - 1) div 2 = m - 1" using m pos by simp
    moreover have "n AND (n - 1) = n mod 2 * ((n - 1) mod 2) + 2 * (n div 2 AND (n - 1) div 2)"
      using pos m by (subst and_nat_unfold) auto
    ultimately have "m AND (m - 1) = 0" using less.prems m by simp
    then obtain k where "m = 2 ^ k" using less.IH pos by blast
    then have "n = 2 ^ Suc k" using m by simp
    then show ?thesis by blast
  next
    case False
    then obtain m where m: "n = 2 * m + 1" by (auto elim: oddE)
    have "n AND (n - 1) = n mod 2 * ((n - 1) mod 2) + 2 * (n div 2 AND (n - 1) div 2)" if "0 < m"
      using that m by (subst and_nat_unfold) auto
    then have "m = 0" using less.prems m by auto
    then show ?thesis using m by (intro exI[of _ 0]) simp
  qed
qed

lemma word_pow2_test:
  fixes n :: "'l::len word"
  assumes "n \<noteq> 0" "n AND (n - 1) = 0"
  shows "\<exists>k<LENGTH('l). n = 2 ^ k \<and> unat n = 2 ^ k"
proof -
  have "unat (n - 1) = unat n - 1" using assms(1) by (simp add: unat_minus_one)
  then have "unat n AND (unat n - 1) = 0" using assms(2) by (metis unsigned_and_eq unat_0)
  moreover have "0 < unat n" using assms(1) by (simp add: unat_gt_0)
  ultimately obtain k where k: "unat n = 2 ^ k" using nat_pow2_test by blast
  have "(2::nat) ^ k < 2 ^ LENGTH('l)" using k unsigned_less[of n, where ?'a = nat] by simp
  then have "k < LENGTH('l)" by (metis nat_power_less_imp_less zero_less_numeral)
  moreover have "n = of_nat (unat n)" by simp
  then have "n = 2 ^ k" by (simp only: k of_nat_power of_nat_numeral)
  ultimately show ?thesis using k by blast
qed

lemma u64_pow2_test:
  fixes n :: u64
  shows "n \<noteq> 0 \<Longrightarrow> n AND (n - 1) = 0 \<Longrightarrow> \<exists>k<64. n = 2 ^ k \<and> unat n = 2 ^ k"
  using word_pow2_test[of n] by simp

section \<open>Byte order\<close>

text \<open>The bytes of a word as a little-endian host stores them, and back.\<close>

definition byte_of :: "'l::len word \<Rightarrow> nat \<Rightarrow> u8" where
  "byte_of w i = ucast (drop_bit (8 * i) w)"

definition le_bytes :: "nat \<Rightarrow> 'l::len word \<Rightarrow> bytes" where
  "le_bytes n w = map (byte_of w) [0..<n]"

fun of_le_bytes :: "bytes \<Rightarrow> 'l::len word" where
  "of_le_bytes [] = 0"
| "of_le_bytes (b # bs) = ucast b OR push_bit 8 (of_le_bytes bs)"

lemma length_le_bytes [simp]: "length (le_bytes n w) = n"
  by (simp add: le_bytes_def)

lemma le_bytes_Suc: "le_bytes (Suc n) w = ucast w # le_bytes n (drop_bit 8 w)"
proof -
  have "map (byte_of w) [Suc 0..<Suc n] = map (byte_of (drop_bit 8 w)) [0..<n]"
    by (rule nth_equalityI) (auto simp: byte_of_def add.commute simp del: upt_Suc)
  then show ?thesis by (simp add: le_bytes_def upt_conv_Cons byte_of_def del: upt_Suc)
qed

lemma bit_of_le_bytes:
  "bit (of_le_bytes bs :: 'l::len word) k \<longleftrightarrow> k < LENGTH('l) \<and> k < 8 * length bs \<and> bit (bs ! (k div 8)) (k mod 8)"
proof (induction bs arbitrary: k)
  case Nil
  then show ?case by simp
next
  case (Cons b bs)
  show ?case
  proof (cases "k < 8")
    case True
    then show ?thesis by (auto simp: bit_simps Cons.IH)
  next
    case False
    then have "(k - 8) div 8 = k div 8 - 1" "(k - 8) mod 8 = k mod 8" "0 < k div 8"
      by (auto simp: le_mod_geq le_div_geq)
    moreover have "k - 8 < 8 * length bs \<longleftrightarrow> k < 8 + 8 * length bs" using False by linarith
    moreover have "\<not> bit (ucast b :: 'l word) k" using False by (auto simp: bit_simps dest: bit_imp_le_length)
    moreover have "k < LENGTH('l) \<Longrightarrow> k - 8 < LENGTH('l)" by linarith
    ultimately show ?thesis using False by (auto simp: bit_simps Cons.IH)
  qed
qed

lemma of_le_bytes_le_bytes [simp]:
  "LENGTH('l) \<le> 8 * n \<Longrightarrow> of_le_bytes (le_bytes n w) = (w :: 'l::len word)"
proof (rule bit_eqI)
  fix k assume n: "LENGTH('l) \<le> 8 * n" and "possible_bit TYPE('l word) k"
  then have k: "k < LENGTH('l)" by simp
  then have "k div 8 < n" using n by linarith
  moreover have "8 * (k div 8) + k mod 8 = k" by simp
  ultimately show "bit (of_le_bytes (le_bytes n w) :: 'l word) k = bit w k"
    using k n by (simp add: bit_of_le_bytes le_bytes_def byte_of_def bit_simps)
qed

text \<open>\<^verbatim>\<open>htons\<close>, \<^verbatim>\<open>htonl\<close> and \<^verbatim>\<open>htonll\<close> swap the bytes; the
  conversions back are the same functions.\<close>

definition bswap :: "nat \<Rightarrow> 'l::len word \<Rightarrow> 'l word" where
  "bswap n w = of_le_bytes (rev (le_bytes n w))"

definition htons :: "u16 \<Rightarrow> u16" where "htons = bswap 2"
definition htonl :: "u32 \<Rightarrow> u32" where "htonl = bswap 4"
definition htonll :: "u64 \<Rightarrow> u64" where "htonll = bswap 8"

abbreviation ntohs :: "u16 \<Rightarrow> u16" where "ntohs \<equiv> htons"
abbreviation ntohl :: "u32 \<Rightarrow> u32" where "ntohl \<equiv> htonl"
abbreviation ntohll :: "u64 \<Rightarrow> u64" where "ntohll \<equiv> htonll"

lemma le_bytes_of_le_bytes:
  "8 * length bs \<le> LENGTH('l) \<Longrightarrow> le_bytes (length bs) (of_le_bytes bs :: 'l::len word) = bs"
proof (rule nth_equalityI)
  fix i assume len: "8 * length bs \<le> LENGTH('l)" and "i < length (le_bytes (length bs) (of_le_bytes bs :: 'l word))"
  then have i: "i < length bs" by simp
  show "le_bytes (length bs) (of_le_bytes bs :: 'l word) ! i = bs ! i"
  proof (rule bit_eqI)
    fix k assume "possible_bit TYPE(u8) k"
    then have "k < 8" by simp
    then show "bit (le_bytes (length bs) (of_le_bytes bs :: 'l word) ! i) k = bit (bs ! i) k"
      using i len by (simp add: le_bytes_def byte_of_def bit_simps bit_of_le_bytes)
  qed
qed simp

lemma bswap_bswap:
  "8 * n = LENGTH('l) \<Longrightarrow> bswap n (bswap n w) = (w :: 'l::len word)"
  unfolding bswap_def
  using le_bytes_of_le_bytes[of "rev (le_bytes n w)", where ?'l = 'l] by simp

lemma hton_hton [simp]: "htons (htons a) = a" "htonl (htonl b) = b" "htonll (htonll c) = c"
  by (simp_all add: htons_def htonl_def htonll_def bswap_bswap)

lemma hton_inj [simp]: "htons a = htons a' \<longleftrightarrow> a = a'" "htonl b = htonl b' \<longleftrightarrow> b = b'"
  "htonll c = htonll c' \<longleftrightarrow> c = c'"
  by (metis hton_hton)+

text \<open>Swapping bytes commutes with the bitwise operations on addresses and masks.\<close>

lemma bswap_and: "bswap n (a AND b) = bswap n a AND bswap n (b :: 'l::len word)"
  by (rule bit_eqI) (auto simp: bswap_def bit_of_le_bytes le_bytes_def byte_of_def rev_nth bit_simps)

lemma htonl_and: "htonl (a AND b) = htonl a AND htonl b"
  by (simp add: htonl_def bswap_and)

lemma htonl_or: "htonl (a OR b) = htonl a OR htonl b"
  unfolding htonl_def bswap_def
  by (rule bit_eqI) (auto simp: bit_of_le_bytes le_bytes_def byte_of_def rev_nth bit_simps)

lemma htonl_not: "htonl (NOT a) = NOT (htonl a)"
  unfolding htonl_def bswap_def
  by (rule bit_eqI) (auto simp: bit_of_le_bytes le_bytes_def byte_of_def rev_nth bit_simps)

end
