(* ===== verification/Fifo_Spec.thy ===== *)
theory Fifo_Spec
  imports Prelude
begin

text \<open>
  What a bounded first-in-first-out queue promises to its clients: the contract that both
  queues of the program (\<^verbatim>\<open>queue.h\<close> and \<^verbatim>\<open>lf_queue.h\<close>) are
  shown to satisfy. The abstract queue is a list with a capacity; the contract says that the
  concrete push and pop act on the list of items they represent as the abstract ones do.
\<close>

section \<open>The abstract bounded queue\<close>

definition spec_push :: "nat \<Rightarrow> 'e \<Rightarrow> 'e list \<Rightarrow> 'e list option" where
  "spec_push c x xs = (if length xs < c then Some (xs @ [x]) else None)"

definition spec_pop :: "'e list \<Rightarrow> ('e \<times> 'e list) option" where
  "spec_pop xs = (case xs of [] \<Rightarrow> None | x # xs' \<Rightarrow> Some (x, xs'))"

section \<open>Sequences of operations\<close>

datatype 'e fifo_op = Push 'e | Pop
datatype 'e fifo_out = Pushed | Full | Popped 'e | Empty

text \<open>Running operations in order; one runner serves the concrete and the abstract queue.\<close>

fun step_of ::
  "('e \<Rightarrow> 'q \<Rightarrow> 'q option) \<Rightarrow> ('q \<Rightarrow> ('e \<times> 'q) option) \<Rightarrow> 'q \<Rightarrow> 'e fifo_op
   \<Rightarrow> 'q \<times> 'e fifo_out" where
  "step_of push pop q (Push x) = (case push x q of None \<Rightarrow> (q, Full) | Some q' \<Rightarrow> (q', Pushed))"
| "step_of push pop q Pop =
     (case pop q of None \<Rightarrow> (q, Empty) | Some (x, q') \<Rightarrow> (q', Popped x))"

fun fifo_run ::
  "('e \<Rightarrow> 'q \<Rightarrow> 'q option) \<Rightarrow> ('q \<Rightarrow> ('e \<times> 'q) option) \<Rightarrow> 'q \<Rightarrow> 'e fifo_op list
   \<Rightarrow> 'q \<times> 'e fifo_out list" where
  "fifo_run push pop q [] = (q, [])"
| fifo_run_Cons: "fifo_run push pop q (op # ops) =
     (let (q', out) = step_of push pop q op; (r, outs) = fifo_run push pop q' ops
      in (r, out # outs))"

text \<open>The values a run accepted and the values it delivered.\<close>

fun accepted :: "'e fifo_op list \<Rightarrow> 'e fifo_out list \<Rightarrow> 'e list" where
  "accepted (Push x # ops) (Pushed # outs) = x # accepted ops outs"
| "accepted (_ # ops) (_ # outs) = accepted ops outs"
| "accepted _ _ = []"

fun delivered :: "'e fifo_out list \<Rightarrow> 'e list" where
  "delivered (Popped x # outs) = x # delivered outs"
| "delivered (_ # outs) = delivered outs"
| "delivered [] = []"

lemma accepted_Cons: "accepted (op # ops) (out # outs) = accepted [op] [out] @ accepted ops outs"
  by (cases op; cases out) auto

lemma delivered_Cons: "delivered (out # outs) = delivered [out] @ delivered outs"
  by (cases out) auto

lemma spec_step_conserves:
  "step_of (spec_push c) spec_pop xs op = (xs', out) \<Longrightarrow>
   xs @ accepted [op] [out] = delivered [out] @ xs'"
  by (cases op) (auto simp: spec_push_def spec_pop_def split: if_splits list.splits)

section \<open>The contract\<close>

locale bounded_fifo =
  fixes inv :: "'q \<Rightarrow> bool"
    and items :: "'q \<Rightarrow> 'e list"
    and capacity :: "'q \<Rightarrow> nat"
    and push :: "'e \<Rightarrow> 'q \<Rightarrow> 'q option"
    and pop :: "'q \<Rightarrow> ('e \<times> 'q) option"
  assumes push_None: "inv q \<Longrightarrow> push x q = None \<longleftrightarrow> capacity q \<le> length (items q)"
    and push_Some: "inv q \<Longrightarrow> push x q = Some q' \<Longrightarrow>
      inv q' \<and> items q' = items q @ [x] \<and> capacity q' = capacity q"
    and pop_None: "inv q \<Longrightarrow> pop q = None \<longleftrightarrow> items q = []"
    and pop_Some: "inv q \<Longrightarrow> pop q = Some (x, q') \<Longrightarrow>
      inv q' \<and> items q = x # items q' \<and> capacity q' = capacity q"
begin

lemma push_refines: "inv q \<Longrightarrow> map_option items (push x q) = spec_push (capacity q) x (items q)"
  using push_None[of q x] push_Some[of q x]
  by (cases "push x q") (auto simp: spec_push_def)

lemma pop_refines: "inv q \<Longrightarrow> map_option (map_prod id items) (pop q) = spec_pop (items q)"
  using pop_None[of q] pop_Some[of q]
  by (cases "pop q") (fastforce simp: spec_pop_def split: list.splits)+

lemma step_refines:
  assumes "inv q" and "step_of push pop q op = (q', out)"
  shows "inv q' \<and> capacity q' = capacity q \<and>
    step_of (spec_push (capacity q)) spec_pop (items q) op = (items q', out)"
proof (cases op)
  case (Push x)
  then show ?thesis using assms push_refines[of q x, symmetric] push_Some[of q x]
    by (cases "push x q") auto
next
  case Pop
  then show ?thesis using assms pop_refines[of q, symmetric] pop_Some[of q]
    by (cases "pop q") auto
qed

text \<open>Every sequence of operations gives the outputs of the abstract queue.\<close>

lemma run_refines:
  assumes "inv q" and "fifo_run push pop q ops = (r, outs)"
  shows "inv r \<and> capacity r = capacity q \<and>
    fifo_run (spec_push (capacity q)) spec_pop (items q) ops = (items r, outs)"
  using assms
proof (induction ops arbitrary: q outs)
  case Nil
  then show ?case by simp
next
  case (Cons op ops)
  show ?case
  proof (cases "step_of push pop q op")
    case (Pair q' out)
    then obtain outs' where run: "fifo_run push pop q' ops = (r, outs')" and outs: "outs = out # outs'"
      using Cons.prems(2) by (auto split: prod.splits)
    have q': "inv q'" "capacity q' = capacity q"
      and st: "step_of (spec_push (capacity q)) spec_pop (items q) op = (items q', out)"
      using step_refines[OF Cons.prems(1) Pair] by auto
    have "inv r \<and> capacity r = capacity q' \<and>
      fifo_run (spec_push (capacity q')) spec_pop (items q') ops = (items r, outs')"
      using q'(1) run by (rule Cons.IH)
    then show ?thesis using q'(2) st outs by simp
  qed
qed

text \<open>Nothing is lost, duplicated or reordered, and the bound is kept.\<close>

lemma run_conserves:
  assumes "inv q" and "fifo_run push pop q ops = (r, outs)"
  shows "items q @ accepted ops outs = delivered outs @ items r"
  using assms
proof (induction ops arbitrary: q outs)
  case Nil
  then show ?case by simp
next
  case (Cons op ops)
  show ?case
  proof (cases "step_of push pop q op")
    case (Pair q' out)
    then obtain outs' where run: "fifo_run push pop q' ops = (r, outs')" and outs: "outs = out # outs'"
      using Cons.prems(2) by (auto split: prod.splits)
    have "inv q'" and st: "items q @ accepted [op] [out] = delivered [out] @ items q'"
      using step_refines[OF Cons.prems(1) Pair] by (auto simp: spec_step_conserves)
    then have "items q' @ accepted ops outs' = delivered outs' @ items r"
      using run by (blast intro: Cons.IH)
    with st have "items q @ accepted [op] [out] @ accepted ops outs' =
      delivered [out] @ delivered outs' @ items r" by (metis append_assoc)
    then show ?thesis
      using outs by (simp only: accepted_Cons[of op ops] delivered_Cons[of out outs'] append_assoc)
  qed
qed

end

end
