(* ===== verification/Blocking_Queue.thy ===== *)
theory Blocking_Queue
  imports Fifo_Spec
begin

text \<open>
  The blocking queue of \<^verbatim>\<open>common/inc/queue.h\<close>: a ring of pointers guarded by a
  mutex and two counting semaphores. First the Linux operations, each as one function on
  the queue; then the Windows variants of the same file; then the operations cut at their
  synchronisation points and interleaved by any number of threads.

  A pointer element is an \<^typ>\<open>'a option\<close>, \<^const>\<open>None\<close> for
  \<^verbatim>\<open>NULL\<close>, which the Linux queue may hold: it is the sentinel that ends
  the receive threads. The mutex is not part of the state: what it protects is one step.
\<close>

section \<open>The structure and its primitives\<close>

abbreviation SEM_VALUE_MAX :: nat where "SEM_VALUE_MAX \<equiv> 2147483647"
abbreviation EOVERFLOW :: int where "EOVERFLOW \<equiv> 75"

record 'a queue_t =
  q_size :: nat
  q_ptr :: "'a option list option"
  q_head :: nat
  q_tail :: nat
  q_pending :: nat
  push_semaphore :: nat
  pop_semaphore :: nat

text \<open>Return codes of the mutex calls of one operation.\<close>

record mutex_os =
  lock_rc :: int
  unlock_rc :: int

definition mutex_ok :: mutex_os where
  "mutex_ok = \<lparr>lock_rc = 0, unlock_rc = 0\<rparr>"

text \<open>
  POSIX semaphores: \<^verbatim>\<open>sem_wait\<close> waits at zero and may be interrupted,
  \<^verbatim>\<open>sem_trywait\<close> fails at zero with \<^verbatim>\<open>EAGAIN\<close>,
  \<^verbatim>\<open>sem_post\<close> fails at the maximal value.
\<close>

definition sem_wait :: "bool \<Rightarrow> nat \<Rightarrow> nat cres" where
  "sem_wait intr v = (if intr then Err EINTR else if v = 0 then Block else Ok (v - 1))"

definition sem_trywait :: "nat \<Rightarrow> nat cres" where
  "sem_trywait v = (if v = 0 then Err EAGAIN else Ok (v - 1))"

definition sem_post :: "nat \<Rightarrow> nat cres" where
  "sem_post v = (if SEM_VALUE_MAX \<le> v then Err EOVERFLOW else Ok (v + 1))"

section \<open>The operations (Linux)\<close>

record queue_init_os =
  malloc_queue :: bool
  malloc_ring :: bool
  mutex_init_rc :: int
  sem_init_pop_rc :: int
  sem_init_push_rc :: int

definition queue_init :: "queue_init_os \<Rightarrow> nat \<Rightarrow> 'a queue_t cres" where
  "queue_init os n =
     (if n = 0 then Err EINVAL
      else if SEM_VALUE_MAX < n then Err EINVAL
      else if \<not> malloc_queue os then Err ENOMEM
      else if \<not> malloc_ring os then Err ENOMEM
      else if mutex_init_rc os \<noteq> 0 then Abort
      else if sem_init_pop_rc os \<noteq> 0 then Abort
      else if sem_init_push_rc os \<noteq> 0 then Abort
      else Ok \<lparr>q_size = n, q_ptr = Some (replicate n None), q_head = 0, q_tail = 0,
               q_pending = 0, push_semaphore = n, pop_semaphore = 0\<rparr>)"

text \<open>The two critical sections, between the lock and the unlock.\<close>

definition queue_store :: "'a option list \<Rightarrow> 'a queue_t \<Rightarrow> 'a option \<Rightarrow> 'a queue_t" where
  "queue_store buf q ptr =
     q\<lparr>q_ptr := Some (buf[q_tail q := ptr]),
       q_tail := size_inc (q_tail q) mod q_size q,
       q_pending := size_inc (q_pending q)\<rparr>"

definition queue_take :: "'a option list \<Rightarrow> 'a queue_t \<Rightarrow> 'a option \<times> 'a queue_t" where
  "queue_take buf q =
     (buf ! q_head q,
      q\<lparr>q_ptr := Some (buf[q_head q := None]),
        q_head := size_inc (q_head q) mod q_size q,
        q_pending := size_dec (q_pending q)\<rparr>)"

text \<open>What follows a successful wait: lock, critical section, unlock, post.\<close>

definition queue_push_locked ::
  "mutex_os \<Rightarrow> 'a option list \<Rightarrow> 'a queue_t \<Rightarrow> 'a option \<Rightarrow> 'a queue_t \<times> int cres" where
  "queue_push_locked os buf q ptr =
     (if lock_rc os \<noteq> 0 then (q, Abort)
      else let q1 = queue_store buf q ptr in
        if unlock_rc os \<noteq> 0 then (q1, Abort)
        else case sem_post (pop_semaphore q1) of
               Ok v \<Rightarrow> (q1\<lparr>pop_semaphore := v\<rparr>, Ok 0)
             | _ \<Rightarrow> (q1, Abort))"

definition queue_pop_locked ::
  "mutex_os \<Rightarrow> 'a option list \<Rightarrow> 'a queue_t \<Rightarrow> 'a queue_t \<times> 'a option cres" where
  "queue_pop_locked os buf q =
     (if lock_rc os \<noteq> 0 then (q, Abort)
      else let (entry, q1) = queue_take buf q in
        if unlock_rc os \<noteq> 0 then (q1, Abort)
        else case sem_post (push_semaphore q1) of
               Ok v \<Rightarrow> (q1\<lparr>push_semaphore := v\<rparr>, Ok entry)
             | _ \<Rightarrow> (q1, Abort))"

definition queue_wait_push ::
  "mutex_os \<Rightarrow> bool \<Rightarrow> 'a queue_t option \<Rightarrow> 'a option \<Rightarrow> 'a queue_t option \<times> int cres" where
  "queue_wait_push os intr qp ptr =
     (case qp of None \<Rightarrow> (qp, Err EINVAL)
      | Some q \<Rightarrow>
     (case q_ptr q of None \<Rightarrow> (qp, Err EINVAL)
      | Some buf \<Rightarrow>
     (case sem_wait intr (push_semaphore q) of
        Ok v \<Rightarrow> map_prod Some id (queue_push_locked os buf (q\<lparr>push_semaphore := v\<rparr>) ptr)
      | Err e \<Rightarrow> (qp, Err e)
      | Block \<Rightarrow> (qp, Block)
      | Abort \<Rightarrow> (qp, Abort))))"

definition queue_wait_pop ::
  "mutex_os \<Rightarrow> bool \<Rightarrow> 'a queue_t option \<Rightarrow> 'a queue_t option \<times> 'a option cres" where
  "queue_wait_pop os intr qp =
     (case qp of None \<Rightarrow> (qp, Err EINVAL)
      | Some q \<Rightarrow>
     (case q_ptr q of None \<Rightarrow> (qp, Err EINVAL)
      | Some buf \<Rightarrow>
     (case sem_wait intr (pop_semaphore q) of
        Ok v \<Rightarrow> map_prod Some id (queue_pop_locked os buf (q\<lparr>pop_semaphore := v\<rparr>))
      | Err e \<Rightarrow> (qp, Err e)
      | Block \<Rightarrow> (qp, Block)
      | Abort \<Rightarrow> (qp, Abort))))"

definition queue_try_push ::
  "mutex_os \<Rightarrow> 'a queue_t option \<Rightarrow> 'a option \<Rightarrow> 'a queue_t option \<times> int cres" where
  "queue_try_push os qp ptr =
     (case qp of None \<Rightarrow> (qp, Err EINVAL)
      | Some q \<Rightarrow>
     (case q_ptr q of None \<Rightarrow> (qp, Err EINVAL)
      | Some buf \<Rightarrow>
     (case sem_trywait (push_semaphore q) of
        Ok v \<Rightarrow> map_prod Some id (queue_push_locked os buf (q\<lparr>push_semaphore := v\<rparr>) ptr)
      | Err e \<Rightarrow> (qp, Err e)
      | Block \<Rightarrow> (qp, Block)
      | Abort \<Rightarrow> (qp, Abort))))"

definition queue_try_pop ::
  "mutex_os \<Rightarrow> 'a queue_t option \<Rightarrow> 'a queue_t option \<times> 'a option cres" where
  "queue_try_pop os qp =
     (case qp of None \<Rightarrow> (qp, Err EINVAL)
      | Some q \<Rightarrow>
     (case q_ptr q of None \<Rightarrow> (qp, Err EINVAL)
      | Some buf \<Rightarrow>
     (case sem_trywait (pop_semaphore q) of
        Ok v \<Rightarrow> map_prod Some id (queue_pop_locked os buf (q\<lparr>pop_semaphore := v\<rparr>))
      | Err e \<Rightarrow> (qp, Err e)
      | Block \<Rightarrow> (qp, Block)
      | Abort \<Rightarrow> (qp, Abort))))"

text \<open>Destruction frees the structure: the pointer is dead afterwards, so it becomes
  \<^const>\<open>None\<close>.\<close>

record queue_destroy_os =
  sem_destroy_pop_rc :: int
  sem_destroy_push_rc :: int
  mutex_destroy_rc :: int

definition queue_destroy ::
  "queue_destroy_os \<Rightarrow> 'a queue_t option \<Rightarrow> 'a queue_t option \<times> int cres" where
  "queue_destroy os qp =
     (case qp of None \<Rightarrow> (qp, Err EINVAL)
      | Some q \<Rightarrow>
     (case q_ptr q of None \<Rightarrow> (qp, Err EINVAL)
      | Some buf \<Rightarrow>
        if sem_destroy_pop_rc os \<noteq> 0 then (qp, Abort)
        else if sem_destroy_push_rc os \<noteq> 0 then (qp, Abort)
        else if mutex_destroy_rc os \<noteq> 0 then (qp, Abort)
        else (None, Ok 0)))"

definition queue_get_pending :: "mutex_os \<Rightarrow> 'a queue_t option \<Rightarrow> int cres" where
  "queue_get_pending os qp =
     (case qp of None \<Rightarrow> Err EINVAL
      | Some q \<Rightarrow>
     (case q_ptr q of None \<Rightarrow> Err EINVAL
      | Some buf \<Rightarrow>
        if lock_rc os \<noteq> 0 then Abort
        else if SSIZE_MAX < q_pending q then Abort
        else if unlock_rc os \<noteq> 0 then Abort
        else Ok (int (q_pending q))))"

section \<open>Well-formed rings\<close>

text \<open>The items in queue order, starting at the head.\<close>

definition ring_items :: "'a option list \<Rightarrow> nat \<Rightarrow> nat \<Rightarrow> 'a option list" where
  "ring_items buf h n = map (\<lambda>i. buf ! ((h + i) mod length buf)) [0..<n]"

definition queue_items :: "'a queue_t \<Rightarrow> 'a option list" where
  "queue_items q = ring_items (the (q_ptr q)) (q_head q) (q_pending q)"

text \<open>
  The ring invariant: indices in range, the tail where the pending count says it is, and
  every slot outside the pending range cleared.
\<close>

definition ring_ok :: "'a queue_t \<Rightarrow> bool" where
  "ring_ok q \<longleftrightarrow>
     (case q_ptr q of None \<Rightarrow> False
      | Some buf \<Rightarrow>
        length buf = q_size q \<and> 0 < q_size q \<and> q_size q \<le> SEM_VALUE_MAX \<and>
        q_head q < q_size q \<and> q_pending q \<le> q_size q \<and>
        q_tail q = (q_head q + q_pending q) mod q_size q \<and>
        (\<forall>i<q_size q. q_pending q \<le> i \<longrightarrow> buf ! ((q_head q + i) mod q_size q) = None))"

text \<open>No operation in progress: the semaphores count the items and the free slots.\<close>

definition queue_wf :: "'a queue_t \<Rightarrow> bool" where
  "queue_wf q \<longleftrightarrow> ring_ok q \<and> pop_semaphore q = q_pending q \<and>
     push_semaphore q = q_size q - q_pending q"

lemma ring_okD:
  assumes "ring_ok q"
  obtains buf where "q_ptr q = Some buf" "length buf = q_size q" "0 < q_size q"
    "q_size q \<le> SEM_VALUE_MAX" "q_head q < q_size q" "q_pending q \<le> q_size q"
    "q_tail q = (q_head q + q_pending q) mod q_size q" "q_tail q < q_size q"
  using assms by (auto simp: ring_ok_def split: option.splits)

lemma ring_ok_sem [simp]:
  "ring_ok (q\<lparr>push_semaphore := a\<rparr>) = ring_ok q"
  "ring_ok (q\<lparr>pop_semaphore := a\<rparr>) = ring_ok q"
  by (simp_all add: ring_ok_def cong: option.case_cong)

lemma queue_items_sem [simp]:
  "queue_items (q\<lparr>push_semaphore := a\<rparr>) = queue_items q"
  "queue_items (q\<lparr>pop_semaphore := a\<rparr>) = queue_items q"
  by (simp_all add: queue_items_def)

lemma length_ring_items [simp]: "length (ring_items buf h n) = n"
  by (simp add: ring_items_def)

lemma length_queue_items [simp]: "length (queue_items q) = q_pending q"
  by (simp add: queue_items_def)

lemma nth_ring_items [simp]: "i < n \<Longrightarrow> ring_items buf h n ! i = buf ! ((h + i) mod length buf)"
  by (simp add: ring_items_def)

text \<open>Offsets below the size reach distinct slots.\<close>

lemma ring_index_inj:
  assumes "(h + i) mod n = (h + j) mod n" "i < n" "j < n"
  shows "i = (j::nat)"
proof -
  have "a = b" if "a \<le> b" "b < n" "(h + a) mod n = (h + b) mod n" for a b
  proof -
    have "n dvd (h + b) - (h + a)"
      using that by (metis mod_eq_dvd_iff_nat add_le_mono le_refl)
    then show ?thesis using that by (auto dest: dvd_imp_le)
  qed
  then show ?thesis using assms by (metis nle_le)
qed

lemma ring_step_index: "(Suc h mod n + i) mod n = (h + Suc i) mod (n::nat)"
  by (metis add_Suc_right add_Suc mod_add_left_eq)

lemma ring_items_store:
  assumes "length buf = n" "k < n"
  shows "ring_items (buf[(h + k) mod n := x]) h (Suc k) = ring_items buf h k @ [x]"
proof (rule nth_equalityI)
  show "length (ring_items (buf[(h + k) mod n := x]) h (Suc k)) = length (ring_items buf h k @ [x])"
    by simp
  fix i assume "i < length (ring_items (buf[(h + k) mod n := x]) h (Suc k))"
  then consider "i < k" | "i = k" by (auto simp: less_Suc_eq)
  then show "ring_items (buf[(h + k) mod n := x]) h (Suc k) ! i = (ring_items buf h k @ [x]) ! i"
  proof cases
    case 1
    then have "(h + k) mod n \<noteq> (h + i) mod n" using ring_index_inj[of h k n i] assms by auto
    then show ?thesis using 1 assms by (simp add: nth_append)
  qed (use assms in \<open>auto simp: nth_append\<close>)
qed

lemma ring_items_take:
  assumes "length buf = n" "h < n" "Suc k \<le> n"
  shows "ring_items buf h (Suc k) = buf ! h # ring_items (buf[h := y]) (Suc h mod n) k"
proof (rule nth_equalityI)
  show "length (ring_items buf h (Suc k)) = length (buf ! h # ring_items (buf[h := y]) (Suc h mod n) k)"
    by simp
  fix i assume i: "i < length (ring_items buf h (Suc k))"
  show "ring_items buf h (Suc k) ! i = (buf ! h # ring_items (buf[h := y]) (Suc h mod n) k) ! i"
  proof (cases i)
    case 0
    then show ?thesis using assms by simp
  next
    case (Suc j)
    have "(h + Suc j) mod n \<noteq> h"
      using ring_index_inj[of h "Suc j" n 0] assms i Suc by auto
    then show ?thesis using Suc i assms by (simp add: ring_step_index)
  qed
qed

section \<open>The critical sections refine append and tail\<close>

lemma queue_store_ok:
  assumes ok: "ring_ok q" and buf: "q_ptr q = Some buf" and room: "q_pending q < q_size q"
  shows "ring_ok (queue_store buf q x)"
    and "queue_items (queue_store buf q x) = queue_items q @ [x]"
proof -
  from ok buf have b: "length buf = q_size q" "q_size q \<le> SEM_VALUE_MAX" "q_head q < q_size q"
    and t: "q_tail q = (q_head q + q_pending q) mod q_size q"
    and free: "\<And>i. i < q_size q \<Longrightarrow> q_pending q \<le> i \<Longrightarrow> buf ! ((q_head q + i) mod q_size q) = None"
    by (auto simp: ring_ok_def)
  have t_lt: "q_tail q < q_size q" using t b(3) by simp
  have inc: "size_inc (q_tail q) = Suc (q_tail q)" "size_inc (q_pending q) = Suc (q_pending q)"
    using t_lt room b(2) by (auto intro!: size_inc_eq)
  have tl: "Suc (q_tail q) mod q_size q = (q_head q + Suc (q_pending q)) mod q_size q"
    by (simp add: t mod_Suc_eq)
  have other: "q_tail q \<noteq> (q_head q + i) mod q_size q" if "i < q_size q" "Suc (q_pending q) \<le> i" for i
    using ring_index_inj[of "q_head q" i "q_size q" "q_pending q"] that room t by auto
  show "ring_ok (queue_store buf q x)"
    using b room free other tl inc t_lt by (auto simp: ring_ok_def queue_store_def)
  show "queue_items (queue_store buf q x) = queue_items q @ [x]"
    using ring_items_store[OF b(1) room, of "q_head q" x] inc buf
    by (simp add: queue_items_def queue_store_def t)
qed

lemma queue_take_ok:
  assumes ok: "ring_ok q" and buf: "q_ptr q = Some buf" and some: "0 < q_pending q"
  shows "ring_ok (snd (queue_take buf q))"
    and "queue_items q = fst (queue_take buf q) # queue_items (snd (queue_take buf q))"
    and "q_pending (snd (queue_take buf q)) = q_pending q - 1"
proof -
  from ok buf have b: "length buf = q_size q" "q_size q \<le> SEM_VALUE_MAX" "q_head q < q_size q"
      "q_pending q \<le> q_size q"
    and t: "q_tail q = (q_head q + q_pending q) mod q_size q"
    and free: "\<And>i. i < q_size q \<Longrightarrow> q_pending q \<le> i \<Longrightarrow> buf ! ((q_head q + i) mod q_size q) = None"
    by (auto simp: ring_ok_def)
  obtain k where k: "q_pending q = Suc k" using some by (cases "q_pending q") auto
  have dec: "size_inc (q_head q) = Suc (q_head q)" "size_dec (q_pending q) = k"
    using b k by (auto intro!: size_inc_eq size_dec_Suc)
  have clear: "buf ! ((Suc (q_head q) mod q_size q + i) mod q_size q) = None"
    if "i < q_size q" "k \<le> i" "(Suc (q_head q) mod q_size q + i) mod q_size q \<noteq> q_head q" for i
  proof -
    have "Suc i \<noteq> q_size q"
    proof
      assume "Suc i = q_size q"
      then have "(q_head q + Suc i) mod q_size q = q_head q" using b(3) by simp
      then show False using that(3) by (simp only: ring_step_index)
    qed
    then show ?thesis using free[of "Suc i"] that k by (simp only: ring_step_index)
  qed
  have tl: "(q_head q + Suc k) mod q_size q = (Suc (q_head q) mod q_size q + k) mod q_size q"
    by (simp only: ring_step_index)
  show "ring_ok (snd (queue_take buf q))"
    using b t k dec clear tl by (auto simp: ring_ok_def queue_take_def)
  show "queue_items q = fst (queue_take buf q) # queue_items (snd (queue_take buf q))"
    using ring_items_take[OF b(1,3), of k None] b(4) k dec buf
    by (simp add: queue_items_def queue_take_def)
  show "q_pending (snd (queue_take buf q)) = q_pending q - 1"
    using dec k by (simp add: queue_take_def)
qed

lemma queue_store_frame [simp]:
  "q_size (queue_store buf q x) = q_size q"
  "push_semaphore (queue_store buf q x) = push_semaphore q"
  "pop_semaphore (queue_store buf q x) = pop_semaphore q"
  by (simp_all add: queue_store_def)

lemma queue_take_frame [simp]:
  "q_size (snd (queue_take buf q)) = q_size q"
  "push_semaphore (snd (queue_take buf q)) = push_semaphore q"
  "pop_semaphore (snd (queue_take buf q)) = pop_semaphore q"
  by (simp_all add: queue_take_def)

lemma queue_take_pair: "queue_take buf q = (fst (queue_take buf q), snd (queue_take buf q))"
  by simp

lemma pending_store:
  "ring_ok q \<Longrightarrow> q_ptr q = Some buf \<Longrightarrow> q_pending q < q_size q \<Longrightarrow>
   q_pending (queue_store buf q x) = Suc (q_pending q)"
  by (metis length_queue_items queue_store_ok(2) length_append_singleton)

section \<open>Whole operations\<close>

lemma queue_init_wf:
  "queue_init os n = Ok q \<Longrightarrow> queue_wf q \<and> queue_items q = [] \<and> q_size q = n"
  by (auto simp: queue_init_def queue_wf_def ring_ok_def queue_items_def ring_items_def
      split: if_splits)

text \<open>The bodies after the wait, from a ring with room or with an item.\<close>

lemma queue_push_locked_ok:
  assumes "ring_ok q" "q_ptr q = Some buf" "q_pending q < q_size q" "pop_semaphore q \<le> q_pending q"
  shows "queue_push_locked mutex_ok buf q x =
    ((queue_store buf q x)\<lparr>pop_semaphore := Suc (pop_semaphore q)\<rparr>, Ok 0)"
  using assms by (auto simp: queue_push_locked_def mutex_ok_def sem_post_def ring_ok_def Let_def)

lemma queue_pop_locked_ok:
  assumes "ring_ok q" "q_ptr q = Some buf" "push_semaphore q < q_size q"
  shows "queue_pop_locked mutex_ok buf q =
    ((snd (queue_take buf q))\<lparr>push_semaphore := Suc (push_semaphore q)\<rparr>,
     Ok (fst (queue_take buf q)))"
  using assms
  by (subst queue_pop_locked_def, subst queue_take_pair)
    (auto simp: mutex_ok_def sem_post_def ring_ok_def simp del: prod.collapse)

text \<open>
  The non-blocking push on a well-formed queue: it appends exactly when there is room, fails
  with \<^verbatim>\<open>EAGAIN\<close> and leaves the queue alone when there is none, and never
  aborts. The blocking push does the same but waits where the other fails.
\<close>

lemma queue_try_push_spec:
  assumes "queue_wf q"
  shows "if length (queue_items q) < q_size q
    then \<exists>q'. queue_try_push mutex_ok (Some q) x = (Some q', Ok 0) \<and> queue_wf q' \<and>
      queue_items q' = queue_items q @ [x] \<and> q_size q' = q_size q
    else queue_try_push mutex_ok (Some q) x = (Some q, Err EAGAIN)"
proof -
  from assms obtain buf where buf: "q_ptr q = Some buf" and ok: "ring_ok q"
    and sems: "pop_semaphore q = q_pending q" "push_semaphore q = q_size q - q_pending q"
    by (auto simp: queue_wf_def ring_ok_def split: option.splits)
  show ?thesis
  proof (cases "q_pending q < q_size q")
    case True
    let ?q1 = "q\<lparr>push_semaphore := q_size q - q_pending q - 1\<rparr>"
    have "ring_ok ?q1" "q_ptr ?q1 = Some buf" "q_pending ?q1 < q_size ?q1" using ok buf True by auto
    note st = queue_store_ok[OF this, of x] pending_store[OF this, of x]
    have "queue_try_push mutex_ok (Some q) x =
      (Some ((queue_store buf ?q1 x)\<lparr>pop_semaphore := Suc (q_pending q)\<rparr>), Ok 0)"
      using queue_push_locked_ok[of ?q1 buf x] ok buf True sems
      by (simp add: queue_try_push_def sem_trywait_def)
    then show ?thesis using True st sems by (simp add: queue_wf_def)
  next
    case False
    then show ?thesis using buf ok sems
      by (auto simp: queue_try_push_def sem_trywait_def ring_ok_def)
  qed
qed

lemma queue_try_pop_spec:
  assumes "queue_wf q"
  shows "case queue_items q of
      [] \<Rightarrow> queue_try_pop mutex_ok (Some q) = (Some q, Err EAGAIN)
    | x # xs \<Rightarrow> \<exists>q'. queue_try_pop mutex_ok (Some q) = (Some q', Ok x) \<and> queue_wf q' \<and>
        queue_items q' = xs \<and> q_size q' = q_size q"
proof -
  from assms obtain buf where buf: "q_ptr q = Some buf" and ok: "ring_ok q"
    and sems: "pop_semaphore q = q_pending q" "push_semaphore q = q_size q - q_pending q"
    and le: "q_pending q \<le> q_size q" "0 < q_size q"
    by (auto simp: queue_wf_def ring_ok_def split: option.splits)
  show ?thesis
  proof (cases "queue_items q")
    case Nil
    then have "q_pending q = 0" by (metis length_queue_items list.size(3))
    then show ?thesis using buf sems Nil by (simp add: queue_try_pop_def sem_trywait_def)
  next
    case (Cons x xs)
    then have pos: "0 < q_pending q" by (metis length_queue_items length_greater_0_conv list.distinct(1))
    let ?q1 = "q\<lparr>pop_semaphore := q_pending q - 1\<rparr>"
    have "ring_ok ?q1" "q_ptr ?q1 = Some buf" "0 < q_pending ?q1" using ok buf pos by auto
    note tk = queue_take_ok[OF this]
    have "queue_try_pop mutex_ok (Some q) =
      (Some ((snd (queue_take buf ?q1))\<lparr>push_semaphore := Suc (q_size q - q_pending q)\<rparr>),
       Ok (fst (queue_take buf ?q1)))"
      using queue_pop_locked_ok[of ?q1 buf] ok buf pos sems le
      by (simp add: queue_try_pop_def sem_trywait_def)
    then show ?thesis using tk pos sems le Cons by (auto simp: queue_wf_def)
  qed
qed

text \<open>The blocking variants are the non-blocking ones wherever they return.\<close>

lemma queue_wait_push_eq:
  "queue_wait_push os False qp x =
     (case queue_try_push os qp x of
        (qp', Err e) \<Rightarrow> if e = EAGAIN then (qp, Block) else (qp', Err e)
      | r \<Rightarrow> r)"
  by (auto simp: queue_wait_push_def queue_try_push_def sem_wait_def sem_trywait_def
      queue_push_locked_def Let_def sem_post_def split: option.splits if_splits)

lemma queue_wait_pop_eq:
  "queue_wait_pop os False qp =
     (case queue_try_pop os qp of
        (qp', Err e) \<Rightarrow> if e = EAGAIN then (qp, Block) else (qp', Err e)
      | r \<Rightarrow> r)"
  by (auto simp: queue_wait_pop_def queue_try_pop_def sem_wait_def sem_trywait_def
      queue_pop_locked_def Let_def sem_post_def split: option.splits if_splits prod.splits)

lemma queue_get_pending_spec:
  "queue_wf q \<Longrightarrow> queue_get_pending mutex_ok (Some q) = Ok (int (length (queue_items q)))"
  by (auto simp: queue_get_pending_def queue_wf_def ring_ok_def mutex_ok_def split: option.splits)

section \<open>The queue as a bounded FIFO\<close>

definition queue_push_step :: "'a option \<Rightarrow> 'a queue_t \<Rightarrow> 'a queue_t option" where
  "queue_push_step x q =
     (case queue_try_push mutex_ok (Some q) x of (q', Ok _) \<Rightarrow> q' | _ \<Rightarrow> None)"

definition queue_pop_step :: "'a queue_t \<Rightarrow> ('a option \<times> 'a queue_t) option" where
  "queue_pop_step q =
     (case queue_try_pop mutex_ok (Some q) of (Some q', Ok x) \<Rightarrow> Some (x, q') | _ \<Rightarrow> None)"

interpretation ring: bounded_fifo queue_wf queue_items q_size queue_push_step queue_pop_step
proof
  fix q :: "'a queue_t" and x q'
  assume wf: "queue_wf q"
  show "queue_push_step x q = None \<longleftrightarrow> q_size q \<le> length (queue_items q)"
    using queue_try_push_spec[OF wf, of x] by (auto simp: queue_push_step_def split: if_splits)
  show "queue_wf q' \<and> queue_items q' = queue_items q @ [x] \<and> q_size q' = q_size q"
    if "queue_push_step x q = Some q'"
    using queue_try_push_spec[OF wf, of x] that by (auto simp: queue_push_step_def split: if_splits)
  show "queue_pop_step q = None \<longleftrightarrow> queue_items q = []"
    using queue_try_pop_spec[OF wf] by (auto simp: queue_pop_step_def split: list.splits)
  show "queue_wf q' \<and> queue_items q = x # queue_items q' \<and> q_size q' = q_size q"
    if "queue_pop_step q = Some (x, q')"
    using queue_try_pop_spec[OF wf] that by (auto simp: queue_pop_step_def split: list.splits)
qed

section \<open>The operations (Windows)\<close>

text \<open>
  The same file's Windows branch: the semaphores are kernel objects with a maximal count
  (the queue size), the wait returns a status, the critical section cannot fail, and the
  pushes refuse a \<^verbatim>\<open>NULL\<close> element.
\<close>

datatype wait_status = WAIT_OBJECT_0 nat | WAIT_TIMEOUT | WAIT_FAILED

abbreviation LONG_MAX :: nat where "LONG_MAX \<equiv> 2147483647"

definition WaitForSingleObject :: "bool \<Rightarrow> nat \<Rightarrow> wait_status" where
  "WaitForSingleObject fail v =
     (if fail then WAIT_FAILED else if v = 0 then WAIT_TIMEOUT else WAIT_OBJECT_0 (v - 1))"

definition ReleaseSemaphore :: "nat \<Rightarrow> nat \<Rightarrow> nat option" where
  "ReleaseSemaphore maxc v = (if v < maxc then Some (v + 1) else None)"

record win_queue_init_os =
  win_malloc_queue :: bool
  win_malloc_ring :: bool
  create_pop_ok :: bool
  create_push_ok :: bool

definition win_queue_init :: "win_queue_init_os \<Rightarrow> nat \<Rightarrow> 'a queue_t cres" where
  "win_queue_init os n =
     (if n = 0 \<or> LONG_MAX < n then Err EINVAL
      else if \<not> win_malloc_queue os then Err ENOMEM
      else if \<not> win_malloc_ring os then Err ENOMEM
      else if \<not> create_pop_ok os then Abort
      else if \<not> create_push_ok os then Abort
      else Ok \<lparr>q_size = n, q_ptr = Some (replicate n None), q_head = 0, q_tail = 0,
               q_pending = 0, push_semaphore = n, pop_semaphore = 0\<rparr>)"

definition win_push_locked ::
  "'a option list \<Rightarrow> 'a queue_t \<Rightarrow> 'a option \<Rightarrow> 'a queue_t \<times> int cres" where
  "win_push_locked buf q ptr =
     (let q1 = queue_store buf q ptr in
      case ReleaseSemaphore (q_size q1) (pop_semaphore q1) of
        None \<Rightarrow> (q1, Abort)
      | Some v \<Rightarrow> (q1\<lparr>pop_semaphore := v\<rparr>, Ok 0))"

definition win_pop_locked :: "'a option list \<Rightarrow> 'a queue_t \<Rightarrow> 'a queue_t \<times> 'a option cres" where
  "win_pop_locked buf q =
     (let (entry, q1) = queue_take buf q in
      case ReleaseSemaphore (q_size q1) (push_semaphore q1) of
        None \<Rightarrow> (q1, Abort)
      | Some v \<Rightarrow> (q1\<lparr>push_semaphore := v\<rparr>, Ok entry))"

definition win_queue_wait_push ::
  "bool \<Rightarrow> 'a queue_t option \<Rightarrow> 'a option \<Rightarrow> 'a queue_t option \<times> int cres" where
  "win_queue_wait_push fail qp ptr =
     (case qp of None \<Rightarrow> (qp, Err EINVAL)
      | Some q \<Rightarrow>
     (case q_ptr q of None \<Rightarrow> (qp, Err EINVAL)
      | Some buf \<Rightarrow>
        if ptr = None then (qp, Err EINVAL)
        else case WaitForSingleObject fail (push_semaphore q) of
          WAIT_OBJECT_0 v \<Rightarrow> map_prod Some id (win_push_locked buf (q\<lparr>push_semaphore := v\<rparr>) ptr)
        | WAIT_TIMEOUT \<Rightarrow> (qp, Block)
        | WAIT_FAILED \<Rightarrow> (qp, Err EINVAL)))"

definition win_queue_wait_pop ::
  "bool \<Rightarrow> 'a queue_t option \<Rightarrow> 'a queue_t option \<times> 'a option cres" where
  "win_queue_wait_pop fail qp =
     (case qp of None \<Rightarrow> (qp, Err EINVAL)
      | Some q \<Rightarrow>
     (case q_ptr q of None \<Rightarrow> (qp, Err EINVAL)
      | Some buf \<Rightarrow>
        case WaitForSingleObject fail (pop_semaphore q) of
          WAIT_OBJECT_0 v \<Rightarrow> map_prod Some id (win_pop_locked buf (q\<lparr>pop_semaphore := v\<rparr>))
        | WAIT_TIMEOUT \<Rightarrow> (qp, Block)
        | WAIT_FAILED \<Rightarrow> (qp, Err EINVAL)))"

definition win_queue_try_push ::
  "bool \<Rightarrow> 'a queue_t option \<Rightarrow> 'a option \<Rightarrow> 'a queue_t option \<times> int cres" where
  "win_queue_try_push fail qp ptr =
     (case qp of None \<Rightarrow> (qp, Err EINVAL)
      | Some q \<Rightarrow>
     (case q_ptr q of None \<Rightarrow> (qp, Err EINVAL)
      | Some buf \<Rightarrow>
        if ptr = None then (qp, Err EINVAL)
        else case WaitForSingleObject fail (push_semaphore q) of
          WAIT_OBJECT_0 v \<Rightarrow> map_prod Some id (win_push_locked buf (q\<lparr>push_semaphore := v\<rparr>) ptr)
        | WAIT_TIMEOUT \<Rightarrow> (qp, Err EAGAIN)
        | WAIT_FAILED \<Rightarrow> (qp, Err EINVAL)))"

definition win_queue_try_pop ::
  "bool \<Rightarrow> 'a queue_t option \<Rightarrow> 'a queue_t option \<times> 'a option cres" where
  "win_queue_try_pop fail qp =
     (case qp of None \<Rightarrow> (qp, Err EINVAL)
      | Some q \<Rightarrow>
     (case q_ptr q of None \<Rightarrow> (qp, Err EINVAL)
      | Some buf \<Rightarrow>
        case WaitForSingleObject fail (pop_semaphore q) of
          WAIT_OBJECT_0 v \<Rightarrow> map_prod Some id (win_pop_locked buf (q\<lparr>pop_semaphore := v\<rparr>))
        | WAIT_TIMEOUT \<Rightarrow> (qp, Err EAGAIN)
        | WAIT_FAILED \<Rightarrow> (qp, Err EINVAL)))"

record win_destroy_os =
  close_pop_ok :: bool
  close_push_ok :: bool

definition win_queue_destroy ::
  "win_destroy_os \<Rightarrow> 'a queue_t option \<Rightarrow> 'a queue_t option \<times> int cres" where
  "win_queue_destroy os qp =
     (case qp of None \<Rightarrow> (qp, Err EINVAL)
      | Some q \<Rightarrow>
     (case q_ptr q of None \<Rightarrow> (qp, Err EINVAL)
      | Some buf \<Rightarrow>
        if \<not> close_pop_ok os then (qp, Abort)
        else if \<not> close_push_ok os then (qp, Abort)
        else (None, Ok 0)))"

definition win_queue_get_pending :: "'a queue_t option \<Rightarrow> int cres" where
  "win_queue_get_pending qp =
     (case qp of None \<Rightarrow> Err EINVAL
      | Some q \<Rightarrow>
     (case q_ptr q of None \<Rightarrow> Err EINVAL
      | Some buf \<Rightarrow> if SSIZE_MAX < q_pending q then Abort else Ok (int (q_pending q))))"

text \<open>On a well-formed queue the two branches of the file agree for non-null elements.\<close>

lemma win_push_locked_eq:
  assumes "ring_ok q" "q_ptr q = Some buf" "pop_semaphore q < q_size q"
  shows "win_push_locked buf q x = queue_push_locked mutex_ok buf q x"
  using assms
  by (auto simp: win_push_locked_def queue_push_locked_def mutex_ok_def ReleaseSemaphore_def
      sem_post_def ring_ok_def Let_def)

lemma win_pop_locked_eq:
  assumes "ring_ok q" "q_ptr q = Some buf" "push_semaphore q < q_size q"
  shows "win_pop_locked buf q = queue_pop_locked mutex_ok buf q"
  using assms
  by (subst win_pop_locked_def, subst queue_pop_locked_def, subst (1 2) queue_take_pair)
    (auto simp: mutex_ok_def ReleaseSemaphore_def sem_post_def ring_ok_def simp del: prod.collapse)

lemma win_queue_try_push_eq:
  assumes "queue_wf q"
  shows "win_queue_try_push False (Some q) (Some x) = queue_try_push mutex_ok (Some q) (Some x)"
proof -
  obtain buf where "q_ptr q = Some buf" using assms by (auto simp: queue_wf_def elim: ring_okD)
  moreover have "0 < push_semaphore q \<Longrightarrow> pop_semaphore q < q_size q"
    using assms by (auto simp: queue_wf_def)
  ultimately show ?thesis using assms
    by (auto simp: win_push_locked_eq win_queue_try_push_def queue_try_push_def WaitForSingleObject_def
        sem_trywait_def queue_wf_def)
qed

lemma win_queue_try_pop_eq:
  assumes "queue_wf q"
  shows "win_queue_try_pop False (Some q) = queue_try_pop mutex_ok (Some q)"
proof -
  obtain buf where "q_ptr q = Some buf" using assms by (auto simp: queue_wf_def elim: ring_okD)
  moreover have "0 < pop_semaphore q \<Longrightarrow> push_semaphore q < q_size q"
    using assms by (auto simp: queue_wf_def elim!: ring_okD)
  ultimately show ?thesis using assms
    by (auto simp: win_pop_locked_eq win_queue_try_pop_def queue_try_pop_def WaitForSingleObject_def
        sem_trywait_def queue_wf_def)
qed

section \<open>Any number of threads\<close>

text \<open>
  Each operation is cut where other threads can run: the semaphore wait, the locked section
  and the semaphore post. A thread is at one of five points. Two histories record the order
  in which the locked sections stored and took elements.
\<close>

datatype 'a qpc = QIdle | PushWaited "'a option" | PushStored | PopWaited | PopTaken "'a option"

record 'a qsys =
  qs_queue :: "'a queue_t"
  qs_pcs :: "'a qpc list"
  qs_in :: "'a option list"
  qs_out :: "'a option list"

inductive qstep :: "'a qsys \<Rightarrow> 'a qsys \<Rightarrow> bool" where
  push_wait: "i < length (qs_pcs s) \<Longrightarrow> qs_pcs s ! i = QIdle \<Longrightarrow>
     sem_wait False (push_semaphore (qs_queue s)) = Ok v \<Longrightarrow>
     qstep s (s\<lparr>qs_queue := (qs_queue s)\<lparr>push_semaphore := v\<rparr>,
                qs_pcs := (qs_pcs s)[i := PushWaited x]\<rparr>)"
| push_store: "i < length (qs_pcs s) \<Longrightarrow> qs_pcs s ! i = PushWaited x \<Longrightarrow>
     q_ptr (qs_queue s) = Some buf \<Longrightarrow>
     qstep s (s\<lparr>qs_queue := queue_store buf (qs_queue s) x,
                qs_pcs := (qs_pcs s)[i := PushStored], qs_in := qs_in s @ [x]\<rparr>)"
| push_post: "i < length (qs_pcs s) \<Longrightarrow> qs_pcs s ! i = PushStored \<Longrightarrow>
     sem_post (pop_semaphore (qs_queue s)) = Ok v \<Longrightarrow>
     qstep s (s\<lparr>qs_queue := (qs_queue s)\<lparr>pop_semaphore := v\<rparr>,
                qs_pcs := (qs_pcs s)[i := QIdle]\<rparr>)"
| pop_wait: "i < length (qs_pcs s) \<Longrightarrow> qs_pcs s ! i = QIdle \<Longrightarrow>
     sem_wait False (pop_semaphore (qs_queue s)) = Ok v \<Longrightarrow>
     qstep s (s\<lparr>qs_queue := (qs_queue s)\<lparr>pop_semaphore := v\<rparr>,
                qs_pcs := (qs_pcs s)[i := PopWaited]\<rparr>)"
| pop_take: "i < length (qs_pcs s) \<Longrightarrow> qs_pcs s ! i = PopWaited \<Longrightarrow>
     q_ptr (qs_queue s) = Some buf \<Longrightarrow> queue_take buf (qs_queue s) = (x, q') \<Longrightarrow>
     qstep s (s\<lparr>qs_queue := q',
                qs_pcs := (qs_pcs s)[i := PopTaken x], qs_out := qs_out s @ [x]\<rparr>)"
| pop_post: "i < length (qs_pcs s) \<Longrightarrow> qs_pcs s ! i = PopTaken x \<Longrightarrow>
     sem_post (push_semaphore (qs_queue s)) = Ok v \<Longrightarrow>
     qstep s (s\<lparr>qs_queue := (qs_queue s)\<lparr>push_semaphore := v\<rparr>,
                qs_pcs := (qs_pcs s)[i := QIdle]\<rparr>)"

definition qsys_start :: "'a queue_t \<Rightarrow> nat \<Rightarrow> 'a qsys" where
  "qsys_start q n = \<lparr>qs_queue = q, qs_pcs = replicate n QIdle, qs_in = [], qs_out = []\<rparr>"

inductive qreach :: "'a qsys \<Rightarrow> bool" where
  qreach_init: "queue_init os m = Ok q \<Longrightarrow> qreach (qsys_start q n)"
| qreach_step: "qreach s \<Longrightarrow> qstep s t \<Longrightarrow> qreach t"

fun is_push_waited :: "'a qpc \<Rightarrow> bool" where
  "is_push_waited (PushWaited _) = True" | "is_push_waited _ = False"
fun is_pop_taken :: "'a qpc \<Rightarrow> bool" where
  "is_pop_taken (PopTaken _) = True" | "is_pop_taken _ = False"
fun is_push_stored :: "'a qpc \<Rightarrow> bool" where
  "is_push_stored PushStored = True" | "is_push_stored _ = False"
fun is_pop_waited :: "'a qpc \<Rightarrow> bool" where
  "is_pop_waited PopWaited = True" | "is_pop_waited _ = False"

text \<open>
  The accounting invariant: a free slot is counted by the push semaphore, reserved by a
  thread that has waited, or just vacated; an item is counted by the pop semaphore, claimed
  by a thread that has waited, or just stored.
\<close>

definition qsys_inv :: "'a qsys \<Rightarrow> bool" where
  "qsys_inv s \<longleftrightarrow>
     ring_ok (qs_queue s) \<and>
     push_semaphore (qs_queue s) + cnt is_push_waited (qs_pcs s) + q_pending (qs_queue s)
       + cnt is_pop_taken (qs_pcs s) = q_size (qs_queue s) \<and>
     pop_semaphore (qs_queue s) + cnt is_pop_waited (qs_pcs s) + cnt is_push_stored (qs_pcs s)
       = q_pending (qs_queue s) \<and>
     qs_in s = qs_out s @ queue_items (qs_queue s)"

lemma qsys_inv_start: "queue_wf q \<Longrightarrow> queue_items q = [] \<Longrightarrow> qsys_inv (qsys_start q n)"
  using length_queue_items[of q]
  by (auto simp: qsys_inv_def qsys_start_def queue_wf_def simp del: length_queue_items)

lemmas qpc_cnt_update =
  cnt_update[of _ _ is_push_waited] cnt_update[of _ _ is_pop_taken]
  cnt_update[of _ _ is_pop_waited] cnt_update[of _ _ is_push_stored]

text \<open>A thread past its wait has what it waited for.\<close>

lemma qsys_room:
  assumes "qsys_inv s" "i < length (qs_pcs s)" "is_push_waited (qs_pcs s ! i)"
  shows "q_pending (qs_queue s) < q_size (qs_queue s)"
  using assms cnt_pos[of i "qs_pcs s" is_push_waited] by (auto simp: qsys_inv_def)

lemma qsys_item:
  assumes "qsys_inv s" "i < length (qs_pcs s)" "is_pop_waited (qs_pcs s ! i)"
  shows "0 < q_pending (qs_queue s)"
  using assms cnt_pos[of i "qs_pcs s" is_pop_waited] by (auto simp: qsys_inv_def)

lemma qstep_inv: "qstep s t \<Longrightarrow> qsys_inv s \<Longrightarrow> qsys_inv t"
proof (induction rule: qstep.induct)
  case (push_wait i s v x)
  then show ?case using qpc_cnt_update[OF push_wait(1), of "PushWaited x"]
    by (auto simp: qsys_inv_def sem_wait_def split: if_splits)
next
  case (push_store i s x buf)
  let ?q = "qs_queue s"
  have ok: "ring_ok ?q" and room: "q_pending ?q < q_size ?q"
    using push_store qsys_room[of s i] by (auto simp: qsys_inv_def)
  note st = queue_store_ok[OF ok push_store(3) room, of x] pending_store[OF ok push_store(3) room, of x]
  show ?case using push_store st qpc_cnt_update[OF push_store(1), of PushStored]
    by (auto simp: qsys_inv_def)
next
  case (push_post i s v)
  then show ?case using qpc_cnt_update[OF push_post(1), of QIdle]
    by (auto simp: qsys_inv_def sem_post_def split: if_splits)
next
  case (pop_wait i s v)
  then show ?case using qpc_cnt_update[OF pop_wait(1), of PopWaited]
    by (auto simp: qsys_inv_def sem_wait_def split: if_splits)
next
  case (pop_take i s buf x q')
  let ?q = "qs_queue s"
  have ok: "ring_ok ?q" and pos: "0 < q_pending ?q"
    using pop_take qsys_item[of s i] by (auto simp: qsys_inv_def)
  note tk = queue_take_ok[OF ok pop_take(3) pos] queue_take_frame[of buf ?q]
  show ?case using pop_take tk pos qpc_cnt_update[OF pop_take(1), of "PopTaken x"]
    by (auto simp: qsys_inv_def)
next
  case (pop_post i s x v)
  then show ?case using qpc_cnt_update[OF pop_post(1), of QIdle]
    by (auto simp: qsys_inv_def sem_post_def split: if_splits)
qed

lemma qreach_inv: "qreach s \<Longrightarrow> qsys_inv s"
proof (induction rule: qreach.induct)
  case (qreach_init os m q n)
  then show ?case using queue_init_wf[of os m q] by (auto intro: qsys_inv_start)
next
  case (qreach_step s t)
  then show ?case by (blast intro: qstep_inv)
qed

lemma ring_tail_clear:
  assumes "ring_ok q" "q_pending q < q_size q"
  shows "q_tail q < length (the (q_ptr q)) \<and> the (q_ptr q) ! q_tail q = None"
  using assms by (auto simp: ring_ok_def split: option.splits)

text \<open>A thread about to post finds the semaphore below its maximum.\<close>

lemma qsys_posts:
  assumes inv: "qsys_inv s" and i: "i < length (qs_pcs s)"
  shows "qs_pcs s ! i = PushStored \<Longrightarrow>
      sem_post (pop_semaphore (qs_queue s)) = Ok (Suc (pop_semaphore (qs_queue s)))"
    and "qs_pcs s ! i = PopTaken x \<Longrightarrow>
      sem_post (push_semaphore (qs_queue s)) = Ok (Suc (push_semaphore (qs_queue s)))"
proof -
  have "ring_ok (qs_queue s)" using inv by (simp add: qsys_inv_def)
  then have le: "q_pending (qs_queue s) \<le> q_size (qs_queue s)" "q_size (qs_queue s) \<le> SEM_VALUE_MAX"
    by (auto elim: ring_okD)
  show "sem_post (pop_semaphore (qs_queue s)) = Ok (Suc (pop_semaphore (qs_queue s)))"
    if "qs_pcs s ! i = PushStored"
    using cnt_pos[OF i, of is_push_stored] that inv le by (auto simp: sem_post_def qsys_inv_def)
  show "sem_post (push_semaphore (qs_queue s)) = Ok (Suc (push_semaphore (qs_queue s)))"
    if "qs_pcs s ! i = PopTaken x"
    using cnt_pos[OF i, of is_pop_taken] that inv le by (auto simp: sem_post_def qsys_inv_def)
qed

section \<open>Properties\<close>

text \<open>
  C17. Functional refinement. A queue created by \<^verbatim>\<open>queue_init\<close> with any accepted
  size, used through any sequence of \<^verbatim>\<open>queue_try_push\<close> and
  \<^verbatim>\<open>queue_try_pop\<close> calls, answers every call as the abstract bounded FIFO
  of that capacity does, and what was accepted is what was delivered followed by what is
  still queued.
\<close>

theorem queue_fifo_refinement:
  assumes "queue_init os n = Ok q" and "fifo_run queue_push_step queue_pop_step q ops = (r, outs)"
  shows "fifo_run (spec_push n) spec_pop [] ops = (queue_items r, outs) \<and>
    accepted ops outs = delivered outs @ queue_items r \<and> length (queue_items r) \<le> n"
proof -
  have q: "queue_wf q" "queue_items q = []" "q_size q = n" using queue_init_wf[OF assms(1)] by auto
  have "queue_wf r \<and> q_size r = n" using ring.run_refines[OF q(1) assms(2)] q(3) by simp
  then have "length (queue_items r) \<le> n" by (auto simp: queue_wf_def elim: ring_okD)
  then show ?thesis
    using ring.run_refines[OF q(1) assms(2)] ring.run_conserves[OF q(1) assms(2)] q by simp
qed

definition queue_os_ok :: queue_init_os where
  "queue_os_ok = \<lparr>malloc_queue = True, malloc_ring = True, mutex_init_rc = 0,
     sem_init_pop_rc = 0, sem_init_push_rc = 0\<rparr>"

text \<open>A two-slot ring over a run that fills it, is refused, and wraps around.\<close>

definition queue_demo :: "nat queue_t" where
  "queue_demo = \<lparr>q_size = 2, q_ptr = Some [None, None], q_head = 0, q_tail = 0,
     q_pending = 0, push_semaphore = 2, pop_semaphore = 0\<rparr>"

theorem queue_fifo_refinement_witness:
  "queue_init queue_os_ok 2 = Ok queue_demo \<and>
   snd (fifo_run queue_push_step queue_pop_step queue_demo
     [Push (Some 1), Push None, Push (Some 3), Pop, Push (Some 4), Pop, Pop, Pop]) =
   [Pushed, Pushed, Full, Popped (Some 1), Pushed, Popped None, Popped (Some 4), Empty]"
proof -
  let ?ops = "[Push (Some 1), Push None, Push (Some 3), Pop, Push (Some 4), Pop, Pop, Pop]"
  have init: "queue_init queue_os_ok 2 = Ok queue_demo"
    by (simp add: queue_init_def queue_os_ok_def queue_demo_def numeral_2_eq_2)
  obtain r outs where run: "fifo_run queue_push_step queue_pop_step queue_demo ?ops = (r, outs)"
    by (cases "fifo_run queue_push_step queue_pop_step queue_demo ?ops")
  have "fifo_run (spec_push 2) spec_pop [] ?ops = (queue_items r, outs)"
    using queue_fifo_refinement[OF init run] by blast
  then have "outs = [Pushed, Pushed, Full, Popped (Some 1), Pushed, Popped None, Popped (Some 4), Empty]"
    by (simp add: spec_push_def spec_pop_def)
  then show ?thesis using init run by simp
qed

text \<open>
  C8. Safety under interleaving. In every state that any number of threads can reach, each
  at any point of a push or a pop: the elements stored so far are the elements taken so far
  followed by the ring's items, in the order of the locked sections; the ring never holds
  more than its size; a thread past its push wait will store into a slot that exists and is
  empty; a thread past its pop wait finds an item; and the post that ends a push or a pop
  succeeds, so the \<^verbatim>\<open>FATAL\<close> after it is unreachable.
\<close>

theorem queue_threads_safe:
  assumes "qreach s" and "i < length (qs_pcs s)"
  shows "qs_in s = qs_out s @ queue_items (qs_queue s) \<and>
    length (queue_items (qs_queue s)) \<le> q_size (qs_queue s) \<and>
    (case qs_pcs s ! i of
       PushWaited x \<Rightarrow> q_tail (qs_queue s) < length (the (q_ptr (qs_queue s))) \<and>
         the (q_ptr (qs_queue s)) ! q_tail (qs_queue s) = None
     | PopWaited \<Rightarrow> queue_items (qs_queue s) \<noteq> []
     | PushStored \<Rightarrow> sem_post (pop_semaphore (qs_queue s)) = Ok (Suc (pop_semaphore (qs_queue s)))
     | PopTaken x \<Rightarrow> sem_post (push_semaphore (qs_queue s)) = Ok (Suc (push_semaphore (qs_queue s)))
     | QIdle \<Rightarrow> True)"
proof -
  have inv: "qsys_inv s" using assms(1) by (rule qreach_inv)
  then have ok: "ring_ok (qs_queue s)" by (simp add: qsys_inv_def)
  have "queue_items (qs_queue s) \<noteq> []" if "qs_pcs s ! i = PopWaited"
    using qsys_item[OF inv assms(2)] that length_queue_items[of "qs_queue s"]
    by (auto simp del: length_queue_items)
  moreover have "q_tail (qs_queue s) < length (the (q_ptr (qs_queue s))) \<and>
       the (q_ptr (qs_queue s)) ! q_tail (qs_queue s) = None"
    if "qs_pcs s ! i = PushWaited x" for x
    using qsys_room[OF inv assms(2)] that ring_tail_clear[OF ok] by simp
  moreover have "q_pending (qs_queue s) \<le> q_size (qs_queue s)" "q_size (qs_queue s) \<le> SEM_VALUE_MAX"
    using ok by (auto elim: ring_okD)
  ultimately show ?thesis using inv qsys_posts[OF inv assms(2)]
    by (auto simp: qsys_inv_def split: qpc.splits)
qed

text \<open>Two threads on the two-slot ring: one has stored and not posted, the other has waited.\<close>

definition qsys_demo :: "nat qsys" where
  "qsys_demo = \<lparr>qs_queue = queue_demo\<lparr>q_ptr := Some [Some 7, None], q_tail := 1, q_pending := 1,
     push_semaphore := 0\<rparr>, qs_pcs = [PushStored, PushWaited (Some 8)], qs_in = [Some 7], qs_out = []\<rparr>"

lemma qsys_demo_reach: "qreach qsys_demo"
proof -
  have r0: "qreach (qsys_start queue_demo 2)"
    by (rule qreach_init[of queue_os_ok 2])
      (simp add: queue_init_def queue_os_ok_def queue_demo_def numeral_2_eq_2)
  note r1 = qreach_step[OF r0 push_wait[of 0 _ 1 "Some 7"]]
  note r2 = qreach_step[OF r1 push_store[of 0 _ "Some 7" "[None, None]"]]
  note r3 = qreach_step[OF r2 push_wait[of 1 _ 0 "Some 8"]]
  show ?thesis
    using r3 by (simp add: qsys_start_def queue_demo_def qsys_demo_def queue_store_def
        sem_wait_def size_inc_def numeral_2_eq_2)
qed

theorem queue_threads_safe_witness:
  "qreach qsys_demo \<and> sem_post (pop_semaphore (qs_queue qsys_demo)) = Ok 1 \<and>
   the (q_ptr (qs_queue qsys_demo)) ! q_tail (qs_queue qsys_demo) = None"
  using queue_threads_safe[of qsys_demo 0] queue_threads_safe[of qsys_demo 1] qsys_demo_reach
  by (simp add: qsys_demo_def queue_demo_def)

text \<open>
  C21. Progress under interleaving. A thread that has passed its semaphore wait always can take
  its next step, whatever the other threads did; and when every thread is idle, a push or a
  pop (or both) can start, so the queue never reaches a state in which all its users wait.
\<close>

theorem queue_threads_progress:
  assumes "qreach s" and "i < length (qs_pcs s)"
    and "qs_pcs s ! i \<noteq> QIdle \<or> (\<forall>j < length (qs_pcs s). qs_pcs s ! j = QIdle)"
  shows "\<exists>t. qstep s t \<and> qs_pcs t ! i \<noteq> qs_pcs s ! i"
proof -
  have inv: "qsys_inv s" using assms(1) by (rule qreach_inv)
  then obtain buf where buf: "q_ptr (qs_queue s) = Some buf" by (auto simp: qsys_inv_def elim: ring_okD)
  show ?thesis
  proof (cases "qs_pcs s ! i")
    case QIdle
    then have "\<forall>pc \<in> set (qs_pcs s). pc = QIdle" using assms(3) by (auto simp: in_set_conv_nth)
    then have "qs_pcs s = replicate (length (qs_pcs s)) QIdle" by (simp add: replicate_length_same)
    then have "cnt P (qs_pcs s) = (if P QIdle then length (qs_pcs s) else 0)" for P
      by (metis cnt_replicate)
    moreover have "0 < q_size (qs_queue s)" using inv by (auto simp: qsys_inv_def elim: ring_okD)
    ultimately have "0 < push_semaphore (qs_queue s) \<or> 0 < pop_semaphore (qs_queue s)"
      using inv by (auto simp: qsys_inv_def)
    then show ?thesis
    proof
      assume "0 < push_semaphore (qs_queue s)"
      then have "sem_wait False (push_semaphore (qs_queue s)) = Ok (push_semaphore (qs_queue s) - 1)"
        by (simp add: sem_wait_def)
      from qstep.push_wait[OF assms(2) QIdle this, of None] show ?thesis
        by (intro exI conjI, assumption) (simp add: assms(2) QIdle)
    next
      assume "0 < pop_semaphore (qs_queue s)"
      then have "sem_wait False (pop_semaphore (qs_queue s)) = Ok (pop_semaphore (qs_queue s) - 1)"
        by (simp add: sem_wait_def)
      from qstep.pop_wait[OF assms(2) QIdle this] show ?thesis
        by (intro exI conjI, assumption) (simp add: assms(2) QIdle)
    qed
  next
    case (PushWaited x)
    from qstep.push_store[OF assms(2) this buf] show ?thesis
      by (intro exI conjI, assumption) (simp add: assms(2) PushWaited)
  next
    case PushStored
    from qstep.push_post[OF assms(2) this] show ?thesis
      using qsys_posts(1)[OF inv assms(2) PushStored] PushStored assms(2) by fastforce
  next
    case PopWaited
    from qstep.pop_take[OF assms(2) this buf] show ?thesis
      using PopWaited assms(2) by (cases "queue_take buf (qs_queue s)") fastforce
  next
    case (PopTaken x)
    from qstep.pop_post[OF assms(2) this] show ?thesis
      using qsys_posts(2)[OF inv assms(2) PopTaken] PopTaken assms(2) by fastforce
  qed
qed

theorem queue_threads_progress_witness:
  "\<exists>t. qstep qsys_demo t \<and> qs_pcs t ! 0 \<noteq> PushStored"
  using queue_threads_progress[of qsys_demo 0] qsys_demo_reach by (simp add: qsys_demo_def)

text \<open>
  The two platforms. On a well-formed queue the Windows \<^verbatim>\<open>queue_try_push\<close>
  of a non-null element and \<^verbatim>\<open>queue_try_pop\<close> do exactly what the Linux ones
  do, but the null element, which the engine pushes as the sentinel that ends its receive
  threads, is appended on Linux and refused on Windows with the queue unchanged.
\<close>

theorem queue_platforms:
  assumes "queue_wf q"
  shows "win_queue_try_push False (Some q) (Some x) = queue_try_push mutex_ok (Some q) (Some x) \<and>
    win_queue_try_pop False (Some q) = queue_try_pop mutex_ok (Some q) \<and>
    win_queue_try_push False (Some q) None = (Some q, Err EINVAL) \<and>
    (q_pending q < q_size q \<longrightarrow>
      (\<exists>r. queue_try_push mutex_ok (Some q) None = (Some r, Ok 0) \<and>
        queue_items r = queue_items q @ [None]))"
proof -
  have "ring_ok q" using assms by (simp add: queue_wf_def)
  then have "win_queue_try_push False (Some q) None = (Some q, Err EINVAL)"
    by (auto simp: win_queue_try_push_def elim!: ring_okD)
  then show ?thesis
    using win_queue_try_push_eq[OF assms, of x] win_queue_try_pop_eq[OF assms]
      queue_try_push_spec[OF assms, of None] by auto
qed

theorem queue_platforms_witness:
  "queue_wf queue_demo \<and> win_queue_try_push False (Some queue_demo) None = (Some queue_demo, Err EINVAL)"
  using queue_platforms[of queue_demo] by (simp add: queue_wf_def ring_ok_def queue_demo_def less_Suc_eq numeral_2_eq_2)

end
