(* ===== verification/Lf_Queue.thy ===== *)
theory Lf_Queue
  imports Blocking_Queue
begin

text \<open>
  The single-producer single-consumer queue of \<^verbatim>\<open>common/inc/lf_queue.h\<close>: a ring
  whose capacity is a power of two, addressed by two free-running 64-bit counters and a
  mask. First the operations as functions, shown to satisfy the same contract as the
  blocking queue whatever the counters are, the wrap from \<^term>\<open>2 ^ 64 - 1\<close> to zero
  included; then the operations cut at every atomic access, with the producer and the
  consumer interleaved. The acquire and release orderings of the source are what lets the
  accesses be taken in one order.
\<close>

section \<open>The structure and its operations\<close>

record 'a lf_queue =
  lf_capacity :: u64
  lf_mask :: u64
  lf_ptr :: "'a option list option"
  lf_tail :: u64
  lf_head :: u64
  items_sem :: nat

definition lf_queue_init :: "bool \<Rightarrow> int \<Rightarrow> 'a lf_queue option \<Rightarrow> u64 \<Rightarrow> 'a lf_queue option \<times> int cres" where
  "lf_queue_init malloc_ok sem_rc qp n =
     (case qp of None \<Rightarrow> (qp, Err EINVAL)
      | Some q \<Rightarrow>
        if n = 0 then (qp, Err EINVAL)
        else if n AND (n - 1) \<noteq> 0 then (qp, Err EINVAL)
        else let q1 = q\<lparr>lf_capacity := n, lf_mask := n - 1\<rparr> in
          if \<not> malloc_ok then (Some (q1\<lparr>lf_ptr := None\<rparr>), Err ENOMEM)
          else let q2 = q1\<lparr>lf_ptr := Some (replicate (unat n) None), lf_tail := 0, lf_head := 0\<rparr> in
            if sem_rc \<noteq> 0 then (Some (q2\<lparr>lf_ptr := None\<rparr>), Err sem_rc)
            else (Some (q2\<lparr>items_sem := 0\<rparr>), Ok 0))"

text \<open>The result of \<^verbatim>\<open>sem_post\<close> is not looked at.\<close>

definition lf_post :: "nat \<Rightarrow> nat" where
  "lf_post v = (case sem_post v of Ok w \<Rightarrow> w | _ \<Rightarrow> v)"

definition lf_queue_try_push :: "'a lf_queue option \<Rightarrow> 'a option \<Rightarrow> 'a lf_queue option \<times> int cres" where
  "lf_queue_try_push qp ptr =
     (case qp of None \<Rightarrow> (qp, Err EINVAL)
      | Some q \<Rightarrow>
     (case lf_ptr q of None \<Rightarrow> (qp, Err EINVAL)
      | Some buf \<Rightarrow>
        if ptr = None then (qp, Err EINVAL)
        else if lf_capacity q \<le> lf_tail q - lf_head q then (qp, Err EAGAIN)
        else (Some (q\<lparr>lf_ptr := Some (buf[unat (lf_tail q AND lf_mask q) := ptr]),
                      lf_tail := lf_tail q + 1,
                      items_sem := lf_post (items_sem q)\<rparr>), Ok 0)))"

text \<open>
  The spinning push. Each failed attempt lets the other thread run once; what it does is an
  element of the list, and running out of the list is not having returned yet.
\<close>

fun lf_queue_wait_push ::
  "('a lf_queue option \<Rightarrow> 'a lf_queue option) list \<Rightarrow> 'a lf_queue option \<Rightarrow> 'a option
   \<Rightarrow> 'a lf_queue option \<times> int cres" where
  "lf_queue_wait_push envs qp ptr =
     (case lf_queue_try_push qp ptr of
        (qp', Err e) \<Rightarrow>
          if e \<noteq> EAGAIN then (qp', Err e)
          else (case envs of [] \<Rightarrow> (qp', Block)
                | env # envs' \<Rightarrow> lf_queue_wait_push envs' (env qp') ptr)
      | r \<Rightarrow> r)"

declare lf_queue_wait_push.simps [simp del]

text \<open>The extraction both pops share once they hold a token.\<close>

definition lf_extract :: "'a option list \<Rightarrow> 'a lf_queue \<Rightarrow> 'a lf_queue \<times> 'a option" where
  "lf_extract buf q =
     (let current_head = lf_head q; i = unat (current_head AND lf_mask q) in
      (q\<lparr>lf_ptr := Some (buf[i := None]), lf_head := current_head + 1\<rparr>, buf ! i))"

text \<open>\<^verbatim>\<open>sem_wait\<close> retried after each interruption.\<close>

fun lf_sem_wait :: "bool list \<Rightarrow> nat \<Rightarrow> nat cres" where
  "lf_sem_wait [] v = sem_wait False v"
| "lf_sem_wait (intr # intrs) v =
     (case sem_wait intr v of Err e \<Rightarrow> if e \<noteq> EINTR then Err e else lf_sem_wait intrs v | r \<Rightarrow> r)"

definition lf_queue_wait_pop ::
  "bool list \<Rightarrow> 'a lf_queue option \<Rightarrow> 'a lf_queue option \<times> 'a option cres" where
  "lf_queue_wait_pop intrs qp =
     (case qp of None \<Rightarrow> (qp, Err EINVAL)
      | Some q \<Rightarrow>
     (case lf_ptr q of None \<Rightarrow> (qp, Err EINVAL)
      | Some buf \<Rightarrow>
     (case lf_sem_wait intrs (items_sem q) of
        Ok v \<Rightarrow> map_prod Some Ok (lf_extract buf (q\<lparr>items_sem := v\<rparr>))
      | Err e \<Rightarrow> (qp, Err e)
      | Block \<Rightarrow> (qp, Block)
      | Abort \<Rightarrow> (qp, Abort))))"

definition lf_queue_try_pop :: "'a lf_queue option \<Rightarrow> 'a lf_queue option \<times> 'a option cres" where
  "lf_queue_try_pop qp =
     (case qp of None \<Rightarrow> (qp, Err EINVAL)
      | Some q \<Rightarrow>
     (case lf_ptr q of None \<Rightarrow> (qp, Err EINVAL)
      | Some buf \<Rightarrow>
     (case sem_trywait (items_sem q) of
        Ok v \<Rightarrow> map_prod Some Ok (lf_extract buf (q\<lparr>items_sem := v\<rparr>))
      | Err e \<Rightarrow> (qp, Err e)
      | Block \<Rightarrow> (qp, Block)
      | Abort \<Rightarrow> (qp, Abort))))"

definition lf_queue_get_pending :: "'a lf_queue option \<Rightarrow> int" where
  "lf_queue_get_pending qp =
     (case qp of None \<Rightarrow> -1
      | Some q \<Rightarrow> if lf_ptr q = None then -1 else sint (lf_tail q - lf_head q))"

definition lf_queue_destroy :: "'a lf_queue option \<Rightarrow> 'a lf_queue option \<times> int cres" where
  "lf_queue_destroy qp =
     (case qp of None \<Rightarrow> (qp, Err EINVAL)
      | Some q \<Rightarrow>
        if lf_ptr q = None then (qp, Err EINVAL)
        else (Some (q\<lparr>lf_ptr := None, lf_capacity := 0, lf_mask := 0\<rparr>), Ok 0))"

section \<open>Powers of two and masks\<close>

text \<open>Masking the free-running counters is reduction modulo the capacity.\<close>

lemma mask_index:
  assumes "k < 64"
  shows "unat (x AND ((2::u64) ^ k - 1)) = unat x mod 2 ^ k"
proof -
  have "(2::u64) ^ k - 1 = mask k" by (simp add: mask_eq_exp_minus_1)
  then have "unat (x AND ((2::u64) ^ k - 1)) = take_bit k (unat x)"
    by (simp add: take_bit_eq_mask[symmetric] unsigned_take_bit_eq)
  then show ?thesis by (simp only: take_bit_eq_mod)
qed

lemma mask_index_of_nat:
  assumes "k < 64"
  shows "unat ((of_nat m :: u64) AND (2 ^ k - 1)) = m mod 2 ^ k"
proof -
  have "(2::nat) ^ k dvd 2 ^ 64" using assms by (intro le_imp_power_dvd) simp
  then have "(m mod 2 ^ 64) mod 2 ^ k = m mod 2 ^ k" by (rule mod_mod_cancel)
  then show ?thesis by (simp add: mask_index[OF assms] unat_of_nat)
qed

text \<open>The distance of two counters is the number of steps between them, across the wrap.\<close>

lemma counter_distance:
  assumes "h \<le> t" "t - h < 2 ^ 64"
  shows "unat ((of_nat t :: u64) - of_nat h) = t - h"
proof -
  have "(of_nat t :: u64) - of_nat h = of_nat (t - h)" using assms(1) by simp
  then show ?thesis using assms(2) by (simp add: unat_of_nat)
qed

section \<open>The contract\<close>

definition lf_items :: "'a lf_queue \<Rightarrow> 'a option list" where
  "lf_items q = ring_items (the (lf_ptr q)) (unat (lf_head q AND lf_mask q))
     (unat (lf_tail q - lf_head q))"

text \<open>
  A power-of-two ring with its mask, at most as many items as slots, every item non-null and
  one token per item. The bound by the semaphore's maximum is the one the blocking queue
  checks at creation and this one does not.
\<close>

definition lf_wf :: "'a lf_queue \<Rightarrow> bool" where
  "lf_wf q \<longleftrightarrow> lf_capacity q \<noteq> 0 \<and> lf_capacity q AND (lf_capacity q - 1) = 0 \<and>
     lf_mask q = lf_capacity q - 1 \<and>
     (case lf_ptr q of None \<Rightarrow> False | Some buf \<Rightarrow> length buf = unat (lf_capacity q)) \<and>
     unat (lf_tail q - lf_head q) \<le> unat (lf_capacity q) \<and>
     unat (lf_capacity q) \<le> SEM_VALUE_MAX \<and>
     items_sem q = unat (lf_tail q - lf_head q) \<and> None \<notin> set (lf_items q)"

lemma length_lf_items [simp]: "length (lf_items q) = unat (lf_tail q - lf_head q)"
  by (simp add: lf_items_def)

lemma lf_wfE:
  assumes "lf_wf q"
  obtains k buf where "k < 64" "unat (lf_capacity q) = 2 ^ k" "lf_mask q = 2 ^ k - 1"
    "lf_ptr q = Some buf" "length buf = 2 ^ k"
    "unat (lf_tail q - lf_head q) \<le> 2 ^ k" "2 ^ k \<le> SEM_VALUE_MAX"
    "items_sem q = unat (lf_tail q - lf_head q)" "None \<notin> set (lf_items q)"
  using assms u64_pow2_test[of "lf_capacity q"]
  by (auto simp: lf_wf_def split: option.splits)

lemma lf_tail_index:
  assumes "k < 64"
  shows "unat (t AND (2 ^ k - 1)) = (unat (h AND (2 ^ k - 1)) + unat ((t::u64) - h)) mod 2 ^ k"
proof -
  have "t = of_nat (unat h + unat (t - h))" by (simp add: algebra_simps)
  then have "unat (t AND (2 ^ k - 1)) = (unat h + unat (t - h)) mod 2 ^ k"
    using mask_index_of_nat[OF assms, of "unat h + unat (t - h)"] by simp
  then show ?thesis by (simp add: mask_index[OF assms] mod_add_left_eq)
qed

lemma lf_head_index:
  assumes "k < 64"
  shows "unat ((h + 1) AND (2 ^ k - 1)) = Suc (unat ((h::u64) AND (2 ^ k - 1))) mod 2 ^ k"
proof -
  have "h + 1 = of_nat (Suc (unat h))" by simp
  then show ?thesis
    using mask_index_of_nat[OF assms, of "Suc (unat h)"] by (simp add: mask_index[OF assms] mod_Suc_eq add.commute)
qed

lemma counter_inc:
  assumes "unat ((t::u64) - h) < 2 ^ 63"
  shows "unat (t + 1 - h) = Suc (unat (t - h))"
proof -
  have "t + 1 - h = (t - h) + 1" by simp
  moreover have "t - h + 1 \<noteq> 0"
  proof
    assume "t - h + 1 = 0"
    then have "t - h = -1" by (simp add: eq_neg_iff_add_eq_0)
    then show False using assms by (simp add: unsigned_minus_1_eq_mask mask_eq_exp_minus_1)
  qed
  ultimately show ?thesis by (metis unatSuc add.commute)
qed

lemma counter_dec:
  assumes "(t::u64) - h \<noteq> 0"
  shows "unat (t - h) = Suc (unat (t - (h + 1)))"
proof -
  have "t - (h + 1) = (t - h) - 1" by simp
  moreover have "unat ((t - h) - 1) = unat (t - h) - 1" using assms by (rule unat_minus_one)
  moreover have "0 < unat (t - h)" using assms by (simp only: unat_gt_0 not_False_eq_True)
  ultimately show ?thesis by (metis Suc_diff_1)
qed

lemma lf_queue_try_push_spec:
  assumes "lf_wf q"
  shows "if length (lf_items q) < unat (lf_capacity q)
    then \<exists>q'. lf_queue_try_push (Some q) (Some x) = (Some q', Ok 0) \<and> lf_wf q' \<and>
      lf_items q' = lf_items q @ [Some x] \<and> lf_capacity q' = lf_capacity q
    else lf_queue_try_push (Some q) (Some x) = (Some q, Err EAGAIN)"
proof -
  from assms obtain k buf where k: "k < 64" "unat (lf_capacity q) = 2 ^ k" "lf_mask q = 2 ^ k - 1"
    and buf: "lf_ptr q = Some buf" "length buf = 2 ^ k"
    and le: "unat (lf_tail q - lf_head q) \<le> 2 ^ k" "2 ^ k \<le> SEM_VALUE_MAX"
    and sem: "items_sem q = unat (lf_tail q - lf_head q)" and nn: "None \<notin> set (lf_items q)"
    by (rule lf_wfE)
  show ?thesis
  proof (cases "length (lf_items q) < unat (lf_capacity q)")
    case True
    let ?q = "q\<lparr>lf_ptr := Some (buf[unat (lf_tail q AND lf_mask q) := Some x]),
                lf_tail := lf_tail q + 1, items_sem := lf_post (items_sem q)\<rparr>"
    have lt: "unat (lf_tail q - lf_head q) < 2 ^ k" using True k by simp
    have step: "lf_queue_try_push (Some q) (Some x) = (Some ?q, Ok 0)"
      using True buf k by (simp add: lf_queue_try_push_def word_le_nat_alt)
    have inc: "unat (lf_tail q + 1 - lf_head q) = Suc (unat (lf_tail q - lf_head q))"
      using lt le by (intro counter_inc) simp
    have items: "lf_items ?q = lf_items q @ [Some x]"
      using ring_items_store[OF buf(2) lt, of "unat (lf_head q AND lf_mask q)" "Some x"] inc buf
        lf_tail_index[OF k(1), of "lf_tail q" "lf_head q"] k
      by (simp add: lf_items_def)
    have "lf_wf ?q" using assms lt le inc items buf k sem nn
      by (simp add: lf_wf_def lf_post_def sem_post_def)
    then show ?thesis using True step items by simp
  next
    case False
    then show ?thesis using buf k by (simp add: lf_queue_try_push_def word_le_nat_alt)
  qed
qed

lemma lf_queue_try_pop_spec:
  assumes "lf_wf q"
  shows "case lf_items q of
      [] \<Rightarrow> lf_queue_try_pop (Some q) = (Some q, Err EAGAIN)
    | x # xs \<Rightarrow> \<exists>q'. lf_queue_try_pop (Some q) = (Some q', Ok x) \<and> lf_wf q' \<and>
        lf_items q' = xs \<and> lf_capacity q' = lf_capacity q"
proof -
  from assms obtain k buf where k: "k < 64" "unat (lf_capacity q) = 2 ^ k" "lf_mask q = 2 ^ k - 1"
    and buf: "lf_ptr q = Some buf" "length buf = 2 ^ k"
    and le: "unat (lf_tail q - lf_head q) \<le> 2 ^ k" "2 ^ k \<le> SEM_VALUE_MAX"
    and sem: "items_sem q = unat (lf_tail q - lf_head q)" and nn: "None \<notin> set (lf_items q)"
    by (rule lf_wfE)
  show ?thesis
  proof (cases "lf_tail q - lf_head q = 0")
    case True
    then have "lf_items q = []" using length_lf_items[of q] by (simp del: length_lf_items)
    then show ?thesis using buf sem True by (simp add: lf_queue_try_pop_def sem_trywait_def)
  next
    case False
    let ?i = "unat (lf_head q AND lf_mask q)"
    let ?q = "q\<lparr>items_sem := items_sem q - 1, lf_ptr := Some (buf[?i := None]), lf_head := lf_head q + 1\<rparr>"
    have dec: "unat (lf_tail q - lf_head q) = Suc (unat (lf_tail q - (lf_head q + 1)))"
      using False by (rule counter_dec)
    have i: "?i < 2 ^ k" using k by (simp add: mask_index)
    have items: "lf_items q = buf ! ?i # lf_items ?q"
      using ring_items_take[OF buf(2) i, of "unat (lf_tail q - (lf_head q + 1))" None] dec le(1) buf k
      by (simp add: lf_items_def lf_head_index[OF k(1)])
    have "0 < items_sem q" using sem dec by simp
    then have "lf_queue_try_pop (Some q) = (Some ?q, Ok (buf ! ?i))"
      using buf by (simp add: lf_queue_try_pop_def sem_trywait_def lf_extract_def Let_def)
    moreover have "lf_wf ?q" using assms items nn dec sem buf by (simp add: lf_wf_def)
    ultimately show ?thesis using items by simp
  qed
qed

definition lf_push_step :: "'a \<Rightarrow> 'a lf_queue \<Rightarrow> 'a lf_queue option" where
  "lf_push_step x q =
     (case lf_queue_try_push (Some q) (Some x) of (Some q', Ok _) \<Rightarrow> Some q' | _ \<Rightarrow> None)"

definition lf_pop_step :: "'a lf_queue \<Rightarrow> ('a \<times> 'a lf_queue) option" where
  "lf_pop_step q =
     (case lf_queue_try_pop (Some q) of (Some q', Ok (Some x)) \<Rightarrow> Some (x, q') | _ \<Rightarrow> None)"

definition lf_values :: "'a lf_queue \<Rightarrow> 'a list" where
  "lf_values q = map the (lf_items q)"

interpretation lf: bounded_fifo lf_wf lf_values "\<lambda>q. unat (lf_capacity q)" lf_push_step lf_pop_step
proof unfold_locales
  fix q q' :: "'a lf_queue" and x :: 'a
  assume wf: "lf_wf q"
  note push = lf_queue_try_push_spec[OF wf, of x] and pop = lf_queue_try_pop_spec[OF wf]
  have nn: "None \<notin> set (lf_items q)" using wf by (rule lf_wfE)
  show "lf_push_step x q = None \<longleftrightarrow> unat (lf_capacity q) \<le> length (lf_values q)"
    using push by (auto simp: lf_push_step_def lf_values_def split: if_splits)
  show "lf_pop_step q = None \<longleftrightarrow> lf_values q = []"
    using pop nn by (cases "lf_items q") (auto simp: lf_pop_step_def lf_values_def split: option.splits)
  show "lf_wf q' \<and> lf_values q' = lf_values q @ [x] \<and> unat (lf_capacity q') = unat (lf_capacity q)"
    if "lf_push_step x q = Some q'"
    using push that by (auto simp: lf_push_step_def lf_values_def split: if_splits)
  show "lf_wf q' \<and> lf_values q = x # lf_values q' \<and> unat (lf_capacity q') = unat (lf_capacity q)"
    if "lf_pop_step q = Some (x, q')"
    using pop that nn by (cases "lf_items q") (auto simp: lf_pop_step_def lf_values_def split: option.splits)
qed

lemma lf_queue_init_wf:
  assumes "lf_queue_init mok rc qp n = (Some q, Ok 0)" and "unat n \<le> SEM_VALUE_MAX"
  shows "lf_wf q \<and> lf_values q = [] \<and> lf_capacity q = n"
  using assms
  by (auto simp: lf_queue_init_def lf_wf_def lf_values_def lf_items_def ring_items_def Let_def
      split: option.splits if_splits)

lemma lf_queue_wait_pop_try:
  "0 < items_sem q \<Longrightarrow> lf_queue_wait_pop intrs (Some q) = lf_queue_try_pop (Some q)"
proof -
  assume pos: "0 < items_sem q"
  then have "lf_sem_wait intrs (items_sem q) = sem_trywait (items_sem q)"
    by (induction intrs) (auto simp: sem_wait_def sem_trywait_def)
  then show ?thesis by (simp add: lf_queue_wait_pop_def lf_queue_try_pop_def cong: option.case_cong)
qed

lemma lf_queue_wait_pop_empty:
  "items_sem q = 0 \<Longrightarrow> lf_ptr q \<noteq> None \<Longrightarrow> lf_queue_wait_pop intrs (Some q) = (Some q, Block)"
proof -
  assume e: "items_sem q = 0" and "lf_ptr q \<noteq> None"
  moreover have "lf_sem_wait intrs 0 = Block" by (induction intrs) (auto simp: sem_wait_def)
  ultimately show ?thesis by (auto simp: lf_queue_wait_pop_def)
qed

section \<open>Producer and consumer interleaved\<close>

text \<open>
  The producer's accesses in order: load of the tail, load of the head with the room test,
  store into the slot, store of the tail, post. The consumer's: wait, load of the head, read
  of the slot, clearing of the slot, store of the head. The histories grow when the tail and
  the head advance.
\<close>

datatype 'a ppc = PIdle | PTail 'a u64 | PRoom 'a u64 u64 | PSlot 'a u64 | PPost
datatype 'a cpc = CIdle | CToken | CHead u64 | CRead u64 "'a option" | CCleared u64 "'a option"

record 'a spsc =
  sp_queue :: "'a lf_queue"
  sp_prod :: "'a ppc"
  sp_cons :: "'a cpc"
  sp_in :: "'a list"
  sp_out :: "'a option list"

inductive spsc_step :: "'a spsc \<Rightarrow> 'a spsc \<Rightarrow> bool" where
  load_tail: "sp_prod s = PIdle \<Longrightarrow>
     spsc_step s (s\<lparr>sp_prod := PTail x (lf_tail (sp_queue s))\<rparr>)"
| load_head: "sp_prod s = PTail x t \<Longrightarrow> t - lf_head (sp_queue s) < lf_capacity (sp_queue s) \<Longrightarrow>
     spsc_step s (s\<lparr>sp_prod := PRoom x t (lf_head (sp_queue s))\<rparr>)"
| full: "sp_prod s = PTail x t \<Longrightarrow> lf_capacity (sp_queue s) \<le> t - lf_head (sp_queue s) \<Longrightarrow>
     spsc_step s (s\<lparr>sp_prod := PIdle\<rparr>)"
| store_slot: "sp_prod s = PRoom x t h \<Longrightarrow> lf_ptr (sp_queue s) = Some buf \<Longrightarrow>
     spsc_step s (s\<lparr>sp_queue := (sp_queue s)\<lparr>lf_ptr :=
         Some (buf[unat (t AND lf_mask (sp_queue s)) := Some x])\<rparr>, sp_prod := PSlot x t\<rparr>)"
| store_tail: "sp_prod s = PSlot x t \<Longrightarrow>
     spsc_step s (s\<lparr>sp_queue := (sp_queue s)\<lparr>lf_tail := t + 1\<rparr>, sp_prod := PPost,
         sp_in := sp_in s @ [x]\<rparr>)"
| post: "sp_prod s = PPost \<Longrightarrow>
     spsc_step s (s\<lparr>sp_queue := (sp_queue s)\<lparr>items_sem := lf_post (items_sem (sp_queue s))\<rparr>,
         sp_prod := PIdle\<rparr>)"
| wait: "sp_cons s = CIdle \<Longrightarrow> sem_wait False (items_sem (sp_queue s)) = Ok v \<Longrightarrow>
     spsc_step s (s\<lparr>sp_queue := (sp_queue s)\<lparr>items_sem := v\<rparr>, sp_cons := CToken\<rparr>)"
| load_own_head: "sp_cons s = CToken \<Longrightarrow>
     spsc_step s (s\<lparr>sp_cons := CHead (lf_head (sp_queue s))\<rparr>)"
| read_slot: "sp_cons s = CHead h \<Longrightarrow> lf_ptr (sp_queue s) = Some buf \<Longrightarrow>
     spsc_step s (s\<lparr>sp_cons := CRead h (buf ! unat (h AND lf_mask (sp_queue s)))\<rparr>)"
| clear_slot: "sp_cons s = CRead h e \<Longrightarrow> lf_ptr (sp_queue s) = Some buf \<Longrightarrow>
     spsc_step s (s\<lparr>sp_queue := (sp_queue s)\<lparr>lf_ptr :=
         Some (buf[unat (h AND lf_mask (sp_queue s)) := None])\<rparr>, sp_cons := CCleared h e\<rparr>)"
| store_head: "sp_cons s = CCleared h e \<Longrightarrow>
     spsc_step s (s\<lparr>sp_queue := (sp_queue s)\<lparr>lf_head := h + 1\<rparr>, sp_cons := CIdle,
         sp_out := sp_out s @ [e]\<rparr>)"

inductive spsc_reach :: "'a spsc \<Rightarrow> bool" where
  spsc_init: "lf_queue_init mok rc qp n = (Some q, Ok 0) \<Longrightarrow> unat n \<le> SEM_VALUE_MAX \<Longrightarrow>
     spsc_reach \<lparr>sp_queue = q, sp_prod = PIdle, sp_cons = CIdle, sp_in = [], sp_out = []\<rparr>"
| spsc_more: "spsc_reach s \<Longrightarrow> spsc_step s t \<Longrightarrow> spsc_reach t"

text \<open>
  The invariant, for a ring of \<^term>\<open>2 ^ k\<close> slots. The counters are the lengths of the
  histories modulo the word size; the window between them holds the values in order, but for
  a slot the consumer has already cleared; the rest of the ring is clear, but for a slot the
  producer has already written; every token is accounted for.
\<close>

definition spsc_window :: "nat \<Rightarrow> 'a option list \<Rightarrow> 'a spsc \<Rightarrow> bool" where
  "spsc_window n buf s \<longleftrightarrow>
     (\<forall>j. length (sp_out s) \<le> j \<and> j < length (sp_in s) \<longrightarrow>
        buf ! (j mod n) =
          (if j = length (sp_out s) \<and> (\<exists>h e. sp_cons s = CCleared h e) then None
           else Some (sp_in s ! j))) \<and>
     (\<forall>j. length (sp_in s) \<le> j \<and> j < length (sp_out s) + n \<longrightarrow>
        buf ! (j mod n) =
          (if j = length (sp_in s) then (case sp_prod s of PSlot x t \<Rightarrow> Some x | _ \<Rightarrow> None) else None))"

definition spsc_prod_ok :: "nat \<Rightarrow> 'a spsc \<Rightarrow> bool" where
  "spsc_prod_ok n s \<longleftrightarrow>
     (case sp_prod s of
        PTail x t \<Rightarrow> t = lf_tail (sp_queue s)
      | PRoom x t h \<Rightarrow> t = lf_tail (sp_queue s) \<and> length (sp_in s) < length (sp_out s) + n
      | PSlot x t \<Rightarrow> t = lf_tail (sp_queue s) \<and> length (sp_in s) < length (sp_out s) + n
      | _ \<Rightarrow> True)"

definition spsc_cons_ok :: "'a spsc \<Rightarrow> bool" where
  "spsc_cons_ok s \<longleftrightarrow>
     (case sp_cons s of
        CHead h \<Rightarrow> h = lf_head (sp_queue s)
      | CRead h e \<Rightarrow> h = lf_head (sp_queue s) \<and> e = Some (sp_in s ! length (sp_out s))
      | CCleared h e \<Rightarrow> h = lf_head (sp_queue s) \<and> e = Some (sp_in s ! length (sp_out s))
      | _ \<Rightarrow> True)"

definition spsc_inv :: "nat \<Rightarrow> 'a option list \<Rightarrow> 'a spsc \<Rightarrow> bool" where
  "spsc_inv k buf s \<longleftrightarrow>
     k < 64 \<and> unat (lf_capacity (sp_queue s)) = 2 ^ k \<and> lf_mask (sp_queue s) = 2 ^ k - 1 \<and>
     lf_ptr (sp_queue s) = Some buf \<and> length buf = 2 ^ k \<and> (2::nat) ^ k \<le> SEM_VALUE_MAX \<and>
     lf_tail (sp_queue s) = of_nat (length (sp_in s)) \<and>
     lf_head (sp_queue s) = of_nat (length (sp_out s)) \<and>
     length (sp_out s) \<le> length (sp_in s) \<and> length (sp_in s) \<le> length (sp_out s) + 2 ^ k \<and>
     items_sem (sp_queue s) + of_bool (sp_cons s \<noteq> CIdle) + of_bool (sp_prod s = PPost) +
       length (sp_out s) = length (sp_in s) \<and>
     sp_out s = map Some (take (length (sp_out s)) (sp_in s)) \<and>
     spsc_window (2 ^ k) buf s \<and> spsc_prod_ok (2 ^ k) s \<and> spsc_cons_ok s"

lemma window_inj:
  assumes "i mod n = j mod n" "h \<le> i" "i < h + n" "h \<le> j" "j < h + n"
  shows "i = (j::nat)"
proof -
  have "(h + (i - h)) mod n = (h + (j - h)) mod n" using assms by simp
  moreover have "i - h < n" "j - h < n" using assms by auto
  ultimately have "i - h = j - h" by (rule ring_index_inj)
  then show ?thesis using assms(2,4) by simp
qed

text \<open>A slot rewritten, seen through the window of indices around it.\<close>

lemma window_update:
  assumes "length buf = n" "i < h + n" "h \<le> i" "h \<le> j" "j < h + n"
  shows "(buf[i mod n := v]) ! (j mod n) = (if j = i then v else buf ! (j mod n))"
  using window_inj[of i n j h] assms by (auto simp: nth_list_update)

lemma spsc_slots:
  assumes "spsc_inv k buf s"
  shows "unat (lf_tail (sp_queue s) AND lf_mask (sp_queue s)) = length (sp_in s) mod 2 ^ k"
    and "unat (lf_head (sp_queue s) AND lf_mask (sp_queue s)) = length (sp_out s) mod 2 ^ k"
    and "unat (lf_tail (sp_queue s) - lf_head (sp_queue s)) = length (sp_in s) - length (sp_out s)"
  using assms mask_index_of_nat[of k "length (sp_in s)"] mask_index_of_nat[of k "length (sp_out s)"]
    counter_distance[of "length (sp_out s)" "length (sp_in s)"]
  by (auto simp: spsc_inv_def)

lemma spsc_item:
  assumes "spsc_inv k buf s" "sp_cons s \<noteq> CIdle"
  shows "length (sp_out s) < length (sp_in s)"
  using assms by (auto simp: spsc_inv_def)

text \<open>What one side knows survives the steps of the other.\<close>

lemma spsc_prod_ok_frame:
  "spsc_prod_ok n s \<Longrightarrow> sp_prod s' = sp_prod s \<Longrightarrow> lf_tail (sp_queue s') = lf_tail (sp_queue s) \<Longrightarrow>
   sp_in s' = sp_in s \<Longrightarrow> length (sp_out s) \<le> length (sp_out s') \<Longrightarrow> spsc_prod_ok n s'"
  by (auto simp: spsc_prod_ok_def split: ppc.splits)

lemma spsc_cons_ok_frame:
  "spsc_cons_ok s \<Longrightarrow> sp_cons s' = sp_cons s \<Longrightarrow> lf_head (sp_queue s') = lf_head (sp_queue s) \<Longrightarrow>
   sp_out s' = sp_out s \<Longrightarrow>
   (sp_cons s \<noteq> CIdle \<Longrightarrow> sp_in s' ! length (sp_out s) = sp_in s ! length (sp_out s)) \<Longrightarrow>
   spsc_cons_ok s'"
  by (auto simp: spsc_cons_ok_def split: cpc.splits)

text \<open>The steps that touch a slot.\<close>

lemma spsc_store_slot:
  assumes inv: "spsc_inv k buf s" and pc: "sp_prod s = PRoom x t h"
  shows "spsc_inv k (buf[length (sp_in s) mod 2 ^ k := Some x])
    (s\<lparr>sp_queue := (sp_queue s)\<lparr>lf_ptr := Some (buf[length (sp_in s) mod 2 ^ k := Some x])\<rparr>,
       sp_prod := PSlot x t\<rparr>)"
proof -
  let ?n = "(2::nat) ^ k" and ?T = "length (sp_in s)" and ?H = "length (sp_out s)"
  have lt: "?T < ?H + ?n" "?H \<le> ?T" and len: "length buf = ?n" and win: "spsc_window ?n buf s"
    using inv pc by (auto simp: spsc_inv_def spsc_prod_ok_def)
  note upd = window_update[OF len lt]
  have "spsc_window ?n (buf[?T mod ?n := Some x]) (s\<lparr>sp_queue := (sp_queue s)\<lparr>lf_ptr :=
      Some (buf[?T mod ?n := Some x])\<rparr>, sp_prod := PSlot x t\<rparr>)"
    unfolding spsc_window_def using win lt by (simp add: upd spsc_window_def pc) blast
  then show ?thesis using inv pc lt
    by (auto simp: spsc_inv_def spsc_prod_ok_def elim!: spsc_cons_ok_frame)
qed

lemma spsc_clear_slot:
  assumes inv: "spsc_inv k buf s" and pc: "sp_cons s = CRead h e"
  shows "spsc_inv k (buf[length (sp_out s) mod 2 ^ k := None])
    (s\<lparr>sp_queue := (sp_queue s)\<lparr>lf_ptr := Some (buf[length (sp_out s) mod 2 ^ k := None])\<rparr>,
       sp_cons := CCleared h e\<rparr>)"
proof -
  let ?n = "(2::nat) ^ k" and ?T = "length (sp_in s)" and ?H = "length (sp_out s)"
  have lt: "?H < ?T" "?T \<le> ?H + ?n" and len: "length buf = ?n" and win: "spsc_window ?n buf s"
    using inv pc spsc_item[OF inv] by (auto simp: spsc_inv_def)
  have "?H < ?H + ?n" by simp
  note upd = window_update[OF len this le_refl]
  have "spsc_window ?n (buf[?H mod ?n := None]) (s\<lparr>sp_queue := (sp_queue s)\<lparr>lf_ptr :=
      Some (buf[?H mod ?n := None])\<rparr>, sp_cons := CCleared h e\<rparr>)"
    unfolding spsc_window_def using win lt by (simp add: upd spsc_window_def pc)
  then show ?thesis using inv pc lt
    by (auto simp: spsc_inv_def spsc_cons_ok_def elim!: spsc_prod_ok_frame)
qed

lemma spsc_read_slot:
  assumes inv: "spsc_inv k buf s" and pc: "sp_cons s = CHead h"
  shows "spsc_inv k buf (s\<lparr>sp_cons := CRead h (buf ! (length (sp_out s) mod 2 ^ k))\<rparr>)"
  using inv pc spsc_item[OF inv]
  by (auto simp: spsc_inv_def spsc_window_def spsc_cons_ok_def elim!: spsc_prod_ok_frame)

text \<open>The steps that move a counter.\<close>

lemma spsc_store_tail:
  assumes inv: "spsc_inv k buf s" and pc: "sp_prod s = PSlot x t"
  shows "spsc_inv k buf (s\<lparr>sp_queue := (sp_queue s)\<lparr>lf_tail := t + 1\<rparr>, sp_prod := PPost,
         sp_in := sp_in s @ [x]\<rparr>)"
proof -
  let ?s = "s\<lparr>sp_queue := (sp_queue s)\<lparr>lf_tail := t + 1\<rparr>, sp_prod := PPost, sp_in := sp_in s @ [x]\<rparr>"
  have lt: "length (sp_in s) < length (sp_out s) + 2 ^ k" and win: "spsc_window (2 ^ k) buf s"
    and le: "length (sp_out s) \<le> length (sp_in s)" and cons: "spsc_cons_ok s"
    using inv pc by (auto simp: spsc_inv_def spsc_prod_ok_def)
  have item: "sp_cons s \<noteq> CIdle \<Longrightarrow> length (sp_out s) < length (sp_in s)" using spsc_item[OF inv] .
  have "spsc_window (2 ^ k) buf ?s" unfolding spsc_window_def
  proof (intro conjI allI impI; elim conjE)
    fix j assume j: "length (sp_out ?s) \<le> j" "j < length (sp_in ?s)"
    show "buf ! (j mod 2 ^ k) = (if j = length (sp_out ?s) \<and> (\<exists>h e. sp_cons ?s = CCleared h e)
        then None else Some (sp_in ?s ! j))"
    proof (cases "j = length (sp_in s)")
      case True
      then have "buf ! (j mod 2 ^ k) = Some x" using win lt by (simp add: spsc_window_def pc)
      then show ?thesis using True item by auto
    next
      case False
      then show ?thesis using j win by (simp add: spsc_window_def nth_append)
    qed
  next
    fix j assume "length (sp_in ?s) \<le> j" "j < length (sp_out ?s) + 2 ^ k"
    then show "buf ! (j mod 2 ^ k) =
        (if j = length (sp_in ?s) then case sp_prod ?s of PSlot x t \<Rightarrow> Some x | _ \<Rightarrow> None else None)"
      using win by (simp add: spsc_window_def)
  qed
  moreover have "spsc_cons_ok ?s" using cons by (rule spsc_cons_ok_frame) (auto simp: nth_append item)
  ultimately show ?thesis using inv pc lt le by (auto simp: spsc_inv_def spsc_prod_ok_def)
qed

lemma spsc_store_head:
  assumes inv: "spsc_inv k buf s" and pc: "sp_cons s = CCleared h e"
  shows "spsc_inv k buf (s\<lparr>sp_queue := (sp_queue s)\<lparr>lf_head := h + 1\<rparr>, sp_cons := CIdle,
         sp_out := sp_out s @ [e]\<rparr>)"
proof -
  let ?n = "(2::nat) ^ k" and ?T = "length (sp_in s)" and ?H = "length (sp_out s)"
  let ?s = "s\<lparr>sp_queue := (sp_queue s)\<lparr>lf_head := h + 1\<rparr>, sp_cons := CIdle, sp_out := sp_out s @ [e]\<rparr>"
  have lt: "?H < ?T" "?T \<le> ?H + ?n" and win: "spsc_window ?n buf s" and prod: "spsc_prod_ok ?n s"
    using inv pc spsc_item[OF inv] by (auto simp: spsc_inv_def)
  have e: "e = Some (sp_in s ! ?H)" using inv pc by (auto simp: spsc_inv_def spsc_cons_ok_def)
  have hs: "buf ! (?H mod ?n) = None" using win pc lt by (simp add: spsc_window_def)
  have "spsc_window ?n buf ?s" unfolding spsc_window_def
  proof (intro conjI allI impI; elim conjE)
    fix j assume "length (sp_out ?s) \<le> j" "j < length (sp_in ?s)"
    then show "buf ! (j mod ?n) = (if j = length (sp_out ?s) \<and> (\<exists>h e. sp_cons ?s = CCleared h e)
        then None else Some (sp_in ?s ! j))"
      using win by (simp add: spsc_window_def)
  next
    fix j assume j: "length (sp_in ?s) \<le> j" "j < length (sp_out ?s) + ?n"
    have room: "?T < ?H + ?n" if "sp_prod s = PSlot x t" for x t
      using prod that by (simp add: spsc_prod_ok_def)
    show "buf ! (j mod ?n) =
        (if j = length (sp_in ?s) then case sp_prod ?s of PSlot x t \<Rightarrow> Some x | _ \<Rightarrow> None else None)"
    proof (cases "j = ?H + ?n")
      case True
      then have "buf ! (j mod ?n) = None" using hs by simp
      then show ?thesis using True room by (auto split: ppc.splits)
    next
      case False
      then show ?thesis using j win by (simp add: spsc_window_def)
    qed
  qed
  moreover have "sp_out s @ [e] = map Some (take (Suc ?H) (sp_in s))"
  proof -
    have "sp_out s = map Some (take ?H (sp_in s))" using inv by (simp add: spsc_inv_def)
    then have "sp_out s @ [e] = map Some (take ?H (sp_in s) @ [sp_in s ! ?H])" by (simp add: e)
    then show ?thesis by (simp only: take_Suc_conv_app_nth[OF lt(1)])
  qed
  moreover have "spsc_prod_ok ?n ?s" using prod by (rule spsc_prod_ok_frame) auto
  moreover have "h = of_nat ?H"
    using inv pc by (simp add: spsc_inv_def spsc_cons_ok_def)
  moreover have "k < 64 \<and> unat (lf_capacity (sp_queue s)) = 2 ^ k \<and> lf_mask (sp_queue s) = 2 ^ k - 1 \<and>
     lf_ptr (sp_queue s) = Some buf \<and> length buf = 2 ^ k \<and> (2::nat) ^ k \<le> SEM_VALUE_MAX \<and>
     lf_tail (sp_queue s) = of_nat ?T \<and>
     items_sem (sp_queue s) + of_bool (sp_prod s = PPost) + Suc ?H = ?T"
    using inv pc unfolding spsc_inv_def by simp
  ultimately show ?thesis using lt unfolding spsc_inv_def by (simp add: spsc_cons_ok_def add.commute)
qed

text \<open>The steps that leave the buffer and the two sequences alone.\<close>

lemma spsc_prod_move:
  assumes "spsc_inv k buf s" "spsc_prod_ok (2 ^ k) (s\<lparr>sp_prod := c\<rparr>)"
    "\<forall>x t. sp_prod s \<noteq> PSlot x t \<and> c \<noteq> PSlot x t" "sp_prod s \<noteq> PPost" "c \<noteq> PPost"
  shows "spsc_inv k buf (s\<lparr>sp_prod := c\<rparr>)"
  using assms by (auto simp: spsc_inv_def spsc_window_def elim!: spsc_cons_ok_frame split: ppc.splits)

lemma spsc_load_head:
  assumes inv: "spsc_inv k buf s" and pc: "sp_prod s = PTail x t"
    and room: "t - lf_head (sp_queue s) < lf_capacity (sp_queue s)"
  shows "spsc_inv k buf (s\<lparr>sp_prod := PRoom x t (lf_head (sp_queue s))\<rparr>)"
proof -
  have "unat (lf_tail (sp_queue s) - lf_head (sp_queue s)) < 2 ^ k"
    using assms by (auto simp: spsc_inv_def spsc_prod_ok_def word_less_nat_alt)
  then have "length (sp_in s) < length (sp_out s) + 2 ^ k" using spsc_slots(3)[OF inv] by simp
  then show ?thesis using inv pc by (intro spsc_prod_move) (auto simp: spsc_inv_def spsc_prod_ok_def)
qed

lemma spsc_post:
  assumes inv: "spsc_inv k buf s" and pc: "sp_prod s = PPost"
  shows "spsc_inv k buf (s\<lparr>sp_queue := (sp_queue s)\<lparr>items_sem := lf_post (items_sem (sp_queue s))\<rparr>,
         sp_prod := PIdle\<rparr>)"
proof -
  have "length (sp_in s) \<le> length (sp_out s) + SEM_VALUE_MAX" using inv by (auto simp: spsc_inv_def)
  then have "lf_post (items_sem (sp_queue s)) = Suc (items_sem (sp_queue s))"
    using assms by (auto simp: spsc_inv_def lf_post_def sem_post_def)
  then show ?thesis
    using assms by (auto simp: spsc_inv_def spsc_window_def spsc_prod_ok_def elim!: spsc_cons_ok_frame)
qed

lemma spsc_step_inv:
  assumes "spsc_step s t" "spsc_inv k buf s"
  shows "\<exists>buf'. spsc_inv k buf' t"
  using assms
proof (induction rule: spsc_step.induct)
  case (load_tail s x)
  then show ?case
    by (intro exI[of _ buf] spsc_prod_move) (auto simp: spsc_inv_def spsc_prod_ok_def)
next
  case (full s x t)
  then show ?case by (intro exI[of _ buf] spsc_prod_move) (auto simp: spsc_prod_ok_def)
next
  case (store_slot s x t h buf')
  then have "buf' = buf" "unat (t AND lf_mask (sp_queue s)) = length (sp_in s) mod 2 ^ k"
    using spsc_slots(1)[OF store_slot(3)] by (auto simp: spsc_inv_def spsc_prod_ok_def)
  then show ?case using spsc_store_slot[OF store_slot(3,1)] by (simp only:) blast
next
  case (wait s v)
  then have "spsc_inv k buf (s\<lparr>sp_queue := (sp_queue s)\<lparr>items_sem := v\<rparr>, sp_cons := CToken\<rparr>)"
    by (auto simp: spsc_inv_def spsc_window_def spsc_cons_ok_def sem_wait_def split: if_splits
        elim!: spsc_prod_ok_frame)
  then show ?case by blast
next
  case (load_own_head s)
  then have "spsc_inv k buf (s\<lparr>sp_cons := CHead (lf_head (sp_queue s))\<rparr>)"
    by (auto simp: spsc_inv_def spsc_window_def spsc_cons_ok_def elim!: spsc_prod_ok_frame)
  then show ?case by blast
next
  case (read_slot s h buf')
  then have "buf' = buf" "unat (h AND lf_mask (sp_queue s)) = length (sp_out s) mod 2 ^ k"
    using spsc_slots(2)[OF read_slot(3)] by (auto simp: spsc_inv_def spsc_cons_ok_def)
  then show ?case using spsc_read_slot[OF read_slot(3,1)] by (simp only:) blast
next
  case (clear_slot s h e buf')
  then have "buf' = buf" "unat (h AND lf_mask (sp_queue s)) = length (sp_out s) mod 2 ^ k"
    using spsc_slots(2)[OF clear_slot(3)] by (auto simp: spsc_inv_def spsc_cons_ok_def)
  then show ?case using spsc_clear_slot[OF clear_slot(3,1)] by (simp only:) blast
qed (blast intro: spsc_load_head spsc_store_tail spsc_post spsc_store_head)+

lemma spsc_reach_inv: "spsc_reach s \<Longrightarrow> \<exists>k buf. spsc_inv k buf s"
proof (induction rule: spsc_reach.induct)
  case (spsc_init mok rc qp n q)
  have "lf_tail q = 0" "lf_head q = 0" "items_sem q = 0" "lf_ptr q = Some (replicate (unat n) None)"
    "lf_mask q = n - 1" "lf_capacity q = n" "n \<noteq> 0" "n AND (n - 1) = 0"
    using spsc_init by (auto simp: lf_queue_init_def Let_def split: option.splits if_splits)
  moreover from this(7,8) obtain k where "k < 64" "n = 2 ^ k" "unat n = 2 ^ k"
    using u64_pow2_test by blast
  ultimately have "spsc_inv k (replicate (2 ^ k) None)
      \<lparr>sp_queue = q, sp_prod = PIdle, sp_cons = CIdle, sp_in = [], sp_out = []\<rparr>"
    using spsc_init(2) by (simp add: spsc_inv_def spsc_window_def spsc_prod_ok_def spsc_cons_ok_def)
  then show ?case by blast
next
  case (spsc_more s t)
  then show ?case using spsc_step_inv by blast
qed

section \<open>The spinning push\<close>

text \<open>The step of the other thread that ends the spin: one pop.\<close>

definition lf_pop_env :: "'a lf_queue option \<Rightarrow> 'a lf_queue option" where
  "lf_pop_env qp = fst (lf_queue_try_pop qp)"

lemma lf_wait_push_spin:
  assumes "lf_queue_try_push qp ptr = (qp, Err EAGAIN)"
  shows "lf_queue_wait_push (replicate n id @ env # envs) qp ptr = lf_queue_wait_push envs (env qp) ptr"
  using assms by (induction n) (subst lf_queue_wait_push.simps, simp)+

lemma lf_wait_push_now:
  assumes "lf_queue_try_push qp ptr = (qp', Ok r)"
  shows "lf_queue_wait_push envs qp ptr = (qp', Ok r)"
  using assms by (subst lf_queue_wait_push.simps) simp

section \<open>Properties\<close>

text \<open>
  C22. Functional refinement of the single-producer single-consumer queue. From any
  well-formed state, whatever the values of the two free-running counters, every sequence of
  \<^verbatim>\<open>lf_queue_try_push\<close> and \<^verbatim>\<open>lf_queue_try_pop\<close> calls is answered
  as by the abstract bounded FIFO of the queue's capacity, and what was queued and accepted is
  what was delivered followed by what is still queued: masking the counters loses nothing when
  they wrap past \<^term>\<open>2 ^ 64 - 1\<close>.
\<close>

theorem lf_queue_fifo_refinement:
  assumes "lf_wf q" and "fifo_run lf_push_step lf_pop_step q ops = (r, outs)"
  shows "lf_wf r \<and> lf_capacity r = lf_capacity q \<and>
    fifo_run (spec_push (unat (lf_capacity q))) spec_pop (lf_values q) ops = (lf_values r, outs) \<and>
    lf_values q @ accepted ops outs = delivered outs @ lf_values r"
  using lf.run_refines[OF assms] lf.run_conserves[OF assms] by (simp add: word_unat_eq_iff)

definition lf_demo :: "nat lf_queue" where
  "lf_demo = \<lparr>lf_capacity = 2, lf_mask = 1, lf_ptr = Some [None, None], lf_tail = -1, lf_head = -1,
     items_sem = 0\<rparr>"

theorem lf_queue_fifo_refinement_witness:
  "lf_wf lf_demo \<and>
   snd (fifo_run lf_push_step lf_pop_step lf_demo [Push 1, Push 2, Push 3, Pop, Pop, Pop]) =
     [Pushed, Pushed, Full, Popped 1, Popped 2, Empty]"
proof -
  let ?ops = "[Push 1, Push 2, Push 3, Pop, Pop, Pop] :: nat fifo_op list"
  have wf: "lf_wf lf_demo" by (simp add: lf_wf_def lf_demo_def lf_items_def ring_items_def)
  obtain r outs where run: "fifo_run lf_push_step lf_pop_step lf_demo ?ops = (r, outs)"
    by (cases "fifo_run lf_push_step lf_pop_step lf_demo ?ops")
  have "fifo_run (spec_push 2) spec_pop [] ?ops = (lf_values r, outs)"
    using lf_queue_fifo_refinement[OF wf run]
    by (simp add: lf_demo_def lf_values_def lf_items_def ring_items_def)
  then show ?thesis using wf run by (simp add: spec_push_def spec_pop_def)
qed

text \<open>
  C11. Safety of the lock-free protocol. One producer and one consumer, interleaved between any
  two atomic accesses: what the consumer has returned is exactly the prefix of what the
  producer has published, with no null among it; what is in flight is at most the capacity;
  a producer that passed the room test writes into a slot that holds nothing; and a consumer
  that holds a token reads the oldest published value.
\<close>

theorem lf_spsc_safe:
  assumes "spsc_reach s"
  shows "sp_out s = map Some (take (length (sp_out s)) (sp_in s)) \<and>
    length (sp_out s) \<le> length (sp_in s) \<and>
    length (sp_in s) - length (sp_out s) \<le> unat (lf_capacity (sp_queue s)) \<and>
    (\<forall>x t h. sp_prod s = PRoom x t h \<longrightarrow>
       the (lf_ptr (sp_queue s)) ! unat (t AND lf_mask (sp_queue s)) = None) \<and>
    (\<forall>h. sp_cons s = CHead h \<longrightarrow>
       the (lf_ptr (sp_queue s)) ! unat (h AND lf_mask (sp_queue s)) =
         Some (sp_in s ! length (sp_out s)))"
proof -
  obtain k buf where inv: "spsc_inv k buf s" using spsc_reach_inv[OF assms] by blast
  note slots = spsc_slots[OF inv]
  have "buf ! unat (t AND lf_mask (sp_queue s)) = None" if "sp_prod s = PRoom x t h" for x t h
    using inv that slots(1) by (auto simp: spsc_inv_def spsc_prod_ok_def spsc_window_def)
  moreover have "buf ! unat (h AND lf_mask (sp_queue s)) = Some (sp_in s ! length (sp_out s))"
    if "sp_cons s = CHead h" for h
  proof -
    have "length (sp_out s) < length (sp_in s)" using spsc_item[OF inv] that by simp
    then show ?thesis using inv that slots(2) by (auto simp: spsc_inv_def spsc_cons_ok_def spsc_window_def)
  qed
  moreover have "lf_ptr (sp_queue s) = Some buf" "unat (lf_capacity (sp_queue s)) = 2 ^ k"
    "length (sp_out s) \<le> length (sp_in s)" "length (sp_in s) \<le> length (sp_out s) + 2 ^ k"
    "sp_out s = map Some (take (length (sp_out s)) (sp_in s))"
    using inv unfolding spsc_inv_def by blast+
  ultimately show ?thesis by auto
qed

definition spsc_demo :: "nat spsc" where
  "spsc_demo = \<lparr>sp_queue = lf_demo\<lparr>lf_ptr := Some [Some 7, None], lf_tail := 1, lf_head := 0\<rparr>,
     sp_prod = PIdle, sp_cons = CHead 0, sp_in = [7], sp_out = []\<rparr>"

lemma spsc_demo_reach: "spsc_reach spsc_demo"
proof -
  let ?q = "lf_demo\<lparr>lf_tail := 0, lf_head := 0\<rparr>"
  have "lf_queue_init True 0 (Some lf_demo) 2 = (Some ?q, Ok 0)"
    by (simp add: lf_queue_init_def lf_demo_def) (simp add: numeral_2_eq_2)
  from spsc_init[OF this]
  have r0: "spsc_reach \<lparr>sp_queue = ?q, sp_prod = PIdle, sp_cons = CIdle, sp_in = [], sp_out = []\<rparr>" by simp
  note r1 = spsc_more[OF r0 load_tail[of _ 7]]
  note r2 = spsc_more[OF r1 load_head[of _ 7 0]]
  note r3 = spsc_more[OF r2 store_slot[of _ 7 0 0 "[None, None]"]]
  note r4 = spsc_more[OF r3 store_tail[of _ 7 0]]
  note r5 = spsc_more[OF r4 post]
  note r6 = spsc_more[OF r5 wait[of _ 0]]
  note r7 = spsc_more[OF r6 load_own_head]
  show ?thesis using r7
    by (simp add: lf_demo_def spsc_demo_def lf_post_def sem_post_def sem_wait_def)
qed

theorem lf_spsc_safe_witness:
  "spsc_reach spsc_demo \<and> the (lf_ptr (sp_queue spsc_demo)) ! 0 = Some 7"
  using lf_spsc_safe[OF spsc_demo_reach] spsc_demo_reach by (simp add: spsc_demo_def lf_demo_def)

text \<open>
  C23. Termination of the spinning push. On a full queue \<^verbatim>\<open>lf_queue_wait_push\<close>
  does not return while nothing else happens, however often it tries; as soon as the consumer
  pops once, the next attempt succeeds, and the queue then holds the remaining values followed
  by the new one. On a queue with room it returns at once.
\<close>

theorem lf_queue_wait_push_terminates:
  assumes "lf_wf q"
  shows "if length (lf_values q) < unat (lf_capacity q)
    then \<exists>q'. lf_queue_wait_push envs (Some q) (Some x) = (Some q', Ok 0) \<and>
      lf_values q' = lf_values q @ [x]
    else lf_queue_wait_push (replicate n id) (Some q) (Some x) = (Some q, Block) \<and>
      (\<exists>q'. lf_queue_wait_push (replicate n id @ lf_pop_env # envs) (Some q) (Some x) = (Some q', Ok 0) \<and>
        lf_values q' = tl (lf_values q) @ [x])"
proof (cases "length (lf_values q) < unat (lf_capacity q)")
  case True
  then obtain q' where q': "lf_queue_try_push (Some q) (Some x) = (Some q', Ok 0)"
    "lf_items q' = lf_items q @ [Some x]"
    using lf_queue_try_push_spec[OF assms, of x] by (auto simp: lf_values_def)
  then show ?thesis using True lf_wait_push_now[OF q'(1), of envs] by (auto simp: lf_values_def)
next
  case False
  then have full: "lf_queue_try_push (Some q) (Some x) = (Some q, Err EAGAIN)"
    using lf_queue_try_push_spec[OF assms, of x] by (auto simp: lf_values_def)
  have spin: "lf_queue_wait_push (replicate n id) (Some q) (Some x) = (Some q, Block)" for n
    using full by (induction n) (subst lf_queue_wait_push.simps, simp)+
  have cap: "0 < unat (lf_capacity q)" using assms by (simp add: lf_wf_def unat_gt_0)
  then obtain y ys where "lf_items q = y # ys" using False by (cases "lf_items q") (auto simp: lf_values_def)
  then obtain r where r: "lf_queue_try_pop (Some q) = (Some r, Ok y)" "lf_wf r" "lf_items r = ys"
    "lf_capacity r = lf_capacity q" "lf_items q = y # ys"
    using lf_queue_try_pop_spec[OF assms] by auto
  have "length (lf_items r) < unat (lf_capacity r)"
  proof -
    have "length (lf_items q) \<le> unat (lf_capacity q)" using assms by (simp add: lf_wf_def)
    then have "length ys < unat (lf_capacity q)" unfolding r(5) by simp
    then show ?thesis unfolding r(3,4) .
  qed
  then obtain q' where q': "lf_queue_try_push (Some r) (Some x) = (Some q', Ok 0)"
    "lf_items q' = lf_items r @ [Some x]"
    using lf_queue_try_push_spec[OF r(2), of x] by auto
  then show ?thesis
    using False spin lf_wait_push_spin[OF full, of n lf_pop_env envs]
      lf_wait_push_now[OF q'(1), of envs] r
    by (auto simp: lf_pop_env_def lf_values_def)
qed

theorem lf_queue_wait_push_terminates_witness:
  "lf_wf (lf_demo\<lparr>lf_tail := 1, lf_ptr := Some [Some 6, Some 5], items_sem := 2\<rparr>) \<and>
   snd (lf_queue_wait_push [id, id, id] (Some (lf_demo\<lparr>lf_tail := 1, lf_ptr := Some [Some 6, Some 5],
     items_sem := 2\<rparr>)) (Some 9)) = Block"
proof -
  let ?q = "lf_demo\<lparr>lf_tail := 1, lf_ptr := Some [Some 6, Some 5], items_sem := 2\<rparr>"
  have "lf_wf ?q" "lf_values ?q = [5, 6]"
    by (auto simp: lf_wf_def lf_demo_def lf_items_def lf_values_def ring_items_def upt_rec)
  moreover have "replicate 3 (id :: nat lf_queue option \<Rightarrow> _) = [id, id, id]" by (simp add: numeral_3_eq_3)
  moreover have "unat (lf_capacity ?q) = 2" by (simp add: lf_demo_def)
  ultimately show ?thesis using lf_queue_wait_push_terminates[of ?q "[]" 9 3] by simp
qed

text \<open>
  Creation. Given memory and a semaphore, \<^verbatim>\<open>lf_queue_init\<close> accepts exactly the
  sizes that are powers of two (its test on the bits of the size and of its predecessor), and
  a queue it creates is empty and of that capacity; every other size, zero included, is
  refused with \<^verbatim>\<open>EINVAL\<close> and the structure left as it was.
\<close>

theorem lf_queue_init_pow2:
  "(if \<exists>k<64. n = 2 ^ k
    then \<exists>r. lf_queue_init True 0 (Some q) n = (Some r, Ok 0) \<and> lf_values r = [] \<and> lf_capacity r = n
    else lf_queue_init True 0 (Some q) n = (Some q, Err EINVAL))"
proof (cases "\<exists>k<64. n = 2 ^ k")
  case True
  then obtain k where k: "k < 64" "n = 2 ^ k" by blast
  have "n AND (n - 1) = take_bit k (2 ^ k)" using k by (simp add: take_bit_eq_mask mask_eq_exp_minus_1)
  moreover have "take_bit k (2 ^ k :: u64) = 0" by (rule bit_eqI) (auto simp: bit_simps)
  ultimately have "n AND (n - 1) = 0" by simp
  moreover have "n \<noteq> 0" using k by simp
  ultimately show ?thesis using True
    by (auto simp: lf_queue_init_def lf_values_def lf_items_def ring_items_def)
next
  case False
  then have "n = 0 \<or> n AND (n - 1) \<noteq> 0" using u64_pow2_test[of n] by blast
  then show ?thesis using False by (auto simp: lf_queue_init_def)
qed

end
