(* ===== verification/Pool_Spec.thy ===== *)
theory Pool_Spec
  imports Prelude
begin

text \<open>
  What a block pool promises to its clients: the contract shared by the mutex pool of
  \<^verbatim>\<open>pool.h\<close> (both platforms) and the lock-free pool of
  \<^verbatim>\<open>lf_pool.h\<close>. A pool state stands for a set of blocks that are checked out;
  a get hands out a block that nobody holds, a put of a held block succeeds, and the number
  of held blocks respects the limit (zero for none). What a get may rely on from the
  allocator is a predicate of the contract.
\<close>

section \<open>Clients\<close>

text \<open>
  The clients together hold a list of blocks. They get (with an answer of the allocator) or
  put the block at some position of the list back.
\<close>

datatype 'o pool_op = Get 'o | Put nat

fun pool_client ::
  "('o \<Rightarrow> 's \<Rightarrow> 'b option \<times> 's) \<Rightarrow> ('b \<Rightarrow> 's \<Rightarrow> 's option) \<Rightarrow> 's \<Rightarrow> 'b list \<Rightarrow> 'o pool_op
   \<Rightarrow> ('s \<times> 'b list) option" where
  "pool_client get put s hs (Get os) =
     (case get os s of (None, s') \<Rightarrow> Some (s', hs) | (Some b, s') \<Rightarrow> Some (s', hs @ [b]))"
| "pool_client get put s hs (Put i) =
     (if i < length hs then map_option (\<lambda>s'. (s', take i hs @ drop (Suc i) hs)) (put (hs ! i) s)
      else Some (s, hs))"

fun pool_clients ::
  "('o \<Rightarrow> 's \<Rightarrow> 'b option \<times> 's) \<Rightarrow> ('b \<Rightarrow> 's \<Rightarrow> 's option) \<Rightarrow> 's \<Rightarrow> 'b list
   \<Rightarrow> 'o pool_op list \<Rightarrow> ('s \<times> 'b list) option" where
  "pool_clients get put s hs [] = Some (s, hs)"
| "pool_clients get put s hs (op # ops) =
     (case pool_client get put s hs op of
        None \<Rightarrow> None
      | Some (s', hs') \<Rightarrow> pool_clients get put s' hs' ops)"

text \<open>The allocator behaves at every get of the run.\<close>

fun allocs_ok ::
  "('o \<Rightarrow> 's \<Rightarrow> bool) \<Rightarrow> ('o \<Rightarrow> 's \<Rightarrow> 'b option \<times> 's) \<Rightarrow> ('b \<Rightarrow> 's \<Rightarrow> 's option) \<Rightarrow> 's \<Rightarrow> 'b list
   \<Rightarrow> 'o pool_op list \<Rightarrow> bool" where
  "allocs_ok ok get put s hs [] \<longleftrightarrow> True"
| "allocs_ok ok get put s hs (op # ops) \<longleftrightarrow>
     (case op of Get os \<Rightarrow> ok os s | Put i \<Rightarrow> True) \<and>
     (case pool_client get put s hs op of
        None \<Rightarrow> True
      | Some (s', hs') \<Rightarrow> allocs_ok ok get put s' hs' ops)"

section \<open>The contract\<close>

locale block_pool =
  fixes holds :: "'s \<Rightarrow> 'b set \<Rightarrow> bool"
    and limit :: "'s \<Rightarrow> nat"
    and ok :: "'o \<Rightarrow> 's \<Rightarrow> bool"
    and get :: "'o \<Rightarrow> 's \<Rightarrow> 'b option \<times> 's"
    and put :: "'b \<Rightarrow> 's \<Rightarrow> 's option"
  assumes get_Some: "holds s U \<Longrightarrow> ok os s \<Longrightarrow> get os s = (Some b, s') \<Longrightarrow>
      b \<notin> U \<and> holds s' (insert b U) \<and> limit s' = limit s"
    and get_None: "holds s U \<Longrightarrow> ok os s \<Longrightarrow> get os s = (None, s') \<Longrightarrow>
      holds s' U \<and> limit s' = limit s"
    and put_held: "holds s U \<Longrightarrow> b \<in> U \<Longrightarrow>
      \<exists>s'. put b s = Some s' \<and> holds s' (U - {b}) \<and> limit s' = limit s"
    and bound: "holds s U \<Longrightarrow> limit s \<noteq> 0 \<Longrightarrow> card U \<le> limit s"
begin

lemma client_step:
  assumes h: "holds s (set hs)" "distinct hs" and ok: "case op of Get os \<Rightarrow> ok os s | Put i \<Rightarrow> True"
  shows "\<exists>s' hs'. pool_client get put s hs op = Some (s', hs') \<and> holds s' (set hs') \<and>
    distinct hs' \<and> limit s' = limit s"
proof (cases op)
  case (Get os)
  then have os: "ok os s" using ok by simp
  show ?thesis
  proof (cases "get os s")
    case (Pair r s')
    show ?thesis
    proof (cases r)
      case None
      then show ?thesis using Pair Get get_None[OF h(1) os] h(2) by simp
    next
      case (Some b)
      then show ?thesis using Pair Get get_Some[OF h(1) os, of b s'] h(2) by simp
    qed
  qed
next
  case (Put i)
  show ?thesis
  proof (cases "i < length hs")
    case True
    let ?hs = "take i hs @ drop (Suc i) hs"
    have split: "hs = take i hs @ hs ! i # drop (Suc i) hs" by (rule id_take_nth_drop[OF True])
    have d: "distinct (take i hs @ hs ! i # drop (Suc i) hs)" using h(2) split by simp
    have "set (take i hs @ hs ! i # drop (Suc i) hs) - {hs ! i} = set ?hs" using d by auto
    then have "set hs - {hs ! i} = set ?hs" using split by simp
    moreover have "distinct ?hs" using d by auto
    ultimately show ?thesis using put_held[OF h(1), of "hs ! i"] True Put by auto
  next
    case False
    then show ?thesis using Put h by simp
  qed
qed

text \<open>No run of well-behaved clients aborts, and no block has two holders.\<close>

lemma clients_safe:
  assumes "holds s (set hs)" "distinct hs" "allocs_ok ok get put s hs ops"
  shows "\<exists>s' hs'. pool_clients get put s hs ops = Some (s', hs') \<and> holds s' (set hs') \<and>
    distinct hs' \<and> limit s' = limit s \<and> (limit s \<noteq> 0 \<longrightarrow> length hs' \<le> limit s)"
  using assms
proof (induction ops arbitrary: s hs)
  case Nil
  then show ?case using bound[OF Nil(1)] by (simp add: distinct_card)
next
  case (Cons op ops)
  have "case op of Get os \<Rightarrow> ok os s | Put i \<Rightarrow> True" using Cons.prems(3) by simp
  from client_step[OF Cons.prems(1,2) this]
  obtain s' hs' where s': "pool_client get put s hs op = Some (s', hs')" "holds s' (set hs')"
    "distinct hs'" "limit s' = limit s" by blast
  then have "allocs_ok ok get put s' hs' ops" using Cons.prems(3) by simp
  from Cons.IH[OF s'(2,3) this] show ?case using s'(1,4) by simp
qed

end

end
