(* ===== verification/Lf_Pool.thy ===== *)
theory Lf_Pool
  imports Pool_Spec Lf_Queue "HOL-Library.Multiset"
begin

text \<open>
  The lock-free pool of \<^verbatim>\<open>common/inc/lf_pool.h\<close>: an arena of blocks whose free
  ones form a Treiber stack through 32-bit indices, with the top index and a 32-bit generation
  packed into one 64-bit word that every push and pop replaces by compare-and-swap. First the
  operations as functions, shown to satisfy the contract of \<^verbatim>\<open>Pool_Spec\<close>; then
  the operations cut at every atomic access and interleaved by any number of threads, where
  the generation is what keeps a delayed compare-and-swap from succeeding on a stale top.
\<close>

section \<open>The packed head\<close>

abbreviation NO_IDX :: u32 where "NO_IDX \<equiv> - 1"

text \<open>\<^verbatim>\<open>lf_pool_head_t\<close>: the index in the low half, the generation in the high
  half.\<close>

definition mk_head :: "u32 \<Rightarrow> u32 \<Rightarrow> u64" where
  "mk_head idx gen = push_bit 32 (ucast gen) OR ucast idx"

definition head_idx :: "u64 \<Rightarrow> u32" where
  "head_idx raw = ucast raw"

definition head_gen :: "u64 \<Rightarrow> u32" where
  "head_gen raw = ucast (drop_bit 32 raw)"

lemma head_idx_mk [simp]: "head_idx (mk_head idx gen) = idx"
  unfolding head_idx_def mk_head_def by (rule bit_eqI) (auto simp: bit_simps)

lemma head_gen_mk [simp]: "head_gen (mk_head idx gen) = gen"
  unfolding head_gen_def mk_head_def by (rule bit_eqI) (auto simp: bit_simps dest: bit_imp_le_length)

lemma head_eqI:
  assumes "head_idx a = head_idx b" "head_gen a = head_gen b"
  shows "a = b"
proof (rule bit_eqI)
  fix n assume "possible_bit TYPE(u64) n"
  then have n: "n < 64" by simp
  have "bit (head_idx a) n = bit (head_idx b) n" "bit (head_gen a) (n - 32) = bit (head_gen b) (n - 32)"
    using assms by simp_all
  then show "bit a n = bit b n"
    using n by (cases "n < 32") (auto simp: head_idx_def head_gen_def bit_simps)
qed

section \<open>The structure and its operations\<close>

text \<open>
  The headers of the arena are the list of their \<^verbatim>\<open>next_idx\<close> fields; the arena
  itself is its base address.
\<close>

record lf_pool =
  lp_block_size :: u64
  real_block_size :: nat
  lp_capacity :: nat
  raw_memory :: "nat option"
  lp_next :: "u32 list"
  lp_head :: u64
  lp_in_use :: nat
  blocks_sem :: nat

text \<open>\<^verbatim>\<open>sizeof(lf_pool_block_t)\<close>, the address of a payload, and the index
  recovered from it.\<close>

abbreviation LF_HDR :: nat where "LF_HDR \<equiv> 4"

definition lf_align :: "u64 \<Rightarrow> u64" where
  "lf_align n = (n + 7) AND NOT 7"

definition lf_payload :: "lf_pool \<Rightarrow> nat \<Rightarrow> nat" where
  "lf_payload p i = the (raw_memory p) + i * real_block_size p + LF_HDR"

definition lf_block_index :: "lf_pool \<Rightarrow> nat \<Rightarrow> u32" where
  "lf_block_index p ptr = of_nat ((ptr - LF_HDR - the (raw_memory p)) div real_block_size p)"

function link_slots :: "nat \<Rightarrow> nat \<Rightarrow> u32 list \<Rightarrow> u32 list" where
  "link_slots i n nx = (if i < n then link_slots (Suc i) n (nx[i := of_nat (i + 1)]) else nx)"

  by auto
termination by (relation "measure (\<lambda>(i, n, nx). n - i)") auto

declare link_slots.simps [simp del]

text \<open>\<^verbatim>\<open>sem_init\<close> refuses values above the maximum.\<close>

definition sem_init :: "int \<Rightarrow> nat \<Rightarrow> nat cres" where
  "sem_init rc v = (if rc \<noteq> 0 then Err rc else if SEM_VALUE_MAX < v then Err EINVAL else Ok v)"

definition lf_pool_init ::
  "nat option \<Rightarrow> int \<Rightarrow> lf_pool option \<Rightarrow> u64 \<Rightarrow> nat \<Rightarrow> lf_pool option \<times> int cres" where
  "lf_pool_init alloc sem_rc pp bs cap =
     (case pp of None \<Rightarrow> (pp, Err EINVAL)
      | Some p \<Rightarrow>
        if bs = 0 \<or> cap = 0 then (pp, Err EINVAL)
        else if 2 ^ 32 - 1 \<le> cap then (pp, Err EINVAL)
        else let p1 = \<lparr>lp_block_size = bs, real_block_size = unat (lf_align (4 + bs)), lp_capacity = cap,
                       raw_memory = None, lp_next = [], lp_head = 0, lp_in_use = 0, blocks_sem = 0\<rparr> in
          (case alloc of None \<Rightarrow> (Some p1, Err ENOMEM)
           | Some base \<Rightarrow>
             let nx = (link_slots 0 (cap - 1) (replicate cap 0))[cap - 1 := NO_IDX];
                 p2 = p1\<lparr>raw_memory := Some base, lp_next := nx, lp_head := mk_head 0 0\<rparr> in
             case sem_init sem_rc cap of
               Ok v \<Rightarrow> (Some (p2\<lparr>blocks_sem := v\<rparr>), Ok 0)
             | Err e \<Rightarrow> (Some (p2\<lparr>raw_memory := None\<rparr>), Err e)
             | _ \<Rightarrow> (Some p2, Abort)))"

definition lf_pool_destroy :: "lf_pool option \<Rightarrow> lf_pool option \<times> int cres" where
  "lf_pool_destroy pp =
     (case pp of None \<Rightarrow> (pp, Err EINVAL)
      | Some p \<Rightarrow>
        (Some (p\<lparr>raw_memory := None, lp_next := [], lp_block_size := 0, real_block_size := 0,
                 lp_capacity := 0, lp_head := 0, lp_in_use := 0, blocks_sem := 0\<rparr>), Ok 0))"

text \<open>
  A compare-and-swap loop. An element of the script is one attempt that other threads or a
  spurious failure may spoil: whether it fails spuriously, and what happens to the pool
  between the load and the swap. After the script comes an attempt nothing disturbs.
\<close>

type_synonym lf_script = "(bool \<times> (lf_pool \<Rightarrow> lf_pool)) list"

fun lf_pop_loop :: "lf_script \<Rightarrow> bool \<Rightarrow> u64 \<Rightarrow> lf_pool \<Rightarrow> lf_pool \<times> u32 option cres" where
  "lf_pop_loop script checked old p =
     (if checked \<and> head_idx old = NO_IDX then (p, Ok None)
      else if length (lp_next p) \<le> unat (head_idx old) then (p, Abort)
      else
        let new = mk_head (lp_next p ! unat (head_idx old)) (head_gen old + 1);
            (spurious, env, rest) = (case script of [] \<Rightarrow> (False, id, []) | (b, e) # r \<Rightarrow> (b, e, r));
            p' = env p
        in if \<not> spurious \<and> lp_head p' = old then (p'\<lparr>lp_head := new\<rparr>, Ok (Some (head_idx old)))
           else case script of
                  [] \<Rightarrow> (p', Block)
                | _ # script' \<Rightarrow> lf_pop_loop script' checked (lp_head p') p')"

declare lf_pop_loop.simps [simp del]

definition lf_finish_get :: "lf_pool \<times> u32 option cres \<Rightarrow> lf_pool option \<times> nat cres" where
  "lf_finish_get r =
     (case r of
        (p, Ok (Some idx)) \<Rightarrow>
          (Some (p\<lparr>lp_in_use := size_inc (lp_in_use p)\<rparr>), Ok (lf_payload p (unat idx)))
      | (p, Ok None) \<Rightarrow> (Some (p\<lparr>blocks_sem := lf_post (blocks_sem p)\<rparr>), Err EAGAIN)
      | (p, Err e) \<Rightarrow> (Some p, Err e)
      | (p, Block) \<Rightarrow> (Some p, Block)
      | (p, Abort) \<Rightarrow> (Some p, Abort))"

definition lf_pool_try_get :: "lf_script \<Rightarrow> lf_pool option \<Rightarrow> lf_pool option \<times> nat cres" where
  "lf_pool_try_get script pp =
     (case pp of None \<Rightarrow> (pp, Err EINVAL)
      | Some p \<Rightarrow>
        if raw_memory p = None then (pp, Err EINVAL)
        else case sem_trywait (blocks_sem p) of
               Ok v \<Rightarrow> let p1 = p\<lparr>blocks_sem := v\<rparr> in
                 lf_finish_get (lf_pop_loop script True (lp_head p1) p1)
             | Err e \<Rightarrow> (pp, Err e)
             | Block \<Rightarrow> (pp, Block)
             | Abort \<Rightarrow> (pp, Abort))"

definition lf_pool_wait_get ::
  "bool list \<Rightarrow> lf_script \<Rightarrow> lf_pool option \<Rightarrow> lf_pool option \<times> nat cres" where
  "lf_pool_wait_get intrs script pp =
     (case pp of None \<Rightarrow> (pp, Err EINVAL)
      | Some p \<Rightarrow>
        if raw_memory p = None then (pp, Err EINVAL)
        else case lf_sem_wait intrs (blocks_sem p) of
               Ok v \<Rightarrow> let p1 = p\<lparr>blocks_sem := v\<rparr> in
                 lf_finish_get (lf_pop_loop script False (lp_head p1) p1)
             | Err e \<Rightarrow> (pp, Err e)
             | Block \<Rightarrow> (pp, Block)
             | Abort \<Rightarrow> (pp, Abort))"

fun lf_push_loop :: "lf_script \<Rightarrow> u32 \<Rightarrow> u64 \<Rightarrow> lf_pool \<Rightarrow> lf_pool cres" where
  "lf_push_loop script idx old p =
     (if length (lp_next p) \<le> unat idx then Abort
      else
        let p1 = p\<lparr>lp_next := (lp_next p)[unat idx := head_idx old]\<rparr>;
            new = mk_head idx (head_gen old + 1);
            (spurious, env, rest) = (case script of [] \<Rightarrow> (False, id, []) | (b, e) # r \<Rightarrow> (b, e, r));
            p' = env p1
        in if \<not> spurious \<and> lp_head p' = old then Ok (p'\<lparr>lp_head := new\<rparr>)
           else case script of
                  [] \<Rightarrow> Block
                | _ # script' \<Rightarrow> lf_push_loop script' idx (lp_head p') p')"

declare lf_push_loop.simps [simp del]

definition lf_pool_put :: "lf_script \<Rightarrow> lf_pool option \<Rightarrow> nat option \<Rightarrow> lf_pool option \<times> unit cres" where
  "lf_pool_put script pp ptr =
     (case pp of None \<Rightarrow> (pp, Ok ())
      | Some p \<Rightarrow>
     (case ptr of None \<Rightarrow> (pp, Ok ())
      | Some v \<Rightarrow>
        if raw_memory p = None then (pp, Ok ())
        else case lf_push_loop script (lf_block_index p v) (lp_head p) p of
               Ok p' \<Rightarrow> (Some (p'\<lparr>lp_in_use := size_dec (lp_in_use p'),
                                  blocks_sem := lf_post (blocks_sem p')\<rparr>), Ok ())
             | Err e \<Rightarrow> (pp, Err e)
             | Block \<Rightarrow> (pp, Block)
             | Abort \<Rightarrow> (pp, Abort)))"

definition lf_pool_get_used :: "lf_pool option \<Rightarrow> int cres" where
  "lf_pool_get_used pp = (case pp of None \<Rightarrow> Err EINVAL | Some p \<Rightarrow> Ok (int (lp_in_use p)))"

section \<open>The free stack\<close>

fun chain :: "u32 list \<Rightarrow> u32 \<Rightarrow> nat list \<Rightarrow> bool" where
  "chain nx i [] \<longleftrightarrow> i = NO_IDX"
| "chain nx i (x # xs) \<longleftrightarrow> unat i = x \<and> x < length nx \<and> chain nx (nx ! x) xs"

lemma chain_update: "j \<notin> set xs \<Longrightarrow> chain (nx[j := v]) i xs = chain nx i xs"
  by (induction xs arbitrary: i) auto

lemma length_link_slots [simp]: "length (link_slots i n nx) = length nx"
  by (induction i n nx rule: link_slots.induct) (subst link_slots.simps, simp)

lemma nth_link_slots:
  "n \<le> length nx \<Longrightarrow> j < length nx \<Longrightarrow>
   link_slots i n nx ! j = (if i \<le> j \<and> j < n then of_nat (j + 1) else nx ! j)"
proof (induction i n nx rule: link_slots.induct)
  case (1 i n nx)
  show ?case
  proof (cases "i < n")
    case True
    then have "link_slots i n nx = link_slots (Suc i) n (nx[i := of_nat (i + 1)])"
      by (simp add: link_slots.simps)
    then show ?thesis using 1 True by (auto simp: not_less_eq_eq le_less)
  next
    case False
    then show ?thesis by (auto simp add: link_slots.simps)
  qed
qed

lemma chain_init:
  assumes len: "length nx = cap" and last: "nx ! (cap - 1) = NO_IDX"
    and link: "\<And>j. j < cap - 1 \<Longrightarrow> nx ! j = of_nat (j + 1)" and cap: "cap < 2 ^ 32 - 1"
  shows "i < cap \<Longrightarrow> chain nx (of_nat i) [i..<cap]"
proof (induction "cap - i" arbitrary: i)
  case 0
  then show ?case by simp
next
  case (Suc d)
  have u: "unat (of_nat i :: u32) = i" using Suc.prems cap by (simp add: unat_of_nat)
  show ?case
  proof (cases "Suc i < cap")
    case True
    then have "chain nx (of_nat (Suc i)) [Suc i..<cap]"
      using Suc.hyps(1)[of "Suc i"] Suc.hyps(2) by fastforce
    moreover have "nx ! i = of_nat (Suc i)" using link[of i] True by simp
    ultimately show ?thesis using u Suc.prems len by (simp add: upt_conv_Cons)
  next
    case False
    then have "i = cap - 1" using Suc.prems by simp
    then show ?thesis using u Suc.prems len last by (simp add: upt_conv_Cons)
  qed
qed

section \<open>The contract\<close>

text \<open>
  The stack of free indices and the held indices together are the arena's indices, each once;
  the semaphore counts the free ones and \<^const>\<open>lp_in_use\<close> the held ones.
\<close>

definition lf_pool_rep :: "lf_pool \<Rightarrow> nat list \<Rightarrow> nat list \<Rightarrow> bool" where
  "lf_pool_rep p xs us \<longleftrightarrow>
     raw_memory p \<noteq> None \<and> 0 < real_block_size p \<and> length (lp_next p) = lp_capacity p \<and>
     lp_capacity p < 2 ^ 32 - 1 \<and> lp_capacity p \<le> SEM_VALUE_MAX \<and>
     chain (lp_next p) (head_idx (lp_head p)) xs \<and>
     mset xs + mset us = mset [0..<lp_capacity p] \<and>
     blocks_sem p = length xs \<and> lp_in_use p = length us"

definition lf_holds :: "lf_pool \<Rightarrow> nat set \<Rightarrow> bool" where
  "lf_holds p P \<longleftrightarrow> (\<exists>xs us. lf_pool_rep p xs us \<and> P = lf_payload p ` set us)"

lemma lf_pool_repD:
  assumes "lf_pool_rep p xs us"
  shows "distinct (xs @ us)" "set xs \<union> set us = {0..<lp_capacity p}"
    "length xs + length us = lp_capacity p"
proof -
  have m: "mset (xs @ us) = mset [0..<lp_capacity p]" using assms by (simp add: lf_pool_rep_def)
  then show "distinct (xs @ us)" using mset_eq_imp_distinct_iff distinct_upt by blast
  show "set xs \<union> set us = {0..<lp_capacity p}" using mset_eq_setD[OF m] by simp
  show "length xs + length us = lp_capacity p" using mset_eq_length[OF m] by simp
qed

lemma lf_payload_inj:
  assumes "0 < real_block_size p"
  shows "lf_payload p i = lf_payload p j \<longleftrightarrow> i = j"
  using assms by (simp add: lf_payload_def)

lemma lf_block_index_payload:
  assumes "0 < real_block_size p" "i < 2 ^ 32"
  shows "unat (lf_block_index p (lf_payload p i)) = i"
  using assms by (simp add: lf_block_index_def lf_payload_def unat_of_nat)

text \<open>The undisturbed pop and push.\<close>

lemma lf_pop_alone:
  assumes "chain (lp_next p) (head_idx (lp_head p)) (x # xs)" "x < 2 ^ 32 - 1"
  shows "lf_pop_loop [] checked (lp_head p) p =
    (p\<lparr>lp_head := mk_head (lp_next p ! x) (head_gen (lp_head p) + 1)\<rparr>, Ok (Some (head_idx (lp_head p))))"
proof -
  have "head_idx (lp_head p) \<noteq> NO_IDX" using assms by (auto simp: unsigned_minus_1_eq_mask mask_eq_exp_minus_1)
  then show ?thesis using assms(1) by (simp add: lf_pop_loop.simps Let_def)
qed

lemma lf_push_alone:
  assumes "unat idx < length (lp_next p)"
  shows "lf_push_loop [] idx (lp_head p) p =
    Ok (p\<lparr>lp_next := (lp_next p)[unat idx := head_idx (lp_head p)],
          lp_head := mk_head idx (head_gen (lp_head p) + 1)\<rparr>)"
  using assms by (simp add: lf_push_loop.simps Let_def)

lemma lf_payload_cong [simp]:
  "lf_payload (p\<lparr>lp_head := h\<rparr>) = lf_payload p" "lf_payload (p\<lparr>lp_next := n\<rparr>) = lf_payload p"
  "lf_payload (p\<lparr>lp_in_use := u\<rparr>) = lf_payload p" "lf_payload (p\<lparr>blocks_sem := v\<rparr>) = lf_payload p"
  by (simp_all add: lf_payload_def fun_eq_iff)

lemma lf_pool_try_get_spec:
  assumes rep: "lf_pool_rep p xs us"
  shows "case xs of
      [] \<Rightarrow> lf_pool_try_get [] (Some p) = (Some p, Err EAGAIN)
    | x # xs' \<Rightarrow> \<exists>p'. lf_pool_try_get [] (Some p) = (Some p', Ok (lf_payload p x)) \<and>
        lf_pool_rep p' xs' (x # us) \<and> lf_payload p' = lf_payload p \<and> lp_capacity p' = lp_capacity p"
proof (cases xs)
  case Nil
  then show ?thesis using rep by (auto simp: lf_pool_rep_def lf_pool_try_get_def sem_trywait_def)
next
  case (Cons x xs')
  have x: "x < lp_capacity p" using lf_pool_repD(2)[OF rep] Cons by auto
  have us: "length us < lp_capacity p" using lf_pool_repD(3)[OF rep] Cons by simp
  have cap: "lp_capacity p < 2 ^ 32 - 1" using rep by (simp add: lf_pool_rep_def)
  let ?p = "p\<lparr>blocks_sem := length xs'\<rparr>"
  have ch: "chain (lp_next ?p) (head_idx (lp_head ?p)) (x # xs')"
    using rep Cons by (simp add: lf_pool_rep_def)
  have "x < 2 ^ 32 - 1" using x cap by simp
  note pop = lf_pop_alone[OF ch this, of True]
  have sem: "sem_trywait (blocks_sem p) = Ok (length xs')" "raw_memory p \<noteq> None"
    using rep Cons by (auto simp: lf_pool_rep_def sem_trywait_def)
  let ?r = "p\<lparr>blocks_sem := length xs', lp_head := mk_head (lp_next p ! x) (head_gen (lp_head p) + 1),
      lp_in_use := Suc (length us)\<rparr>"
  have "lf_pool_try_get [] (Some p) = (Some ?r, Ok (lf_payload p x))"
    using sem pop ch rep us cap by (auto simp: lf_pool_try_get_def lf_finish_get_def Let_def lf_pool_rep_def)
  moreover have "lf_pool_rep ?r xs' (x # us)"
    using rep ch Cons by (auto simp: lf_pool_rep_def)
  ultimately show ?thesis using Cons by (intro exI[of _ ?r] | simp)+
qed

lemma lf_pool_put_spec:
  assumes rep: "lf_pool_rep p xs us" and i: "i \<in> set us"
  shows "\<exists>p'. lf_pool_put [] (Some p) (Some (lf_payload p i)) = (Some p', Ok ()) \<and>
    lf_pool_rep p' (i # xs) (remove1 i us) \<and> lf_payload p' = lf_payload p \<and> lp_capacity p' = lp_capacity p"
proof -
  have lt: "i < lp_capacity p" using lf_pool_repD(2)[OF rep] i by auto
  have rbs: "0 < real_block_size p" "lp_capacity p < 2 ^ 32 - 1" "raw_memory p \<noteq> None"
    and len: "length (lp_next p) = lp_capacity p" and cap: "lp_capacity p \<le> SEM_VALUE_MAX"
    and ms: "mset xs + mset us = mset [0..<lp_capacity p]"
    and cnt: "blocks_sem p = length xs" "lp_in_use p = length us"
    using rep by (auto simp: lf_pool_rep_def)
  have xs: "i \<notin> set xs" using lf_pool_repD(1)[OF rep] i by auto
  have pos: "0 < length us" using i by (cases us) auto
  have sum: "length xs + length us = lp_capacity p" using lf_pool_repD(3)[OF rep] .
  let ?idx = "lf_block_index p (lf_payload p i)"
  have idx: "unat ?idx = i" using lf_block_index_payload[OF rbs(1)] lt rbs(2) by simp
  then have "unat ?idx < length (lp_next p)" using lt len by simp
  note push = lf_push_alone[OF this]
  let ?r = "p\<lparr>lp_next := (lp_next p)[i := head_idx (lp_head p)],
      lp_head := mk_head ?idx (head_gen (lp_head p) + 1),
      lp_in_use := length us - 1, blocks_sem := Suc (length xs)\<rparr>"
  have dec: "size_dec (length us) = length us - 1" using pos sum cap by (intro size_dec_eq) auto
  have "length xs < SEM_VALUE_MAX" using pos sum cap by linarith
  then have post: "lf_post (length xs) = Suc (length xs)" by (simp add: lf_post_def sem_post_def)
  have "lf_pool_put [] (Some p) (Some (lf_payload p i)) = (Some ?r, Ok ())"
    using rbs(3) cnt dec post push idx by (auto simp: lf_pool_put_def)
  moreover have "lf_pool_rep ?r (i # xs) (remove1 i us)"
  proof -
    have "chain ((lp_next p)[i := head_idx (lp_head p)]) (head_idx (lp_head p)) xs"
      using rep xs by (simp add: chain_update lf_pool_rep_def)
    moreover have "mset (i # xs) + mset (remove1 i us) = mset [0..<lp_capacity p]"
    proof -
      have "mset (i # xs) + mset (remove1 i us) = mset xs + add_mset i (mset us - {#i#})" by simp
      moreover have "add_mset i (mset us - {#i#}) = mset us" using i by simp
      ultimately show ?thesis using ms by simp
    qed
    ultimately show ?thesis using rep idx lt len i by (simp add: lf_pool_rep_def length_remove1)
  qed
  ultimately show ?thesis by (intro exI[of _ ?r]) simp
qed

definition lf_get_step :: "unit \<Rightarrow> lf_pool \<Rightarrow> nat option \<times> lf_pool" where
  "lf_get_step u p =
     (case lf_pool_try_get [] (Some p) of
        (Some p', Ok v) \<Rightarrow> (Some v, p') | (Some p', _) \<Rightarrow> (None, p') | (None, _) \<Rightarrow> (None, p))"

definition lf_put_step :: "nat \<Rightarrow> lf_pool \<Rightarrow> lf_pool option" where
  "lf_put_step v p =
     (case lf_pool_put [] (Some p) (Some v) of (Some p', Ok _) \<Rightarrow> Some p' | _ \<Rightarrow> None)"

interpretation lfp: block_pool lf_holds lp_capacity "\<lambda>_ _. True" lf_get_step lf_put_step
proof unfold_locales
  fix p p' P os and v :: nat
  assume "lf_holds p P"
  then obtain xs us where rep: "lf_pool_rep p xs us" and P: "P = lf_payload p ` set us"
    by (auto simp: lf_holds_def)
  note spec = lf_pool_try_get_spec[OF rep]
  have d: "distinct (xs @ us)" using lf_pool_repD(1)[OF rep] .
  have inj: "inj (lf_payload p)"
    using rep lf_payload_inj by (auto simp: lf_pool_rep_def inj_on_def)
  show "v \<notin> P \<and> lf_holds p' (insert v P) \<and> lp_capacity p' = lp_capacity p"
    if get: "lf_get_step os p = (Some v, p')"
  proof (cases xs)
    case Nil
    then show ?thesis using spec get by (simp add: lf_get_step_def)
  next
    case (Cons x xs')
    then obtain r where r: "lf_pool_try_get [] (Some p) = (Some r, Ok (lf_payload p x))"
      "lf_pool_rep r xs' (x # us)" "lf_payload r = lf_payload p" "lp_capacity r = lp_capacity p"
      using spec by auto
    have "v = lf_payload p x" "p' = r" using r(1) get by (simp_all add: lf_get_step_def)
    moreover have "lf_holds r (insert (lf_payload p x) P)"
      unfolding lf_holds_def using r(2,3) P by (intro exI[of _ xs'] exI[of _ "x # us"]) simp
    moreover have "lf_payload p x \<notin> P" using d P Cons inj by (auto simp: inj_on_def)
    ultimately show ?thesis using r(4) by simp
  qed
  show "lf_holds p' P \<and> lp_capacity p' = lp_capacity p" if "lf_get_step os p = (None, p')"
    using spec that rep P by (cases xs) (auto simp: lf_get_step_def lf_holds_def)
next
  fix p P v
  assume "lf_holds p P" "v \<in> P"
  then obtain xs us i where rep: "lf_pool_rep p xs us" and P: "P = lf_payload p ` set us"
    and i: "i \<in> set us" "v = lf_payload p i"
    by (auto simp: lf_holds_def)
  have inj: "inj (lf_payload p)"
    using rep lf_payload_inj by (auto simp: lf_pool_rep_def inj_on_def)
  have d: "distinct us" using lf_pool_repD(1)[OF rep] by simp
  obtain r where r: "lf_pool_put [] (Some p) (Some v) = (Some r, Ok ())"
    "lf_pool_rep r (i # xs) (remove1 i us)" "lf_payload r = lf_payload p" "lp_capacity r = lp_capacity p"
    using lf_pool_put_spec[OF rep i(1)] i(2) by auto
  have "P - {v} = lf_payload r ` set (remove1 i us)"
    using P i(2) d r(3) inj by (auto simp: inj_on_def)
  then have "lf_holds r (P - {v})" using r(2) by (auto simp: lf_holds_def)
  then show "\<exists>s'. lf_put_step v p = Some s' \<and> lf_holds s' (P - {v}) \<and> lp_capacity s' = lp_capacity p"
    using r by (simp add: lf_put_step_def)
next
  fix p P
  assume "lf_holds p P"
  then obtain xs us where rep: "lf_pool_rep p xs us" and P: "P = lf_payload p ` set us"
    by (auto simp: lf_holds_def)
  have "card P \<le> length us" using P card_image_le[of "set us" "lf_payload p"] card_length[of us] by simp
  then show "card P \<le> lp_capacity p" using lf_pool_repD(3)[OF rep] by simp
qed

lemma lf_pool_init_rep:
  assumes "lf_pool_init alloc rc pp bs cap = (Some p, Ok 0)" "unat bs + 11 < 2 ^ 64"
  shows "lf_pool_rep p [0..<cap] [] \<and> lp_capacity p = cap \<and> head_gen (lp_head p) = 0"
proof -
  have align: "0 < unat (lf_align (4 + bs))"
  proof -
    have seven: "(7 :: u64) = mask 3" by (simp add: mask_eq_exp_minus_1)
    have "4 + bs + 7 = of_nat (unat bs + 11)" by simp
    then have "unat (4 + bs + 7) = unat bs + 11" using assms(2) by (simp only: unat_of_nat) simp
    moreover have "unat (lf_align (4 + bs)) = unat (4 + bs + 7) div 2 ^ 3 * 2 ^ 3"
      unfolding lf_align_def seven by (rule unat_and_not_mask)
    ultimately show ?thesis by simp
  qed
  let ?nx = "(link_slots 0 (cap - 1) (replicate cap 0))[cap - 1 := NO_IDX]"
  obtain base where p: "p = \<lparr>lp_block_size = bs, real_block_size = unat (lf_align (4 + bs)), lp_capacity = cap,
       raw_memory = Some base, lp_next = ?nx, lp_head = mk_head 0 0, lp_in_use = 0, blocks_sem = cap\<rparr>"
    and cap: "0 < cap" "cap < 2 ^ 32 - 1" "cap \<le> SEM_VALUE_MAX"
    using assms(1) by (auto simp: lf_pool_init_def Let_def sem_init_def split: option.splits if_splits)
  have "chain ?nx (of_nat 0) [0..<cap]"
    by (rule chain_init) (use cap in \<open>auto simp: nth_link_slots\<close>)
  then show ?thesis using p cap align by (simp add: lf_pool_rep_def)
qed

section \<open>Any number of threads\<close>

text \<open>
  The points of a get: token taken, head loaded, next index read, swapped; and of a put: block
  given up, head loaded, header linked, swapped, counted. A loaded head carries the number of
  swaps done when it was loaded, which the program does not have: its own generation is that
  number modulo \<^term>\<open>2 ^ 32\<close>.
\<close>

datatype lpc = LIdle | LToken | LGetLoaded u64 nat | LGetNext u64 nat u32 | LGot nat
  | LPut nat | LPutLoaded nat u64 nat | LPutLinked nat u64 nat | LPushed | LPosting

record lsys =
  ls_pool :: lf_pool
  ls_gen :: nat
  ls_held :: "nat list"
  ls_pcs :: "lpc list"

inductive lstep :: "lsys \<Rightarrow> lsys \<Rightarrow> bool" where
  get_wait: "i < length (ls_pcs s) \<Longrightarrow> ls_pcs s ! i = LIdle \<Longrightarrow>
     sem_wait False (blocks_sem (ls_pool s)) = Ok v \<Longrightarrow>
     lstep s (s\<lparr>ls_pool := (ls_pool s)\<lparr>blocks_sem := v\<rparr>, ls_pcs := (ls_pcs s)[i := LToken]\<rparr>)"
| get_load: "i < length (ls_pcs s) \<Longrightarrow> ls_pcs s ! i = LToken \<Longrightarrow>
     lstep s (s\<lparr>ls_pcs := (ls_pcs s)[i := LGetLoaded (lp_head (ls_pool s)) (ls_gen s)]\<rparr>)"
| get_next: "i < length (ls_pcs s) \<Longrightarrow> ls_pcs s ! i = LGetLoaded old g \<Longrightarrow>
     unat (head_idx old) < length (lp_next (ls_pool s)) \<Longrightarrow>
     lstep s (s\<lparr>ls_pcs := (ls_pcs s)[i := LGetNext old g (lp_next (ls_pool s) ! unat (head_idx old))]\<rparr>)"
| get_swap: "i < length (ls_pcs s) \<Longrightarrow> ls_pcs s ! i = LGetNext old g nx \<Longrightarrow>
     lp_head (ls_pool s) = old \<Longrightarrow>
     lstep s (s\<lparr>ls_pool := (ls_pool s)\<lparr>lp_head := mk_head nx (head_gen old + 1)\<rparr>,
                ls_gen := Suc (ls_gen s), ls_pcs := (ls_pcs s)[i := LGot (unat (head_idx old))]\<rparr>)"
| get_fail: "i < length (ls_pcs s) \<Longrightarrow> ls_pcs s ! i = LGetNext old g nx \<Longrightarrow>
     lstep s (s\<lparr>ls_pcs := (ls_pcs s)[i := LGetLoaded (lp_head (ls_pool s)) (ls_gen s)]\<rparr>)"
| get_done: "i < length (ls_pcs s) \<Longrightarrow> ls_pcs s ! i = LGot j \<Longrightarrow>
     lstep s (s\<lparr>ls_pool := (ls_pool s)\<lparr>lp_in_use := size_inc (lp_in_use (ls_pool s))\<rparr>,
                ls_held := j # ls_held s, ls_pcs := (ls_pcs s)[i := LIdle]\<rparr>)"
| put_start: "i < length (ls_pcs s) \<Longrightarrow> ls_pcs s ! i = LIdle \<Longrightarrow> j \<in> set (ls_held s) \<Longrightarrow>
     lstep s (s\<lparr>ls_held := remove1 j (ls_held s), ls_pcs := (ls_pcs s)[i := LPut j]\<rparr>)"
| put_load: "i < length (ls_pcs s) \<Longrightarrow> ls_pcs s ! i = LPut j \<Longrightarrow>
     lstep s (s\<lparr>ls_pcs := (ls_pcs s)[i := LPutLoaded j (lp_head (ls_pool s)) (ls_gen s)]\<rparr>)"
| put_link: "i < length (ls_pcs s) \<Longrightarrow> ls_pcs s ! i = LPutLoaded j old g \<Longrightarrow>
     lstep s (s\<lparr>ls_pool := (ls_pool s)\<lparr>lp_next := (lp_next (ls_pool s))[j := head_idx old]\<rparr>,
                ls_pcs := (ls_pcs s)[i := LPutLinked j old g]\<rparr>)"
| put_swap: "i < length (ls_pcs s) \<Longrightarrow> ls_pcs s ! i = LPutLinked j old g \<Longrightarrow>
     lp_head (ls_pool s) = old \<Longrightarrow>
     lstep s (s\<lparr>ls_pool := (ls_pool s)\<lparr>lp_head := mk_head (of_nat j) (head_gen old + 1)\<rparr>,
                ls_gen := Suc (ls_gen s), ls_pcs := (ls_pcs s)[i := LPushed]\<rparr>)"
| put_fail: "i < length (ls_pcs s) \<Longrightarrow> ls_pcs s ! i = LPutLinked j old g \<Longrightarrow>
     lstep s (s\<lparr>ls_pcs := (ls_pcs s)[i := LPutLoaded j (lp_head (ls_pool s)) (ls_gen s)]\<rparr>)"
| put_count: "i < length (ls_pcs s) \<Longrightarrow> ls_pcs s ! i = LPushed \<Longrightarrow>
     lstep s (s\<lparr>ls_pool := (ls_pool s)\<lparr>lp_in_use := size_dec (lp_in_use (ls_pool s))\<rparr>,
                ls_pcs := (ls_pcs s)[i := LPosting]\<rparr>)"
| put_post: "i < length (ls_pcs s) \<Longrightarrow> ls_pcs s ! i = LPosting \<Longrightarrow>
     lstep s (s\<lparr>ls_pool := (ls_pool s)\<lparr>blocks_sem := lf_post (blocks_sem (ls_pool s))\<rparr>,
                ls_pcs := (ls_pcs s)[i := LIdle]\<rparr>)"

text \<open>
  The executions considered: from a pool just created, with no pop delayed between its load and
  its swap for as many as \<^term>\<open>2 ^ 32\<close> swaps of other threads.
\<close>

fun snap :: "lpc \<Rightarrow> nat option" where
  "snap (LGetLoaded old g) = Some g" | "snap (LGetNext old g nx) = Some g" | "snap _ = None"

definition gens_fresh :: "lsys \<Rightarrow> bool" where
  "gens_fresh s \<longleftrightarrow> (\<forall>pc \<in> set (ls_pcs s). case snap pc of None \<Rightarrow> True | Some g \<Rightarrow> ls_gen s < g + 2 ^ 32)"

inductive lreach :: "lsys \<Rightarrow> bool" where
  lreach_init: "lf_pool_init alloc rc pp bs cap = (Some p, Ok 0) \<Longrightarrow> unat bs + 11 < 2 ^ 64 \<Longrightarrow>
     lreach \<lparr>ls_pool = p, ls_gen = 0, ls_held = [], ls_pcs = replicate n LIdle\<rparr>"
| lreach_step: "lreach s \<Longrightarrow> lstep s t \<Longrightarrow> gens_fresh t \<Longrightarrow> lreach t"

fun own :: "lpc \<Rightarrow> nat list" where
  "own (LGot j) = [j]" | "own (LPut j) = [j]" | "own (LPutLoaded j old g) = [j]"
| "own (LPutLinked j old g) = [j]" | "own _ = []"

fun getting :: "lpc \<Rightarrow> bool" where
  "getting LToken = True" | "getting (LGetLoaded old g) = True" | "getting (LGetNext old g nx) = True"
| "getting _ = False"

fun posting :: "lpc \<Rightarrow> bool" where
  "posting LPushed = True" | "posting LPosting = True" | "posting _ = False"

fun putting :: "lpc \<Rightarrow> bool" where
  "putting (LPut j) = True" | "putting (LPutLoaded j old g) = True"
| "putting (LPutLinked j old g) = True" | "putting LPushed = True" | "putting _ = False"

text \<open>What a thread knows: a head loaded at the current number of swaps is the current head.\<close>

fun lpc_ok :: "lf_pool \<Rightarrow> nat \<Rightarrow> lpc \<Rightarrow> bool" where
  "lpc_ok p G (LGetLoaded old g) \<longleftrightarrow> g \<le> G \<and> unat (head_idx old) < lp_capacity p \<and>
     head_gen old = of_nat g \<and> (g = G \<longrightarrow> old = lp_head p)"
| "lpc_ok p G (LGetNext old g nx) \<longleftrightarrow> g \<le> G \<and> unat (head_idx old) < lp_capacity p \<and>
     head_gen old = of_nat g \<and>
     (g = G \<longrightarrow> old = lp_head p \<and> nx = lp_next p ! unat (head_idx old))"
| "lpc_ok p G (LPutLinked j old g) \<longleftrightarrow> lp_next p ! j = head_idx old"
| "lpc_ok p G _ \<longleftrightarrow> True"

definition owned :: "lpc list \<Rightarrow> nat list" where
  "owned pcs = concat (map own pcs)"

definition lsys_inv :: "nat list \<Rightarrow> lsys \<Rightarrow> bool" where
  "lsys_inv xs s \<longleftrightarrow>
     length (lp_next (ls_pool s)) = lp_capacity (ls_pool s) \<and>
     lp_capacity (ls_pool s) < 2 ^ 32 - 1 \<and> lp_capacity (ls_pool s) \<le> SEM_VALUE_MAX \<and>
     chain (lp_next (ls_pool s)) (head_idx (lp_head (ls_pool s))) xs \<and>
     head_gen (lp_head (ls_pool s)) = of_nat (ls_gen s) \<and>
     mset xs + mset (ls_held s) + mset (owned (ls_pcs s)) = mset [0..<lp_capacity (ls_pool s)] \<and>
     blocks_sem (ls_pool s) + cnt getting (ls_pcs s) + cnt posting (ls_pcs s) = length xs \<and>
     lp_in_use (ls_pool s) = length (ls_held s) + cnt putting (ls_pcs s) \<and>
     (\<forall>pc \<in> set (ls_pcs s). lpc_ok (ls_pool s) (ls_gen s) pc)"

lemma owned_update:
  "i < length pcs \<Longrightarrow> mset (owned (pcs[i := pc])) + mset (own (pcs ! i)) = mset (owned pcs) + mset (own pc)"
proof (induction pcs arbitrary: i)
  case Nil
  then show ?case by simp
next
  case (Cons c pcs)
  then show ?case by (cases i) (auto simp: owned_def ac_simps)
qed

lemma owned_mem: "i < length pcs \<Longrightarrow> j \<in> set (own (pcs ! i)) \<Longrightarrow> j \<in> set (owned pcs)"
  by (auto simp: owned_def intro!: bexI[of _ "pcs ! i"])

lemma own_other:
  assumes "distinct (owned pcs)" "i < length pcs" "k < length pcs" "j \<in> set (own (pcs ! i))"
    "j \<in> set (own (pcs ! k))"
  shows "i = k"
  using assms
proof (induction pcs arbitrary: i k)
  case Nil
  then show ?case by simp
next
  case (Cons c pcs)
  have sub: "j \<in> set (owned pcs)" if "n < length pcs" "j \<in> set (own (pcs ! n))" for n
    using that by (rule owned_mem)
  show ?case
    using Cons sub by (cases i; cases k) (auto simp: owned_def)
qed

lemmas lpc_cnt_update =
  cnt_update[of _ _ getting] cnt_update[of _ _ posting] cnt_update[of _ _ putting]

lemma all_update:
  "i < length pcs \<Longrightarrow> \<forall>pc \<in> set pcs. P pc \<Longrightarrow> P c \<Longrightarrow> \<forall>pc \<in> set (pcs[i := c]). P pc"
  using set_update_subset_insert[of pcs i c] by blast

lemma lsys_indices:
  assumes "lsys_inv xs s"
  shows "distinct (xs @ ls_held s @ owned (ls_pcs s))"
    and "set xs \<union> set (ls_held s) \<union> set (owned (ls_pcs s)) = {0..<lp_capacity (ls_pool s)}"
    and "length xs + length (ls_held s) + length (owned (ls_pcs s)) = lp_capacity (ls_pool s)"
proof -
  have m: "mset (xs @ ls_held s @ owned (ls_pcs s)) = mset [0..<lp_capacity (ls_pool s)]"
    using assms by (simp add: lsys_inv_def ac_simps)
  show "distinct (xs @ ls_held s @ owned (ls_pcs s))" using m mset_eq_imp_distinct_iff distinct_upt by blast
  show "set xs \<union> set (ls_held s) \<union> set (owned (ls_pcs s)) = {0..<lp_capacity (ls_pool s)}"
    using mset_eq_setD[OF m] by (simp add: Un_assoc)
  show "length xs + length (ls_held s) + length (owned (ls_pcs s)) = lp_capacity (ls_pool s)"
    using mset_eq_length[OF m] by simp
qed

lemma putting_le: "cnt putting pcs \<le> length (owned pcs) + cnt posting pcs"
proof (induction pcs)
  case Nil
  then show ?case by simp
next
  case (Cons c pcs)
  then show ?case by (cases c) (auto simp: owned_def)
qed

lemma lsys_in_use_lt:
  assumes "lsys_inv xs s"
  shows "lp_in_use (ls_pool s) < SIZE_MAX"
proof -
  have "cnt posting (ls_pcs s) \<le> length xs" and "lp_capacity (ls_pool s) \<le> SEM_VALUE_MAX"
    and "lp_in_use (ls_pool s) = length (ls_held s) + cnt putting (ls_pcs s)"
    using assms by (auto simp: lsys_inv_def)
  then have "lp_in_use (ls_pool s) \<le> SEM_VALUE_MAX + SEM_VALUE_MAX"
    using putting_le[of "ls_pcs s"] lsys_indices(3)[OF assms] by linarith
  then show ?thesis by simp
qed

text \<open>A getter finds the stack non-empty.\<close>

lemma lsys_top:
  assumes inv: "lsys_inv xs s" and i: "i < length (ls_pcs s)" "getting (ls_pcs s ! i)"
  obtains x xs' where "xs = x # xs'" "unat (head_idx (lp_head (ls_pool s))) = x"
    "x < lp_capacity (ls_pool s)" "chain (lp_next (ls_pool s)) (lp_next (ls_pool s) ! x) xs'"
proof -
  have "0 < cnt getting (ls_pcs s)" using i by (rule cnt_pos)
  then have "0 < length xs" using inv by (auto simp: lsys_inv_def)
  then show thesis using inv that by (cases xs) (auto simp: lsys_inv_def)
qed

text \<open>
  The heart of the matter: within \<^term>\<open>2 ^ 32\<close> swaps, equal generations are equal numbers
  of swaps.
\<close>

lemma gen_unwrap:
  assumes "(of_nat g :: u32) = of_nat G" "g \<le> G" "G < g + 2 ^ 32"
  shows "g = G"
proof -
  have "unat (of_nat g :: u32) = unat (of_nat G :: u32)" using assms(1) by simp
  then have "g mod 2 ^ 32 = G mod 2 ^ 32" by (simp only: unat_of_nat len_bit0 len_num1) simp
  then show ?thesis using window_inj[of g "2 ^ 32" G g] assms(2,3) by simp
qed

lemma lpc_ok_swap:
  "lpc_ok p G pc \<Longrightarrow> (\<And>j old g. pc = LPutLinked j old g \<Longrightarrow> lp_next p' ! j = lp_next p ! j) \<Longrightarrow>
   lp_capacity p' = lp_capacity p \<Longrightarrow> lpc_ok p' (Suc G) pc"
  by (cases pc) auto

lemma lstep_get_swap:
  assumes inv: "lsys_inv xs s" and fresh: "gens_fresh s" and i: "i < length (ls_pcs s)"
    and pc: "ls_pcs s ! i = LGetNext old g nx" and head: "lp_head (ls_pool s) = old"
  shows "\<exists>xs'. lsys_inv xs' (s\<lparr>ls_pool := (ls_pool s)\<lparr>lp_head := mk_head nx (head_gen old + 1)\<rparr>,
      ls_gen := Suc (ls_gen s), ls_pcs := (ls_pcs s)[i := LGot (unat (head_idx old))]\<rparr>)"
proof -
  let ?p = "ls_pool s" and ?G = "ls_gen s"
  have "LGetNext old g nx \<in> set (ls_pcs s)" using i pc by (metis nth_mem)
  then have ok: "lpc_ok ?p ?G (LGetNext old g nx)" and lt: "?G < g + 2 ^ 32"
    using inv fresh by (auto simp: lsys_inv_def gens_fresh_def)
  have "head_gen old = of_nat ?G" using inv head by (simp add: lsys_inv_def)
  then have "g = ?G" using ok lt by (intro gen_unwrap) auto
  then have nx: "nx = lp_next ?p ! unat (head_idx old)" using ok by simp
  obtain x xs' where xs: "xs = x # xs'" "unat (head_idx old) = x" "chain (lp_next ?p) (lp_next ?p ! x) xs'"
  proof (rule lsys_top[OF inv i])
    show "getting (ls_pcs s ! i)" using pc by simp
  qed (use head that in auto)
  let ?pcs = "(ls_pcs s)[i := LGot x]"
  have "mset (owned ?pcs) = add_mset x (mset (owned (ls_pcs s)))"
    using owned_update[OF i, of "LGot x"] pc by simp
  then have ms: "mset xs' + mset (ls_held s) + mset (owned ?pcs) = mset [0..<lp_capacity ?p]"
    using inv xs(1) by (simp add: lsys_inv_def)
  have "\<forall>pc \<in> set (ls_pcs s). lpc_ok (?p\<lparr>lp_head := mk_head nx (head_gen old + 1)\<rparr>) (Suc ?G) pc"
    using inv by (auto simp: lsys_inv_def intro: lpc_ok_swap[of ?p ?G])
  then have "\<forall>pc \<in> set ?pcs. lpc_ok (?p\<lparr>lp_head := mk_head nx (head_gen old + 1)\<rparr>) (Suc ?G) pc"
    by (rule all_update[OF i]) simp
  then have "lsys_inv xs' (s\<lparr>ls_pool := ?p\<lparr>lp_head := mk_head nx (head_gen old + 1)\<rparr>,
      ls_gen := Suc ?G, ls_pcs := ?pcs\<rparr>)"
    using inv xs nx ms head lpc_cnt_update[OF i, of "LGot x"] pc by (auto simp: lsys_inv_def add.commute)
  then show ?thesis using xs(2) by auto
qed

lemma lstep_put_swap:
  assumes inv: "lsys_inv xs s" and i: "i < length (ls_pcs s)"
    and pc: "ls_pcs s ! i = LPutLinked j old g" and head: "lp_head (ls_pool s) = old"
  shows "lsys_inv (j # xs) (s\<lparr>ls_pool := (ls_pool s)\<lparr>lp_head := mk_head (of_nat j) (head_gen old + 1)\<rparr>,
      ls_gen := Suc (ls_gen s), ls_pcs := (ls_pcs s)[i := LPushed]\<rparr>)"
proof -
  let ?p = "ls_pool s" and ?G = "ls_gen s" and ?pcs = "(ls_pcs s)[i := LPushed]"
  have "LPutLinked j old g \<in> set (ls_pcs s)" using i pc by (metis nth_mem)
  then have link: "lp_next ?p ! j = head_idx old" using inv by (auto simp: lsys_inv_def)
  have j: "j < lp_capacity ?p" using lsys_indices(2)[OF inv] owned_mem[OF i, of j] pc by auto
  have cap: "lp_capacity ?p < 2 ^ 32 - 1" using inv by (simp add: lsys_inv_def)
  then have "unat (of_nat j :: u32) = j" using j by (simp add: unat_of_nat)
  then have ch: "chain (lp_next ?p) (of_nat j) (j # xs)"
    using inv link head j by (simp add: lsys_inv_def)
  have "mset (owned (ls_pcs s)) = add_mset j (mset (owned ?pcs))"
    using owned_update[OF i, of LPushed] pc by simp
  then have ms: "mset (j # xs) + mset (ls_held s) + mset (owned ?pcs) = mset [0..<lp_capacity ?p]"
    using inv by (simp add: lsys_inv_def)
  have "\<forall>pc \<in> set (ls_pcs s). lpc_ok (?p\<lparr>lp_head := mk_head (of_nat j) (head_gen old + 1)\<rparr>) (Suc ?G) pc"
    using inv by (auto simp: lsys_inv_def intro: lpc_ok_swap[of ?p ?G])
  then have "\<forall>pc \<in> set ?pcs. lpc_ok (?p\<lparr>lp_head := mk_head (of_nat j) (head_gen old + 1)\<rparr>) (Suc ?G) pc"
    by (rule all_update[OF i]) simp
  then show ?thesis
    using inv ch ms head lpc_cnt_update[OF i, of LPushed] pc by (auto simp: lsys_inv_def add.commute)
qed

lemma lstep_put_link:
  assumes inv: "lsys_inv xs s" and i: "i < length (ls_pcs s)"
    and pc: "ls_pcs s ! i = LPutLoaded j old g"
  shows "lsys_inv xs (s\<lparr>ls_pool := (ls_pool s)\<lparr>lp_next := (lp_next (ls_pool s))[j := head_idx old]\<rparr>,
      ls_pcs := (ls_pcs s)[i := LPutLinked j old g]\<rparr>)"
proof -
  let ?p = "ls_pool s" and ?G = "ls_gen s" and ?pcs = "(ls_pcs s)[i := LPutLinked j old g]"
  let ?q = "?p\<lparr>lp_next := (lp_next ?p)[j := head_idx old]\<rparr>"
  have own: "j \<in> set (own (ls_pcs s ! i))" using pc by simp
  have j: "j < lp_capacity ?p" "j \<notin> set xs"
    using lsys_indices(1,2)[OF inv] owned_mem[OF i own] by auto
  have len: "length (lp_next ?p) = lp_capacity ?p" using inv by (simp add: lsys_inv_def)
  have dist: "distinct (owned (ls_pcs s))" using lsys_indices(1)[OF inv] by simp
  have ch: "chain (lp_next ?q) (head_idx (lp_head ?p)) xs"
    using inv j(2) by (simp add: lsys_inv_def chain_update)
  have "lpc_ok ?q ?G (?pcs ! k)" if k: "k < length (ls_pcs s)" for k
  proof (cases "k = i")
    case True
    then show ?thesis using i j(1) len by simp
  next
    case False
    have ok: "lpc_ok ?p ?G (ls_pcs s ! k)" using inv k by (auto simp: lsys_inv_def)
    have "j \<notin> set (own (ls_pcs s ! k))" using own_other[OF dist i k own] False by auto
    moreover have "unat (head_idx (lp_head ?p)) \<noteq> j" if "getting (ls_pcs s ! k)"
      using lsys_top[OF inv k that] j(2) by (metis list.set_intros(1))
    ultimately show ?thesis using ok False j(1) len by (cases "ls_pcs s ! k") auto
  qed
  then have "\<forall>pc \<in> set ?pcs. lpc_ok ?q ?G pc" by (auto simp: set_conv_nth)
  moreover have "mset (owned ?pcs) = mset (owned (ls_pcs s))"
    using owned_update[OF i, of "LPutLinked j old g"] pc by simp
  ultimately show ?thesis
    using inv ch lpc_cnt_update[OF i, of "LPutLinked j old g"] pc by (auto simp: lsys_inv_def)
qed

text \<open>The steps that leave the stack alone.\<close>

lemma lsys_inv_local:
  assumes inv: "lsys_inv xs s" and i: "i < length (ls_pcs s)"
    and same: "lp_next p = lp_next (ls_pool s)" "lp_head p = lp_head (ls_pool s)"
      "lp_capacity p = lp_capacity (ls_pool s)"
    and c: "lpc_ok (ls_pool s) (ls_gen s) c"
    and held: "mset held + mset (own c) = mset (ls_held s) + mset (own (ls_pcs s ! i))"
    and sem: "blocks_sem p + of_bool (getting c) + of_bool (posting c) =
      blocks_sem (ls_pool s) + of_bool (getting (ls_pcs s ! i)) + of_bool (posting (ls_pcs s ! i))"
    and use: "lp_in_use p + length (ls_held s) + of_bool (putting (ls_pcs s ! i)) =
      lp_in_use (ls_pool s) + length held + of_bool (putting c)"
  shows "lsys_inv xs (s\<lparr>ls_pool := p, ls_held := held, ls_pcs := (ls_pcs s)[i := c]\<rparr>)"
proof -
  have cong: "lpc_ok p G pc = lpc_ok (ls_pool s) G pc" for G pc using same by (cases pc) auto
  have ok: "\<forall>pc \<in> set ((ls_pcs s)[i := c]). lpc_ok p (ls_gen s) pc"
    unfolding cong using inv c by (intro all_update[OF i]) (auto simp: lsys_inv_def)
  have "mset held + mset (owned ((ls_pcs s)[i := c])) + mset (own (ls_pcs s ! i)) =
      mset held + mset (own c) + mset (owned (ls_pcs s))"
    using owned_update[OF i, of c] by (simp add: ac_simps)
  also have "\<dots> = mset (ls_held s) + mset (owned (ls_pcs s)) + mset (own (ls_pcs s ! i))"
    using held by (simp add: ac_simps)
  finally have "mset held + mset (owned ((ls_pcs s)[i := c])) = mset (ls_held s) + mset (owned (ls_pcs s))"
    by simp
  then have "mset xs + (mset held + mset (owned ((ls_pcs s)[i := c]))) = mset [0..<lp_capacity p]"
    using inv same(3) unfolding lsys_inv_def by (simp only: add.assoc)
  then have "mset xs + mset held + mset (owned ((ls_pcs s)[i := c])) = mset [0..<lp_capacity p]"
    by (simp only: add.assoc)
  moreover have "blocks_sem p + cnt getting ((ls_pcs s)[i := c]) + cnt posting ((ls_pcs s)[i := c]) = length xs"
    "lp_in_use p = length held + cnt putting ((ls_pcs s)[i := c])"
    using inv lpc_cnt_update[OF i, of c] sem use unfolding lsys_inv_def by linarith+
  ultimately show ?thesis using inv ok same unfolding lsys_inv_def by simp
qed

lemma loaded_ok:
  assumes inv: "lsys_inv xs s" and i: "i < length (ls_pcs s)" "getting (ls_pcs s ! i)"
  shows "lpc_ok (ls_pool s) (ls_gen s) (LGetLoaded (lp_head (ls_pool s)) (ls_gen s))"
  using lsys_top[OF assms] inv by (auto simp: lsys_inv_def)

lemma lsys_inv_pc:
  assumes "lsys_inv xs s" "i < length (ls_pcs s)" "lpc_ok (ls_pool s) (ls_gen s) c"
    "own c = own (ls_pcs s ! i)" "getting c = getting (ls_pcs s ! i)"
    "posting c = posting (ls_pcs s ! i)" "putting c = putting (ls_pcs s ! i)"
  shows "lsys_inv xs (s\<lparr>ls_pcs := (ls_pcs s)[i := c]\<rparr>)"
  using lsys_inv_local[OF assms(1,2), of "ls_pool s" c "ls_held s"] assms(3-) by simp

lemma lstep_get_wait:
  assumes "lsys_inv xs s" "i < length (ls_pcs s)" "ls_pcs s ! i = LIdle"
    "sem_wait False (blocks_sem (ls_pool s)) = Ok v"
  shows "lsys_inv xs (s\<lparr>ls_pool := (ls_pool s)\<lparr>blocks_sem := v\<rparr>, ls_pcs := (ls_pcs s)[i := LToken]\<rparr>)"
  using lsys_inv_local[OF assms(1,2), of "(ls_pool s)\<lparr>blocks_sem := v\<rparr>" LToken "ls_held s"] assms(3,4)
  by (auto simp: sem_wait_def split: if_splits)

lemma lstep_get_done:
  assumes "lsys_inv xs s" "i < length (ls_pcs s)" "ls_pcs s ! i = LGot j"
  shows "lsys_inv xs (s\<lparr>ls_pool := (ls_pool s)\<lparr>lp_in_use := size_inc (lp_in_use (ls_pool s))\<rparr>,
      ls_held := j # ls_held s, ls_pcs := (ls_pcs s)[i := LIdle]\<rparr>)"
  using assms lsys_in_use_lt[OF assms(1)] by (intro lsys_inv_local) auto

lemma lstep_put_start:
  assumes "lsys_inv xs s" "i < length (ls_pcs s)" "ls_pcs s ! i = LIdle" "j \<in> set (ls_held s)"
  shows "lsys_inv xs (s\<lparr>ls_held := remove1 j (ls_held s), ls_pcs := (ls_pcs s)[i := LPut j]\<rparr>)"
proof -
  have "length (ls_held s) = Suc (length (remove1 j (ls_held s)))"
    using assms(4) length_pos_if_in_set[OF assms(4)] by (simp add: length_remove1)
  then show ?thesis
    using lsys_inv_local[OF assms(1,2), of "ls_pool s" "LPut j" "remove1 j (ls_held s)"] assms(3,4) by auto
qed

lemma lstep_put_count:
  assumes "lsys_inv xs s" "i < length (ls_pcs s)" "ls_pcs s ! i = LPushed"
  shows "lsys_inv xs (s\<lparr>ls_pool := (ls_pool s)\<lparr>lp_in_use := size_dec (lp_in_use (ls_pool s))\<rparr>,
      ls_pcs := (ls_pcs s)[i := LPosting]\<rparr>)"
proof -
  let ?n = "lp_in_use (ls_pool s)"
  have "0 < cnt putting (ls_pcs s)" using assms(2,3) by (intro cnt_pos[of i]) auto
  then have pos: "0 < ?n" using assms(1) by (auto simp: lsys_inv_def)
  moreover have "?n < SIZE_MAX" using assms(1) by (rule lsys_in_use_lt)
  ultimately have "size_dec ?n = ?n - 1" by (intro size_dec_eq) auto
  then show ?thesis
    using lsys_inv_local[OF assms(1,2), of "(ls_pool s)\<lparr>lp_in_use := size_dec ?n\<rparr>" LPosting "ls_held s"]
      assms(3) pos by auto
qed

lemma lstep_put_post:
  assumes "lsys_inv xs s" "i < length (ls_pcs s)" "ls_pcs s ! i = LPosting"
  shows "lsys_inv xs (s\<lparr>ls_pool := (ls_pool s)\<lparr>blocks_sem := lf_post (blocks_sem (ls_pool s))\<rparr>,
      ls_pcs := (ls_pcs s)[i := LIdle]\<rparr>)"
proof -
  let ?v = "blocks_sem (ls_pool s)"
  have "0 < cnt posting (ls_pcs s)" using assms(2,3) by (intro cnt_pos[of i]) auto
  moreover have "length xs \<le> SEM_VALUE_MAX"
    using lsys_indices(3)[OF assms(1)] assms(1) by (auto simp: lsys_inv_def)
  ultimately have "?v < SEM_VALUE_MAX" using assms(1) by (auto simp: lsys_inv_def)
  then show ?thesis
    using lsys_inv_local[OF assms(1,2), of "(ls_pool s)\<lparr>blocks_sem := lf_post ?v\<rparr>" LIdle "ls_held s"]
      assms(3) by (auto simp: lf_post_def sem_post_def)
qed

lemma lsys_inv_ok:
  assumes "lsys_inv xs s" "i < length (ls_pcs s)"
  shows "lpc_ok (ls_pool s) (ls_gen s) (ls_pcs s ! i)"
  using assms by (auto simp: lsys_inv_def)

lemma lstep_inv:
  assumes "lstep s t" "gens_fresh s" "lsys_inv xs s"
  shows "\<exists>xs'. lsys_inv xs' t"
  using assms
proof (induction rule: lstep.induct)
  case (get_load i s)
  then show ?case using loaded_ok[OF get_load(4,1)] by (intro exI[of _ xs] lsys_inv_pc) auto
next
  case (get_next i s old g)
  then show ?case using lsys_inv_ok[OF get_next(5,1)] by (intro exI[of _ xs] lsys_inv_pc) auto
next
  case (get_swap i s old g nx)
  then show ?case by (intro lstep_get_swap)
next
  case (get_fail i s old g nx)
  then show ?case using loaded_ok[OF get_fail(4,1)] by (intro exI[of _ xs] lsys_inv_pc) auto
next
  case (put_load i s j)
  then show ?case by (intro exI[of _ xs] lsys_inv_pc) auto
next
  case (put_fail i s j old g)
  then show ?case by (intro exI[of _ xs] lsys_inv_pc) auto
qed (blast intro: lstep_get_wait lstep_get_done lstep_put_start lstep_put_link lstep_put_swap
    lstep_put_count lstep_put_post)+

lemma lreach_inv: "lreach s \<Longrightarrow> gens_fresh s \<and> (\<exists>xs. lsys_inv xs s)"
proof (induction rule: lreach.induct)
  case (lreach_init alloc rc pp bs cap p n)
  let ?s = "\<lparr>ls_pool = p, ls_gen = 0, ls_held = [], ls_pcs = replicate n LIdle\<rparr>"
  have rep: "lf_pool_rep p [0..<cap] []" and gen: "head_gen (lp_head p) = 0"
    using lf_pool_init_rep[OF lreach_init] by auto
  have "owned (replicate n LIdle) = []" by (simp add: owned_def)
  then have cnts: "owned (ls_pcs ?s) = []"
    "cnt getting (ls_pcs ?s) = 0" "cnt posting (ls_pcs ?s) = 0" "cnt putting (ls_pcs ?s) = 0" "\<forall>pc \<in> set (ls_pcs ?s). lpc_ok p 0 pc"
    by (auto simp del: in_set_replicate dest: in_set_replicate[THEN iffD1])
  have "lsys_inv [0..<cap] ?s"
    using rep[unfolded lf_pool_rep_def] gen cnts unfolding lsys_inv_def lsys.select_convs
    by (simp only: of_nat_0 list.size mset.simps add_0_right) simp
  moreover have "gens_fresh \<lparr>ls_pool = p, ls_gen = 0, ls_held = [], ls_pcs = replicate n LIdle\<rparr>"
    by (simp add: gens_fresh_def)
  ultimately show ?case by blast
next
  case (lreach_step s t)
  then show ?case using lstep_inv by blast
qed

section \<open>Properties\<close>

text \<open>
  C10. Safety of the lock-free pool under threads. From a pool just created, in every
  interleaving of gets and puts at the granularity of single atomic accesses in which no pop
  is overtaken by \<^term>\<open>2 ^ 32\<close> swaps between its load and its swap: every block of the
  arena is either free, held by a user or in the hands of exactly one thread, so no block is
  handed out twice and none is lost; the free blocks form the stack from the head; and a pop
  that has its token never sees the end marker and never reads outside the arena.
\<close>

theorem lf_pool_threads_safe:
  assumes "lreach s"
  shows "\<exists>xs. chain (lp_next (ls_pool s)) (head_idx (lp_head (ls_pool s))) xs \<and>
    mset xs + mset (ls_held s) + mset (owned (ls_pcs s)) = mset [0..<lp_capacity (ls_pool s)] \<and>
    distinct (xs @ ls_held s @ owned (ls_pcs s)) \<and>
    (\<forall>i < length (ls_pcs s). \<forall>old g. ls_pcs s ! i = LGetLoaded old g \<longrightarrow>
      head_idx old \<noteq> NO_IDX \<and> unat (head_idx old) < length (lp_next (ls_pool s)))"
proof -
  obtain xs where inv: "lsys_inv xs s" using lreach_inv[OF assms] by blast
  have "head_idx old \<noteq> NO_IDX \<and> unat (head_idx old) < length (lp_next (ls_pool s))"
    if "i < length (ls_pcs s)" "ls_pcs s ! i = LGetLoaded old g" for i old g
  proof -
    have "LGetLoaded old g \<in> set (ls_pcs s)" using that by (metis nth_mem)
    then have "unat (head_idx old) < lp_capacity (ls_pool s)" using inv by (auto simp: lsys_inv_def)
    then show ?thesis using inv by (auto simp: lsys_inv_def unsigned_minus_1_eq_mask mask_eq_exp_minus_1)
  qed
  then show ?thesis using inv lsys_indices(1)[OF inv] unfolding lsys_inv_def by blast
qed

definition lf_pool_fresh :: lf_pool where
  "lf_pool_fresh = \<lparr>lp_block_size = 12, real_block_size = 16, lp_capacity = 2, raw_memory = Some 1000,
     lp_next = [1, NO_IDX], lp_head = mk_head 0 0, lp_in_use = 0, blocks_sem = 2\<rparr>"

lemma lf_pool_fresh_init: "lf_pool_init (Some 1000) 0 (Some lf_pool_fresh) 12 2 = (Some lf_pool_fresh, Ok 0)"
proof -
  have "link_slots 0 1 (replicate 2 0) = [1, 0]"
    by (simp add: link_slots.simps[of 0] link_slots.simps[of "Suc 0"] numeral_2_eq_2)
  then show ?thesis by (simp add: lf_pool_init_def lf_pool_fresh_def sem_init_def lf_align_def Let_def)
qed

definition lsys_demo :: lsys where
  "lsys_demo = \<lparr>ls_pool = lf_pool_fresh\<lparr>blocks_sem := 1\<rparr>, ls_gen = 0, ls_held = [],
     ls_pcs = [LGetLoaded (mk_head 0 0) 0, LIdle]\<rparr>"

lemma lsys_demo_reach: "lreach lsys_demo"
proof -
  let ?s0 = "\<lparr>ls_pool = lf_pool_fresh, ls_gen = 0, ls_held = [], ls_pcs = replicate 2 LIdle\<rparr>"
  let ?s1 = "\<lparr>ls_pool = lf_pool_fresh\<lparr>blocks_sem := 1\<rparr>, ls_gen = 0, ls_held = [], ls_pcs = [LToken, LIdle]\<rparr>"
  have r0: "lreach ?s0" using lreach_init[OF lf_pool_fresh_init, of 2] by simp
  have "lstep ?s0 ?s1"
    using get_wait[of 0 ?s0 1] by (simp add: lf_pool_fresh_def sem_wait_def numeral_2_eq_2)
  moreover have "gens_fresh ?s1" by (simp add: gens_fresh_def)
  ultimately have r1: "lreach ?s1" using lreach_step[OF r0] by blast
  have "lstep ?s1 lsys_demo" using get_load[of 0 ?s1] by (simp add: lsys_demo_def lf_pool_fresh_def)
  moreover have "gens_fresh lsys_demo" by (simp add: gens_fresh_def lsys_demo_def)
  ultimately show ?thesis using lreach_step[OF r1] by blast
qed

theorem lf_pool_threads_safe_witness:
  "lreach lsys_demo \<and> unat (head_idx (mk_head 0 0)) < length (lp_next (ls_pool lsys_demo))"
proof -
  have "\<forall>i < length (ls_pcs lsys_demo). \<forall>old g. ls_pcs lsys_demo ! i = LGetLoaded old g \<longrightarrow>
      unat (head_idx old) < length (lp_next (ls_pool lsys_demo))"
    using lf_pool_threads_safe[OF lsys_demo_reach] by blast
  from this[rule_format, of 0 "mk_head 0 0" 0] show ?thesis
    using lsys_demo_reach by (simp add: lsys_demo_def)
qed

text \<open>
  The lock-free pool's contract for its users. Users of a pool made by
  \<^verbatim>\<open>lf_pool_init\<close> that only return what they hold, in any order of
  \<^verbatim>\<open>lf_pool_try_get\<close> and \<^verbatim>\<open>lf_pool_put\<close> calls, never fault; the
  payload pointers they hold are pairwise distinct and at most as many as the capacity. The
  index recovered by a put from the pointer is the index the get handed out.
\<close>

theorem lf_pool_users_safe:
  assumes "lf_pool_init alloc rc pp bs cap = (Some p, Ok 0)" "unat bs + 11 < 2 ^ 64"
  shows "\<exists>p' hs. pool_clients lf_get_step lf_put_step p [] ops = Some (p', hs) \<and>
    distinct hs \<and> lf_holds p' (set hs) \<and> length hs \<le> cap"
proof -
  have "lf_holds p (set [])" and cap: "lp_capacity p = cap" "cap \<noteq> 0"
    using lf_pool_init_rep[OF assms] assms(1)
    by (auto simp: lf_holds_def lf_pool_init_def split: option.splits if_splits)
  moreover have "allocs_ok (\<lambda>_ _. True) lf_get_step lf_put_step p [] ops"
    for p :: lf_pool
  proof -
    have "allocs_ok (\<lambda>_ _. True) lf_get_step lf_put_step p hs ops" for hs
      by (induction ops arbitrary: p hs) (auto split: option.splits pool_op.splits)
    then show ?thesis .
  qed
  ultimately show ?thesis using lfp.clients_safe[of p "[]" ops] by auto
qed

theorem lf_pool_users_safe_witness:
  "\<exists>p' hs. pool_clients lf_get_step lf_put_step lf_pool_fresh [] [Get (), Get (), Get (), Put 0] = Some (p', hs) \<and>
    distinct hs \<and> lf_holds p' (set hs) \<and> length hs \<le> 2"
  using lf_pool_users_safe[OF lf_pool_fresh_init, of "[Get (), Get (), Get (), Put 0]"] by simp

end
