(* ===== verification/Mem_Pool.thy ===== *)
theory Mem_Pool
  imports Pool_Spec Blocking_Queue
begin

text \<open>
  The memory pool of \<^verbatim>\<open>common/inc/pool.h\<close>. The memory is explicit: pools and
  block headers live at addresses, the free list is linked through the headers, and a payload
  pointer is the header's address plus the size of the header. First the Linux operations,
  cut at the points where the lock is released; then the contract of
  \<^verbatim>\<open>Pool_Spec\<close>; then any number of threads; then the Windows variants.
\<close>

section \<open>Memory\<close>

record pool_block_t =
  b_next :: "nat option"
  b_pool :: "nat option"

record pool_t =
  block_size :: u64
  p_cap :: nat
  total_blocks :: nat
  in_use :: int
  allocators :: nat
  free_list :: "nat option"

record pmem =
  m_pools :: "nat \<rightharpoonup> pool_t"
  m_blocks :: "nat \<rightharpoonup> pool_block_t"

text \<open>\<^verbatim>\<open>sizeof(pool_block_t)\<close> and the two pointer conversions around it.\<close>

abbreviation BLOCK_HDR :: nat where "BLOCK_HDR \<equiv> 16"

definition payload :: "nat \<Rightarrow> nat" where
  "payload b = b + BLOCK_HDR"

definition header :: "nat \<Rightarrow> nat" where
  "header ptr = ptr - BLOCK_HDR"

lemma header_payload [simp]: "header (payload b) = b"
  by (simp add: header_def payload_def)

lemma payload_inj [simp]: "payload a = payload b \<longleftrightarrow> a = b"
  by (simp add: payload_def)

text \<open>\<^verbatim>\<open>ALIGN_UP\<close> and the size passed to the allocator, in 64-bit arithmetic.\<close>

definition ALIGN_UP :: "u64 \<Rightarrow> u64 \<Rightarrow> u64" where
  "ALIGN_UP n align = (n + (align - 1)) AND NOT (align - 1)"

definition pool_alloc_size :: "u64 \<Rightarrow> u64" where
  "pool_alloc_size bs = ALIGN_UP (16 + bs) 64"

definition upd_pool :: "nat \<Rightarrow> (pool_t \<Rightarrow> pool_t) \<Rightarrow> pmem \<Rightarrow> pmem" where
  "upd_pool pid f m = m\<lparr>m_pools := (m_pools m)(pid := map_option f (m_pools m pid))\<rparr>"

definition upd_block :: "nat \<Rightarrow> (pool_block_t \<Rightarrow> pool_block_t) \<Rightarrow> pmem \<Rightarrow> pmem" where
  "upd_block b f m = m\<lparr>m_blocks := (m_blocks m)(b := map_option f (m_blocks m b))\<rparr>"

lemma upd_sel [simp]:
  "m_pools (upd_pool pid f m) = (m_pools m)(pid := map_option f (m_pools m pid))"
  "m_blocks (upd_pool pid f m) = m_blocks m"
  "m_pools (upd_block b g m) = m_pools m"
  "m_blocks (upd_block b g m) = (m_blocks m)(b := map_option g (m_blocks m b))"
  by (simp_all add: upd_pool_def upd_block_def)

section \<open>The operations (Linux)\<close>

text \<open>\<^verbatim>\<open>pool_init\<close>: the address the allocator returned and the two
  initialisations.\<close>

definition pool_init ::
  "nat option \<Rightarrow> int \<Rightarrow> int \<Rightarrow> u64 \<Rightarrow> nat \<Rightarrow> pmem \<Rightarrow> pmem \<times> nat cres" where
  "pool_init alloc mutex_rc cond_rc bs cap m =
     (if bs = 0 then (m, Err EINVAL)
      else if - 1 - 16 < bs then (m, Err EINVAL)
      else case alloc of None \<Rightarrow> (m, Err ENOMEM)
           | Some pid \<Rightarrow>
             if mutex_rc \<noteq> 0 then (m, Err ENOMEM)
             else if cond_rc \<noteq> 0 then (m, Err ENOMEM)
             else (m\<lparr>m_pools := (m_pools m)(pid \<mapsto>
                     \<lparr>block_size = bs, p_cap = cap, total_blocks = 0, in_use = 0, allocators = 0,
                      free_list = None\<rparr>)\<rparr>, Ok pid))"

text \<open>
  The first locked section of both gets: take from the free list, or find the pool exhausted,
  or reserve the right to allocate. Following a dangling pointer is a fault.
\<close>

datatype reserve = Taken nat | Exhausted | Reserved | Fault

definition pool_reserve :: "nat \<Rightarrow> pmem \<Rightarrow> pmem \<times> reserve" where
  "pool_reserve pid m =
     (case m_pools m pid of None \<Rightarrow> (m, Fault)
      | Some p \<Rightarrow>
     (case free_list p of
        Some b \<Rightarrow>
        (case m_blocks m b of None \<Rightarrow> (m, Fault)
         | Some blk \<Rightarrow>
           (upd_block b (b_pool_update (\<lambda>_. Some pid))
             (upd_pool pid (\<lambda>p. p\<lparr>free_list := b_next blk, in_use := in_use p + 1\<rparr>) m), Taken b))
      | None \<Rightarrow>
          if p_cap p \<noteq> 0 \<and> p_cap p \<le> total_blocks p then (m, Exhausted)
          else (upd_pool pid (\<lambda>p. p\<lparr>total_blocks := size_inc (total_blocks p)\<rparr>) m, Reserved)))"

text \<open>The second locked section, with the new block, and the one after a failed allocation.\<close>

definition pool_commit :: "nat \<Rightarrow> nat \<Rightarrow> pmem \<Rightarrow> pmem" where
  "pool_commit pid b m =
     upd_pool pid (\<lambda>p. p\<lparr>in_use := in_use p + 1\<rparr>)
       (m\<lparr>m_blocks := (m_blocks m)(b \<mapsto> \<lparr>b_next = None, b_pool = Some pid\<rparr>)\<rparr>)"

definition pool_rollback :: "nat \<Rightarrow> pmem \<Rightarrow> pmem" where
  "pool_rollback pid m = upd_pool pid (\<lambda>p. p\<lparr>total_blocks := size_dec (total_blocks p)\<rparr>) m"

text \<open>
  What a get meets: the results of its two lock and unlock pairs, what other threads do while
  it allocates without the lock, and the allocator's answer.
\<close>

record pool_os =
  os_lock1 :: mutex_os
  os_lock2 :: mutex_os
  os_gap :: "pmem \<Rightarrow> pmem"
  os_alloc :: "nat option"

definition pool_get_rest :: "pool_os \<Rightarrow> nat \<Rightarrow> pmem \<times> reserve \<Rightarrow> pmem \<times> nat cres" where
  "pool_get_rest os pid mr =
     (case mr of
        (m1, Fault) \<Rightarrow> (m1, Abort)
      | (m1, Taken b) \<Rightarrow> if unlock_rc (os_lock1 os) \<noteq> 0 then (m1, Abort) else (m1, Ok (payload b))
      | (m1, Exhausted) \<Rightarrow> if unlock_rc (os_lock1 os) \<noteq> 0 then (m1, Abort) else (m1, Err EAGAIN)
      | (m1, Reserved) \<Rightarrow>
          if unlock_rc (os_lock1 os) \<noteq> 0 then (m1, Abort)
          else let m2 = os_gap os m1 in
            case os_alloc os of
              None \<Rightarrow> (pool_rollback pid m2, Err ENOMEM)
            | Some b \<Rightarrow>
                if lock_rc (os_lock2 os) \<noteq> 0 then (m2, Abort)
                else let m3 = pool_commit pid b m2 in
                  if unlock_rc (os_lock2 os) \<noteq> 0 then (m3, Abort) else (m3, Ok (payload b)))"

definition pool_try_get :: "pool_os \<Rightarrow> nat option \<Rightarrow> pmem \<Rightarrow> pmem \<times> nat cres" where
  "pool_try_get os pp m =
     (case pp of None \<Rightarrow> (m, Err EINVAL)
      | Some pid \<Rightarrow>
        if lock_rc (os_lock1 os) \<noteq> 0 then (m, Abort)
        else pool_get_rest os pid (pool_reserve pid m))"

text \<open>
  The waiting get. Each element of the list is one return of \<^verbatim>\<open>pthread_cond_wait\<close>:
  its result and what other threads did meanwhile; at the end of the list the call still
  waits.
\<close>

fun pool_wait_loop ::
  "(int \<times> (pmem \<Rightarrow> pmem)) list \<Rightarrow> pool_os \<Rightarrow> nat \<Rightarrow> pmem \<Rightarrow> pmem \<times> nat cres" where
  "pool_wait_loop waits os pid m =
     (case pool_reserve pid m of
        (m1, Exhausted) \<Rightarrow>
          (case waits of
             [] \<Rightarrow> (m1, Block)
           | (rc, env) # waits' \<Rightarrow>
               if rc \<noteq> 0 then (m1, Abort) else pool_wait_loop waits' os pid (env m1))
      | mr \<Rightarrow> pool_get_rest os pid mr)"

declare pool_wait_loop.simps [simp del]

definition pool_wait_get ::
  "(int \<times> (pmem \<Rightarrow> pmem)) list \<Rightarrow> pool_os \<Rightarrow> nat option \<Rightarrow> pmem \<Rightarrow> pmem \<times> nat cres" where
  "pool_wait_get waits os pp m =
     (case pp of None \<Rightarrow> (m, Err EINVAL)
      | Some pid \<Rightarrow>
        if lock_rc (os_lock1 os) \<noteq> 0 then (m, Abort) else pool_wait_loop waits os pid m)"

definition pool_put :: "mutex_os \<Rightarrow> int \<Rightarrow> nat option \<Rightarrow> pmem \<Rightarrow> pmem \<times> unit cres" where
  "pool_put os signal_rc ptr m =
     (case ptr of None \<Rightarrow> (m, Ok ())
      | Some v \<Rightarrow>
        let b = header v in
     (case m_blocks m b of None \<Rightarrow> (m, Abort)
      | Some blk \<Rightarrow>
     (case b_pool blk of None \<Rightarrow> (m, Abort)
      | Some pid \<Rightarrow>
     (case m_pools m pid of None \<Rightarrow> (m, Abort)
      | Some p \<Rightarrow>
        if lock_rc os \<noteq> 0 then (m, Abort)
        else let m1 = upd_pool pid (\<lambda>p. p\<lparr>in_use := in_use p - 1\<rparr>) m in
          if in_use p - 1 < 0 then (m1, Abort)
          else let m2 = upd_pool pid (free_list_update (\<lambda>_. Some b))
                          (upd_block b (b_next_update (\<lambda>_. free_list p)) m1) in
            if signal_rc \<noteq> 0 then (m2, Abort)
            else if unlock_rc os \<noteq> 0 then (m2, Abort)
            else (m2, Ok ())))))"

text \<open>
  The loop that frees the list, with fuel: \<^const>\<open>None\<close> when it runs out or follows a
  dangling pointer.
\<close>

fun free_chain :: "nat \<Rightarrow> (nat \<rightharpoonup> pool_block_t) \<Rightarrow> nat option \<Rightarrow> (nat \<rightharpoonup> pool_block_t) option" where
  "free_chain n h None = Some h"
| "free_chain 0 h (Some b) = None"
| "free_chain (Suc n) h (Some b) =
     (case h b of None \<Rightarrow> None | Some blk \<Rightarrow> free_chain n (h(b := None)) (b_next blk))"

definition pool_destroy ::
  "mutex_os \<Rightarrow> int \<Rightarrow> int \<Rightarrow> nat option \<Rightarrow> pmem \<Rightarrow> pmem \<times> int cres" where
  "pool_destroy os cond_rc mutex_rc pp m =
     (case pp of None \<Rightarrow> (m, Err EINVAL)
      | Some pid \<Rightarrow>
     (case m_pools m pid of None \<Rightarrow> (m, Abort)
      | Some p \<Rightarrow>
        if lock_rc os \<noteq> 0 then (m, Abort)
        else if unlock_rc os \<noteq> 0 then (m, Abort)
        else if cond_rc \<noteq> 0 then (m, Abort)
        else if mutex_rc \<noteq> 0 then (m, Abort)
        else case free_chain (total_blocks p) (m_blocks m) (free_list p) of
               None \<Rightarrow> (m, Abort)
             | Some h \<Rightarrow> (m\<lparr>m_pools := (m_pools m)(pid := None), m_blocks := h\<rparr>, Ok 0)))"

definition pool_get_used :: "mutex_os \<Rightarrow> nat option \<Rightarrow> pmem \<Rightarrow> int cres" where
  "pool_get_used os pp m =
     (case pp of None \<Rightarrow> Err EINVAL
      | Some pid \<Rightarrow>
     (case m_pools m pid of None \<Rightarrow> Abort
      | Some p \<Rightarrow>
        if lock_rc os \<noteq> 0 then Abort else if unlock_rc os \<noteq> 0 then Abort else Ok (in_use p)))"

section \<open>The free list and the invariant\<close>

text \<open>The blocks reached from a pointer through the headers.\<close>

fun fpath :: "(nat \<rightharpoonup> pool_block_t) \<Rightarrow> nat option \<Rightarrow> nat list \<Rightarrow> bool" where
  "fpath h p [] \<longleftrightarrow> p = None"
| "fpath h p (b # bs) \<longleftrightarrow> p = Some b \<and> (\<exists>blk. h b = Some blk \<and> fpath h (b_next blk) bs)"

lemma fpath_cong:
  "fpath h p bs \<Longrightarrow> (\<And>b. b \<in> set bs \<Longrightarrow> map_option b_next (h' b) = map_option b_next (h b)) \<Longrightarrow> fpath h' p bs"
proof (induction bs arbitrary: p)
  case Nil
  then show ?case by simp
next
  case (Cons b bs)
  then obtain blk where blk: "p = Some b" "h b = Some blk" "fpath h (b_next blk) bs" by auto
  moreover obtain blk' where "h' b = Some blk'" "b_next blk' = b_next blk"
    using Cons.prems(2)[of b] blk by auto
  moreover have "fpath h' (b_next blk) bs" using Cons.IH blk Cons.prems(2) by simp
  ultimately show ?case by simp
qed

text \<open>
  The invariant of one pool, with the blocks \<^term>\<open>U\<close> that are checked out and
  \<^term>\<open>n\<close> threads between the two locked sections of a get: the free list is a list of
  live blocks nobody holds, the counters count what they say, and the cap is kept.
\<close>

definition pool_rep :: "nat \<Rightarrow> nat \<Rightarrow> nat set \<Rightarrow> pmem \<Rightarrow> pool_t \<Rightarrow> nat list \<Rightarrow> bool" where
  "pool_rep pid n U m p fl \<longleftrightarrow>
     m_pools m pid = Some p \<and> fpath (m_blocks m) (free_list p) fl \<and> distinct fl \<and>
     finite U \<and> set fl \<inter> U = {} \<and>
     (\<forall>b\<in>U. \<exists>blk. m_blocks m b = Some blk \<and> b_pool blk = Some pid) \<and>
     in_use p = int (card U) \<and> total_blocks p = length fl + card U + n \<and>
     total_blocks p \<le> SIZE_MAX \<and> (p_cap p \<noteq> 0 \<longrightarrow> total_blocks p \<le> p_cap p) \<and>
     p_cap p \<le> SIZE_MAX"

definition pool_inv :: "nat \<Rightarrow> nat \<Rightarrow> nat set \<Rightarrow> pmem \<Rightarrow> bool" where
  "pool_inv pid n U m \<longleftrightarrow> (\<exists>p fl. pool_rep pid n U m p fl)"

definition pool_limit :: "nat \<Rightarrow> pmem \<Rightarrow> nat" where
  "pool_limit pid m = (case m_pools m pid of None \<Rightarrow> 0 | Some p \<Rightarrow> p_cap p)"

lemma pool_repD:
  assumes "pool_rep pid n U m p fl"
  shows "m_pools m pid = Some p" "fpath (m_blocks m) (free_list p) fl" "distinct fl"
    "finite U" "set fl \<inter> U = {}"
    "\<forall>b\<in>U. \<exists>blk. m_blocks m b = Some blk \<and> b_pool blk = Some pid"
    "in_use p = int (card U)" "total_blocks p = length fl + card U + n" "total_blocks p \<le> SIZE_MAX"
    "p_cap p \<noteq> 0 \<longrightarrow> total_blocks p \<le> p_cap p" "p_cap p \<le> SIZE_MAX"
  using assms by (auto simp: pool_rep_def)

lemma fpath_live: "fpath h p bs \<Longrightarrow> b \<in> set bs \<Longrightarrow> h b \<noteq> None"
  by (induction bs arbitrary: p) auto

text \<open>One locked section after the other keeps the invariant.\<close>

lemma pool_reserve_taken:
  assumes inv: "pool_inv pid n U m" and r: "pool_reserve pid m = (m', Taken b)"
  shows "b \<notin> U \<and> pool_inv pid n (insert b U) m' \<and> pool_limit pid m' = pool_limit pid m"
proof -
  from inv obtain p fl where rep: "pool_rep pid n U m p fl" by (auto simp: pool_inv_def)
  note p = pool_repD[OF rep]
  from r p(1) have fl: "free_list p = Some b"
    by (auto simp: pool_reserve_def split: option.splits if_splits)
  then obtain fl' where fl': "fl = b # fl'" using p(2) by (cases fl) auto
  then obtain blk where blk: "m_blocks m b = Some blk" "fpath (m_blocks m) (b_next blk) fl'"
    using p(2) by auto
  have m': "m' = upd_block b (b_pool_update (\<lambda>_. Some pid))
      (upd_pool pid (\<lambda>p. p\<lparr>free_list := b_next blk, in_use := in_use p + 1\<rparr>) m)"
    using r p(1) fl blk(1) by (simp add: pool_reserve_def)
  have "fpath (m_blocks m') (b_next blk) fl'"
    using blk(2) by (rule fpath_cong) (simp add: m' blk(1))
  moreover have b: "b \<notin> U" using p(5) fl' by simp
  moreover have "\<exists>blk. m_blocks m' c = Some blk \<and> b_pool blk = Some pid" if "c \<in> insert b U" for c
    using that p(6) blk(1) by (auto simp: m')
  ultimately have "pool_inv pid n (insert b U) m'"
    unfolding pool_inv_def pool_rep_def using p fl' by (intro exI[of _ "p\<lparr>free_list := b_next blk, in_use := in_use p + 1\<rparr>"]
        exI[of _ fl']) (auto simp: m')
  then show ?thesis using b p(1) by (simp add: pool_limit_def m')
qed

lemma pool_reserve_exhausted:
  assumes "pool_reserve pid m = (m', Exhausted)"
  shows "m' = m"
  using assms by (auto simp: pool_reserve_def split: option.splits if_splits)

lemma pool_reserve_reserved:
  assumes inv: "pool_inv pid n U m" and r: "pool_reserve pid m = (m', Reserved)"
    and room: "\<And>p. m_pools m pid = Some p \<Longrightarrow> total_blocks p < SIZE_MAX"
  shows "pool_inv pid (Suc n) U m' \<and> pool_limit pid m' = pool_limit pid m \<and> m_blocks m' = m_blocks m"
proof -
  from inv obtain p fl where rep: "pool_rep pid n U m p fl" by (auto simp: pool_inv_def)
  note p = pool_repD[OF rep]
  from r p(1) have m': "m' = upd_pool pid (\<lambda>p. p\<lparr>total_blocks := size_inc (total_blocks p)\<rparr>) m"
    and lt: "p_cap p \<noteq> 0 \<Longrightarrow> total_blocks p < p_cap p"
    by (auto simp: pool_reserve_def split: option.splits if_splits)
  have inc: "size_inc (total_blocks p) = Suc (total_blocks p)" using room[OF p(1)] by simp
  have "pool_inv pid (Suc n) U m'"
    unfolding pool_inv_def pool_rep_def using p lt inc room[OF p(1)]
    by (intro exI[of _ "p\<lparr>total_blocks := size_inc (total_blocks p)\<rparr>"] exI[of _ fl]) (auto simp: m' Suc_le_eq)
  then show ?thesis using p(1) by (simp add: pool_limit_def m')
qed

lemma pool_commit_inv:
  assumes inv: "pool_inv pid (Suc n) U m" and fresh: "m_blocks m b = None"
  shows "b \<notin> U \<and> pool_inv pid n (insert b U) (pool_commit pid b m) \<and>
    pool_limit pid (pool_commit pid b m) = pool_limit pid m"
proof -
  from inv obtain p fl where rep: "pool_rep pid (Suc n) U m p fl" by (auto simp: pool_inv_def)
  note p = pool_repD[OF rep]
  have b: "b \<notin> U" "b \<notin> set fl" using p(6) fpath_live[OF p(2), of b] fresh by auto
  let ?m = "pool_commit pid b m"
  have "fpath (m_blocks ?m) (free_list p) fl"
    using p(2) by (rule fpath_cong) (use b(2) in \<open>auto simp: pool_commit_def\<close>)
  moreover have "\<exists>blk. m_blocks ?m c = Some blk \<and> b_pool blk = Some pid" if "c \<in> insert b U" for c
    using that p(6) by (auto simp: pool_commit_def)
  ultimately have "pool_inv pid n (insert b U) ?m"
    unfolding pool_inv_def pool_rep_def using p b
    by (intro exI[of _ "p\<lparr>in_use := in_use p + 1\<rparr>"] exI[of _ fl]) (auto simp: pool_commit_def)
  then show ?thesis using b p(1) by (simp add: pool_limit_def pool_commit_def)
qed

lemma pool_rollback_inv:
  assumes inv: "pool_inv pid (Suc n) U m"
  shows "pool_inv pid n U (pool_rollback pid m) \<and> pool_limit pid (pool_rollback pid m) = pool_limit pid m"
proof -
  from inv obtain p fl where rep: "pool_rep pid (Suc n) U m p fl" by (auto simp: pool_inv_def)
  note p = pool_repD[OF rep]
  have dec: "size_dec (total_blocks p) = total_blocks p - 1" using p(8,9) by (intro size_dec_eq) auto
  have "pool_inv pid n U (pool_rollback pid m)"
    unfolding pool_inv_def pool_rep_def using p dec
    by (intro exI[of _ "p\<lparr>total_blocks := size_dec (total_blocks p)\<rparr>"] exI[of _ fl])
      (auto simp: pool_rollback_def)
  then show ?thesis using p(1) by (simp add: pool_limit_def pool_rollback_def)
qed

lemma pool_put_inv:
  assumes inv: "pool_inv pid n U m" and b: "b \<in> U"
  shows "\<exists>m'. pool_put mutex_ok 0 (Some (payload b)) m = (m', Ok ()) \<and> pool_inv pid n (U - {b}) m' \<and>
    pool_limit pid m' = pool_limit pid m \<and> (\<exists>p'. m_pools m' pid = Some p' \<and> free_list p' = Some b)"
proof -
  from inv obtain p fl where rep: "pool_rep pid n U m p fl" by (auto simp: pool_inv_def)
  note p = pool_repD[OF rep]
  obtain blk where blk: "m_blocks m b = Some blk" "b_pool blk = Some pid" using p(6) b by blast
  have pos: "0 < card U" using b p(4) card_gt_0_iff by blast
  let ?m = "upd_pool pid (free_list_update (\<lambda>_. Some b)) (upd_block b (b_next_update (\<lambda>_. free_list p))
      (upd_pool pid (\<lambda>p. p\<lparr>in_use := in_use p - 1\<rparr>) m))"
  have step: "pool_put mutex_ok 0 (Some (payload b)) m = (?m, Ok ())"
    using blk p(1,7) pos by (simp add: pool_put_def mutex_ok_def)
  have b_fl: "b \<notin> set fl" using p(5) b by blast
  have "fpath (m_blocks ?m) (free_list p) fl"
    using p(2) by (rule fpath_cong) (use b_fl in auto)
  then have "fpath (m_blocks ?m) (Some b) (b # fl)" using blk(1) by simp
  moreover have "\<exists>blk. m_blocks ?m c = Some blk \<and> b_pool blk = Some pid" if "c \<in> U - {b}" for c
    using that p(6) by auto
  moreover have "card (U - {b}) = card U - 1" using b p(4) by simp
  ultimately have "pool_inv pid n (U - {b}) ?m"
    unfolding pool_inv_def pool_rep_def using p b_fl pos
    by (intro exI[of _ "p\<lparr>in_use := in_use p - 1, free_list := Some b\<rparr>"] exI[of _ "b # fl"]) auto
  then show ?thesis using step p(1) by (simp add: pool_limit_def)
qed

section \<open>The contract\<close>

text \<open>
  What a get by one thread at a time relies on: the mutex calls succeed, nothing happens while
  it allocates, the allocator returns no live block, and the counter of blocks has room.
\<close>

definition pool_env_ok :: "nat \<Rightarrow> pool_os \<Rightarrow> pmem \<Rightarrow> bool" where
  "pool_env_ok pid os m \<longleftrightarrow>
     os_lock1 os = mutex_ok \<and> os_lock2 os = mutex_ok \<and> os_gap os = id \<and>
     (case os_alloc os of None \<Rightarrow> True | Some b \<Rightarrow> m_blocks m b = None) \<and>
     (case m_pools m pid of None \<Rightarrow> True | Some p \<Rightarrow> total_blocks p < SIZE_MAX)"

lemma pool_rollback_reserved:
  assumes "pool_reserve pid m = (m', Reserved)" "m_pools m pid = Some p" "total_blocks p < SIZE_MAX"
  shows "pool_rollback pid m' = m"
proof -
  have m': "m' = upd_pool pid (\<lambda>p. p\<lparr>total_blocks := size_inc (total_blocks p)\<rparr>) m"
    using assms(1,2) by (auto simp: pool_reserve_def split: option.splits if_splits)
  have "(m_pools m)(pid \<mapsto> p) = m_pools m" using assms(2) by auto
  then show ?thesis using assms(2,3)
    by (simp add: m' pool_rollback_def upd_pool_def)
qed

lemma pool_reserve_cases:
  assumes "pool_inv pid n U m"
  obtains b m' where "pool_reserve pid m = (m', Taken b)"
  | "pool_reserve pid m = (m, Exhausted)" "pool_limit pid m \<noteq> 0" "card U + n = pool_limit pid m"
  | m' where "pool_reserve pid m = (m', Reserved)" "pool_limit pid m = 0 \<or> card U + n < pool_limit pid m"
proof -
  from assms obtain p fl where rep: "pool_rep pid n U m p fl" by (auto simp: pool_inv_def)
  note p = pool_repD[OF rep]
  show thesis
  proof (cases fl)
    case Nil
    then show thesis using p that(2,3) by (cases "p_cap p \<noteq> 0 \<and> p_cap p \<le> total_blocks p")
        (auto simp: pool_reserve_def pool_limit_def)
  next
    case (Cons b fl')
    then show thesis using p that(1) by (auto simp: pool_reserve_def)
  qed
qed

definition pool_holds :: "nat \<Rightarrow> pmem \<Rightarrow> nat set \<Rightarrow> bool" where
  "pool_holds pid m P \<longleftrightarrow> (\<exists>U. P = payload ` U \<and> pool_inv pid 0 U m)"

lemma pool_holds_insert:
  "pool_inv pid 0 (insert b U) m \<Longrightarrow> pool_holds pid m (insert (payload b) (payload ` U))"
  unfolding pool_holds_def by (rule exI[of _ "insert b U"]) simp

lemma pool_holds_remove:
  "pool_inv pid 0 (U - {b}) m \<Longrightarrow> pool_holds pid m (payload ` U - {payload b})"
  unfolding pool_holds_def by (rule exI[of _ "U - {b}"]) auto

text \<open>All the outcomes of a get by one thread.\<close>

lemma pool_try_get_spec:
  assumes "pool_holds pid m P" "pool_env_ok pid os m"
  shows "case pool_try_get os (Some pid) m of
      (m', Ok v) \<Rightarrow> v \<notin> P \<and> pool_holds pid m' (insert v P) \<and> pool_limit pid m' = pool_limit pid m
    | (m', Err e) \<Rightarrow> m' = m \<and>
        (if pool_limit pid m \<noteq> 0 \<and> card P = pool_limit pid m then e = EAGAIN
         else e = ENOMEM \<and> os_alloc os = None)
    | _ \<Rightarrow> False"
proof -
  obtain U where P: "P = payload ` U" and inv: "pool_inv pid 0 U m"
    using assms(1) by (auto simp: pool_holds_def)
  obtain p where p: "m_pools m pid = Some p" using inv by (auto simp: pool_inv_def pool_rep_def)
  have sz: "total_blocks p < SIZE_MAX" using assms(2) p by (simp add: pool_env_ok_def)
  have card: "card P = card U" using P by (simp add: card_image inj_on_def)
  note os = assms(2)[unfolded pool_env_ok_def mutex_ok_def]
  show ?thesis using inv
  proof (cases rule: pool_reserve_cases)
    case (1 b m')
    then show ?thesis using pool_reserve_taken[OF inv 1] os P
      by (auto simp: pool_try_get_def pool_get_rest_def intro: pool_holds_insert)
  next
    case 2
    then show ?thesis using os card by (simp add: pool_try_get_def pool_get_rest_def)
  next
    case (3 m')
    have res: "pool_inv pid (Suc 0) U m'" "pool_limit pid m' = pool_limit pid m" "m_blocks m' = m_blocks m"
      using pool_reserve_reserved[OF inv 3(1)] p sz by auto
    show ?thesis
    proof (cases "os_alloc os")
      case None
      then show ?thesis using 3 os card pool_rollback_reserved[OF 3(1) p sz]
        by (auto simp: pool_try_get_def pool_get_rest_def)
    next
      case (Some b)
      then have "m_blocks m' b = None" using os res(3) by simp
      then show ?thesis using pool_commit_inv[OF res(1)] res(2) 3 os Some P
        by (auto simp: pool_try_get_def pool_get_rest_def intro: pool_holds_insert)
    qed
  qed
qed

definition pool_get_step :: "nat \<Rightarrow> pool_os \<Rightarrow> pmem \<Rightarrow> nat option \<times> pmem" where
  "pool_get_step pid os m =
     (case pool_try_get os (Some pid) m of (m', Ok v) \<Rightarrow> (Some v, m') | (m', _) \<Rightarrow> (None, m'))"

definition pool_put_step :: "nat \<Rightarrow> pmem \<Rightarrow> pmem option" where
  "pool_put_step v m = (case pool_put mutex_ok 0 (Some v) m of (m', Ok _) \<Rightarrow> Some m' | _ \<Rightarrow> None)"

interpretation mp: block_pool "pool_holds pid" "pool_limit pid" "pool_env_ok pid" "pool_get_step pid"
  pool_put_step for pid
proof unfold_locales
  fix m m' os P and v :: nat
  assume h: "pool_holds pid m P" and ok: "pool_env_ok pid os m"
  note spec = pool_try_get_spec[OF h ok]
  show "v \<notin> P \<and> pool_holds pid m' (insert v P) \<and> pool_limit pid m' = pool_limit pid m"
    if "pool_get_step pid os m = (Some v, m')"
    using spec that by (auto simp: pool_get_step_def split: prod.splits cres.splits)
  show "pool_holds pid m' P \<and> pool_limit pid m' = pool_limit pid m"
    if "pool_get_step pid os m = (None, m')"
    using spec that h by (auto simp: pool_get_step_def split: prod.splits cres.splits)
next
  fix m P v
  assume h: "pool_holds pid m P" and "v \<in> P"
  then obtain U b where U: "P = payload ` U" "pool_inv pid 0 U m" "b \<in> U" "v = payload b"
    by (auto simp: pool_holds_def)
  obtain m' where "pool_put mutex_ok 0 (Some v) m = (m', Ok ())" "pool_inv pid 0 (U - {b}) m'"
    "pool_limit pid m' = pool_limit pid m"
    using pool_put_inv[OF U(2,3)] U(4) by blast
  then show "\<exists>m'. pool_put_step v m = Some m' \<and> pool_holds pid m' (P - {v}) \<and>
      pool_limit pid m' = pool_limit pid m"
    using pool_holds_remove[of pid U b m'] U(1,4) by (simp add: pool_put_step_def)
next
  fix m P
  assume "pool_holds pid m P" "pool_limit pid m \<noteq> 0"
  then show "card P \<le> pool_limit pid m"
    by (auto simp: pool_holds_def pool_inv_def pool_rep_def pool_limit_def card_image inj_on_def)
qed

section \<open>Destruction\<close>

lemma free_chain_path:
  "fpath h p fl \<Longrightarrow> distinct fl \<Longrightarrow> length fl \<le> n \<Longrightarrow>
   free_chain n h p = Some (\<lambda>b. if b \<in> set fl then None else h b)"
proof (induction fl arbitrary: h p n)
  case Nil
  then show ?case by simp
next
  case (Cons b fl)
  then obtain blk k where b: "p = Some b" "h b = Some blk" "fpath h (b_next blk) fl" "n = Suc k"
    by (cases n) auto
  have path: "fpath (h(b := None)) (b_next blk) fl"
    using b(3) by (rule fpath_cong) (use Cons.prems(2) in auto)
  have "distinct fl" "length fl \<le> k" using Cons.prems(2,3) b(4) by auto
  from Cons.IH[OF path this] have "free_chain k (h(b := None)) (b_next blk) =
      Some (\<lambda>c. if c \<in> set fl then None else (h(b := None)) c)" .
  then show ?case using b by (auto simp: fun_eq_iff)
qed

section \<open>Any number of threads\<close>

text \<open>
  The state of the threads: how many are between the two locked sections of a get, which
  blocks are checked out and how many threads sleep on the condition. A put signals once.
\<close>

record pool_sys =
  ps_mem :: pmem
  ps_alloc :: nat
  ps_used :: "nat set"
  ps_sleep :: nat

inductive pool_step :: "nat \<Rightarrow> pool_sys \<Rightarrow> pool_sys \<Rightarrow> bool" for pid where
  take: "pool_reserve pid (ps_mem s) = (m, Taken b) \<Longrightarrow>
     pool_step pid s (s\<lparr>ps_mem := m, ps_used := insert b (ps_used s)\<rparr>)"
| reserve: "pool_reserve pid (ps_mem s) = (m, Reserved) \<Longrightarrow>
     (\<And>p. m_pools (ps_mem s) pid = Some p \<Longrightarrow> total_blocks p < SIZE_MAX) \<Longrightarrow>
     pool_step pid s (s\<lparr>ps_mem := m, ps_alloc := Suc (ps_alloc s)\<rparr>)"
| commit: "ps_alloc s = Suc n \<Longrightarrow> m_blocks (ps_mem s) b = None \<Longrightarrow>
     pool_step pid s (s\<lparr>ps_mem := pool_commit pid b (ps_mem s), ps_alloc := n,
                        ps_used := insert b (ps_used s)\<rparr>)"
| rollback: "ps_alloc s = Suc n \<Longrightarrow>
     pool_step pid s (s\<lparr>ps_mem := pool_rollback pid (ps_mem s), ps_alloc := n\<rparr>)"
| sleep: "pool_reserve pid (ps_mem s) = (m, Exhausted) \<Longrightarrow>
     pool_step pid s (s\<lparr>ps_sleep := Suc (ps_sleep s)\<rparr>)"
| put: "b \<in> ps_used s \<Longrightarrow> pool_put mutex_ok 0 (Some (payload b)) (ps_mem s) = (m, Ok ()) \<Longrightarrow>
     pool_step pid s (s\<lparr>ps_mem := m, ps_used := ps_used s - {b}, ps_sleep := ps_sleep s - 1\<rparr>)"

inductive pool_reach :: "nat \<Rightarrow> pool_sys \<Rightarrow> bool" for pid where
  pool_start: "pool_init (Some pid) 0 0 bs cap m0 = (m, Ok pid) \<Longrightarrow> cap \<le> SIZE_MAX \<Longrightarrow>
     pool_reach pid \<lparr>ps_mem = m, ps_alloc = 0, ps_used = {}, ps_sleep = 0\<rparr>"
| pool_next: "pool_reach pid s \<Longrightarrow> pool_step pid s t \<Longrightarrow> pool_reach pid t"

lemma pool_init_inv:
  "pool_init (Some pid) 0 0 bs cap m0 = (m, Ok pid) \<Longrightarrow> cap \<le> SIZE_MAX \<Longrightarrow>
   pool_inv pid 0 {} m \<and> pool_limit pid m = cap"
  by (auto simp: pool_init_def pool_inv_def pool_rep_def pool_limit_def split: if_splits intro!: exI[of _ "[]"])

lemma pool_step_inv:
  assumes "pool_step pid s t" "pool_inv pid (ps_alloc s) (ps_used s) (ps_mem s)"
  shows "pool_inv pid (ps_alloc t) (ps_used t) (ps_mem t)"
  using assms
proof (induction rule: pool_step.induct)
  case (take s m b)
  then show ?case using pool_reserve_taken by simp
next
  case (reserve s m)
  then show ?case using pool_reserve_reserved[of pid "ps_alloc s" "ps_used s" "ps_mem s" m] by simp
next
  case (commit s n b)
  then show ?case using pool_commit_inv by simp
next
  case (rollback s n)
  then show ?case using pool_rollback_inv by simp
next
  case (sleep s m)
  then show ?case by simp
next
  case (put b s m)
  then show ?case using pool_put_inv[OF put(3,1)] by auto
qed

lemma pool_reach_inv: "pool_reach pid s \<Longrightarrow> pool_inv pid (ps_alloc s) (ps_used s) (ps_mem s)"
proof (induction rule: pool_reach.induct)
  case (pool_start bs cap m0 m)
  then show ?case using pool_init_inv by simp
next
  case (pool_next s t)
  then show ?case using pool_step_inv by blast
qed

section \<open>The Windows variants\<close>

text \<open>
  Critical sections cannot fail. A get counts itself in \<^const>\<open>allocators\<close> while it
  allocates, and checks the cap again afterwards. Error numbers are those of
  \<^verbatim>\<open>winerror.h\<close>.
\<close>

abbreviation ERROR_NOT_ENOUGH_MEMORY :: int where "ERROR_NOT_ENOUGH_MEMORY \<equiv> 8"
abbreviation ERROR_INVALID_PARAMETER :: int where "ERROR_INVALID_PARAMETER \<equiv> 87"
abbreviation ERROR_BUSY :: int where "ERROR_BUSY \<equiv> 170"

definition win_pool_init :: "nat option \<Rightarrow> u64 \<Rightarrow> nat \<Rightarrow> pmem \<Rightarrow> pmem \<times> nat cres" where
  "win_pool_init alloc bs cap m =
     (if bs = 0 then (m, Err ERROR_INVALID_PARAMETER)
      else if - 1 - 16 < bs then (m, Err ERROR_INVALID_PARAMETER)
      else case alloc of None \<Rightarrow> (m, Err ERROR_NOT_ENOUGH_MEMORY)
           | Some pid \<Rightarrow>
             (m\<lparr>m_pools := (m_pools m)(pid \<mapsto>
                \<lparr>block_size = bs, p_cap = cap, total_blocks = 0, in_use = 0, allocators = 0,
                 free_list = None\<rparr>)\<rparr>, Ok pid))"

text \<open>The first section of a get, and the section after the allocation. The second returns
  \<^const>\<open>None\<close> when it finds the cap reached and has freed the block again.\<close>

definition win_pool_enter :: "nat \<Rightarrow> pmem \<Rightarrow> pmem \<times> reserve" where
  "win_pool_enter pid m =
     (case m_pools m pid of None \<Rightarrow> (m, Fault)
      | Some p \<Rightarrow>
     (case free_list p of
        Some b \<Rightarrow>
        (case m_blocks m b of None \<Rightarrow> (m, Fault)
         | Some blk \<Rightarrow>
           (upd_block b (b_pool_update (\<lambda>_. Some pid))
             (upd_pool pid (\<lambda>p. p\<lparr>free_list := b_next blk, in_use := in_use p + 1\<rparr>) m), Taken b))
      | None \<Rightarrow>
          if p_cap p \<noteq> 0 \<and> p_cap p \<le> total_blocks p then (m, Exhausted)
          else (upd_pool pid (\<lambda>p. p\<lparr>allocators := size_inc (allocators p)\<rparr>) m, Reserved)))"

definition win_pool_leave_alloc :: "nat \<Rightarrow> pmem \<Rightarrow> pmem" where
  "win_pool_leave_alloc pid m = upd_pool pid (\<lambda>p. p\<lparr>allocators := size_dec (allocators p)\<rparr>) m"

definition win_pool_add :: "nat \<Rightarrow> nat \<Rightarrow> pmem \<Rightarrow> pmem option" where
  "win_pool_add pid b m =
     (case m_pools m pid of None \<Rightarrow> None
      | Some p \<Rightarrow>
        if p_cap p \<noteq> 0 \<and> p_cap p \<le> total_blocks p then None
        else Some (upd_pool pid
               (\<lambda>p. p\<lparr>total_blocks := size_inc (total_blocks p), in_use := in_use p + 1\<rparr>)
               (m\<lparr>m_blocks := (m_blocks m)(b \<mapsto> \<lparr>b_next = None, b_pool = Some pid\<rparr>)\<rparr>)))"

definition win_pool_try_get ::
  "(pmem \<Rightarrow> pmem) \<Rightarrow> nat option \<Rightarrow> nat option \<Rightarrow> pmem \<Rightarrow> pmem \<times> nat cres" where
  "win_pool_try_get gap alloc pp m =
     (case pp of None \<Rightarrow> (m, Err ERROR_INVALID_PARAMETER)
      | Some pid \<Rightarrow>
     (case win_pool_enter pid m of
        (m1, Fault) \<Rightarrow> (m1, Abort)
      | (m1, Taken b) \<Rightarrow> (m1, Ok (payload b))
      | (m1, Exhausted) \<Rightarrow> (m1, Err ERROR_BUSY)
      | (m1, Reserved) \<Rightarrow>
          let m2 = win_pool_leave_alloc pid (gap m1) in
          (case alloc of None \<Rightarrow> (m2, Err ERROR_NOT_ENOUGH_MEMORY)
           | Some b \<Rightarrow>
             (case win_pool_add pid b m2 of None \<Rightarrow> (m2, Err ERROR_BUSY)
              | Some m3 \<Rightarrow> (m3, Ok (payload b))))))"

text \<open>
  The waiting get goes round on a failed allocation and on a lost race too. An element of the
  list is one round: what others do before the section after the allocation, the allocator's
  answer, and what others do in the sleep that may follow.
\<close>

fun win_pool_wait_get ::
  "((pmem \<Rightarrow> pmem) \<times> nat option \<times> (pmem \<Rightarrow> pmem)) list \<Rightarrow> nat option \<Rightarrow> pmem \<Rightarrow> pmem \<times> nat cres" where
  "win_pool_wait_get rounds pp m =
     (case pp of None \<Rightarrow> (m, Err ERROR_INVALID_PARAMETER)
      | Some pid \<Rightarrow>
     (case rounds of [] \<Rightarrow> (m, Block)
      | (gap, alloc, wake) # rounds' \<Rightarrow>
     (case win_pool_enter pid m of
        (m1, Fault) \<Rightarrow> (m1, Abort)
      | (m1, Taken b) \<Rightarrow> (m1, Ok (payload b))
      | (m1, Exhausted) \<Rightarrow> win_pool_wait_get rounds' pp (wake m1)
      | (m1, Reserved) \<Rightarrow>
          let m2 = win_pool_leave_alloc pid (gap m1) in
          (case alloc of None \<Rightarrow> win_pool_wait_get rounds' pp (wake m2)
           | Some b \<Rightarrow>
             (case win_pool_add pid b m2 of None \<Rightarrow> win_pool_wait_get rounds' pp m2
              | Some m3 \<Rightarrow> (m3, Ok (payload b)))))))"

definition win_pool_put :: "nat option \<Rightarrow> pmem \<Rightarrow> pmem \<times> unit cres" where
  "win_pool_put ptr m =
     (case ptr of None \<Rightarrow> (m, Ok ())
      | Some v \<Rightarrow>
        let b = header v in
     (case m_blocks m b of None \<Rightarrow> (m, Abort)
      | Some blk \<Rightarrow>
     (case b_pool blk of None \<Rightarrow> (m, Abort)
      | Some pid \<Rightarrow>
     (case m_pools m pid of None \<Rightarrow> (m, Abort)
      | Some p \<Rightarrow>
        let m1 = upd_pool pid (\<lambda>p. p\<lparr>in_use := in_use p - 1\<rparr>) m in
          if in_use p - 1 < 0 then (m1, Abort)
          else (upd_pool pid (free_list_update (\<lambda>_. Some b))
                  (upd_block b (b_next_update (\<lambda>_. free_list p)) m1), Ok ())))))"

text \<open>Destruction waits while a thread allocates; each wake-up is an element of the list.\<close>

fun win_pool_destroy :: "(pmem \<Rightarrow> pmem) list \<Rightarrow> nat option \<Rightarrow> pmem \<Rightarrow> pmem \<times> int cres" where
  "win_pool_destroy wakes pp m =
     (case pp of None \<Rightarrow> (m, Err ERROR_INVALID_PARAMETER)
      | Some pid \<Rightarrow>
     (case m_pools m pid of None \<Rightarrow> (m, Abort)
      | Some p \<Rightarrow>
        if 0 < allocators p then
          (case wakes of [] \<Rightarrow> (m, Block) | wake # wakes' \<Rightarrow> win_pool_destroy wakes' pp (wake m))
        else case free_chain (total_blocks p) (m_blocks m) (free_list p) of
               None \<Rightarrow> (m, Abort)
             | Some h \<Rightarrow> (m\<lparr>m_pools := (m_pools m)(pid := None), m_blocks := h\<rparr>, Ok 0)))"

definition win_pool_get_used :: "nat option \<Rightarrow> pmem \<Rightarrow> int cres" where
  "win_pool_get_used pp m =
     (case pp of None \<Rightarrow> Err ERROR_INVALID_PARAMETER
      | Some pid \<Rightarrow> (case m_pools m pid of None \<Rightarrow> Abort | Some p \<Rightarrow> Ok (in_use p)))"

declare win_pool_wait_get.simps [simp del] win_pool_destroy.simps [simp del]

text \<open>With nothing happening in between, the Windows get ends as the Linux one does.\<close>

definition win_error :: "int \<Rightarrow> int" where
  "win_error e = (if e = EAGAIN then ERROR_BUSY else if e = ENOMEM then ERROR_NOT_ENOUGH_MEMORY
     else ERROR_INVALID_PARAMETER)"

fun win_result :: "'a cres \<Rightarrow> 'a cres" where
  "win_result (Err e) = Err (win_error e)"
| "win_result r = r"

lemma pmem_restore_pool [simp]:
  "m_pools m pid = Some p \<Longrightarrow> m\<lparr>m_pools := (m_pools m)(pid \<mapsto> p)\<rparr> = m"
  by (cases m) auto

lemma win_pool_try_get_eq:
  assumes inv: "pool_inv pid 0 U m" and ok: "pool_env_ok pid os m"
    and idle: "\<And>p. m_pools m pid = Some p \<Longrightarrow> allocators p < SIZE_MAX"
  shows "win_pool_try_get id (os_alloc os) (Some pid) m =
    map_prod id win_result (pool_try_get os (Some pid) m)"
proof -
  obtain p fl where rep: "pool_rep pid 0 U m p fl" using inv by (auto simp: pool_inv_def)
  note p = pool_repD[OF rep]
  note os = ok[unfolded pool_env_ok_def mutex_ok_def]
  have sz: "total_blocks p < SIZE_MAX" using os p(1) by simp
  have al: "size_dec (size_inc (allocators p)) = allocators p" using idle[OF p(1)] by simp
  show ?thesis
  proof (cases fl)
    case (Cons b fl')
    then obtain blk where "free_list p = Some b" "m_blocks m b = Some blk" using p(2) by auto
    then show ?thesis using p(1) os
      by (simp add: win_pool_try_get_def win_pool_enter_def pool_try_get_def pool_get_rest_def
          pool_reserve_def)
  next
    case Nil
    then have fl: "free_list p = None" using p(2) by simp
    show ?thesis
    proof (cases "p_cap p \<noteq> 0 \<and> p_cap p \<le> total_blocks p")
      case True
      then show ?thesis using p(1) fl os
        by (simp add: win_pool_try_get_def win_pool_enter_def pool_try_get_def pool_get_rest_def
            pool_reserve_def win_error_def)
    next
      case False
      have rb: "pool_reserve pid m = (upd_pool pid (\<lambda>p. p\<lparr>total_blocks := size_inc (total_blocks p)\<rparr>) m, Reserved)"
        using False p(1) fl by (simp add: pool_reserve_def)
      have lv: "win_pool_leave_alloc pid (upd_pool pid (\<lambda>p. p\<lparr>allocators := size_inc (allocators p)\<rparr>) m) = m"
        using p(1) al by (simp add: win_pool_leave_alloc_def upd_pool_def)
      have en: "win_pool_enter pid m = (upd_pool pid (\<lambda>p. p\<lparr>allocators := size_inc (allocators p)\<rparr>) m, Reserved)"
        using False p(1) fl by (simp add: win_pool_enter_def)
      show ?thesis
      proof (cases "os_alloc os")
        case None
        then show ?thesis using pool_rollback_reserved[OF rb p(1) sz] os
          by (simp add: win_pool_try_get_def en lv pool_try_get_def pool_get_rest_def rb win_error_def)
      next
        case (Some b)
        have "win_pool_add pid b m = Some (pool_commit pid b
            (upd_pool pid (\<lambda>p. p\<lparr>total_blocks := size_inc (total_blocks p)\<rparr>) m))"
          using p(1) False by (auto simp: win_pool_add_def pool_commit_def upd_pool_def)
        then show ?thesis using os Some
          by (simp add: win_pool_try_get_def en lv pool_try_get_def pool_get_rest_def rb)
      qed
    qed
  qed
qed

lemma win_pool_put_eq: "win_pool_put ptr m = pool_put mutex_ok 0 ptr m"
  by (auto simp: win_pool_put_def pool_put_def mutex_ok_def Let_def split: option.splits)

section \<open>Properties\<close>

text \<open>
  C9. Safety of the pool under threads. Any number of threads get and put blocks of a pool made
  by \<^verbatim>\<open>pool_init\<close>, their locked sections interleaved in any order with allocations
  in between: the free list never contains a block that is checked out, so no block is handed
  to two holders; \<^verbatim>\<open>in_use\<close> is the number of blocks checked out; the blocks in
  existence, those being allocated included, never exceed the cap; no get follows a dangling
  pointer; and returning any held block succeeds, so the underflow \<^verbatim>\<open>FATAL\<close> is
  unreachable.
\<close>

theorem pool_threads_safe:
  assumes "pool_reach pid s"
  shows "\<exists>p fl. m_pools (ps_mem s) pid = Some p \<and>
    fpath (m_blocks (ps_mem s)) (free_list p) fl \<and> distinct fl \<and> set fl \<inter> ps_used s = {} \<and>
    in_use p = int (card (ps_used s)) \<and>
    length fl + card (ps_used s) + ps_alloc s = total_blocks p \<and>
    (p_cap p \<noteq> 0 \<longrightarrow> total_blocks p \<le> p_cap p) \<and>
    snd (pool_reserve pid (ps_mem s)) \<noteq> Fault \<and>
    (\<forall>b \<in> ps_used s. snd (pool_put mutex_ok 0 (Some (payload b)) (ps_mem s)) = Ok ())"
proof -
  have inv: "pool_inv pid (ps_alloc s) (ps_used s) (ps_mem s)" using assms by (rule pool_reach_inv)
  then obtain p fl where rep: "pool_rep pid (ps_alloc s) (ps_used s) (ps_mem s) p fl"
    by (auto simp: pool_inv_def)
  have "snd (pool_reserve pid (ps_mem s)) \<noteq> Fault"
    using inv by (cases rule: pool_reserve_cases) auto
  moreover have "\<forall>b \<in> ps_used s. snd (pool_put mutex_ok 0 (Some (payload b)) (ps_mem s)) = Ok ()"
    using pool_put_inv[OF inv] by fastforce
  ultimately show ?thesis using pool_repD[OF rep] by (intro exI[of _ p] exI[of _ fl]) auto
qed

definition pmem_empty :: pmem where
  "pmem_empty = \<lparr>m_pools = Map.empty, m_blocks = Map.empty\<rparr>"

definition pmem_fresh :: "nat \<Rightarrow> pmem" where
  "pmem_fresh cap = \<lparr>m_pools = [7 \<mapsto> \<lparr>block_size = 64, p_cap = cap, total_blocks = 0, in_use = 0,
     allocators = 0, free_list = None\<rparr>], m_blocks = Map.empty\<rparr>"

lemma pmem_fresh_init: "pool_init (Some 7) 0 0 64 cap pmem_empty = (pmem_fresh cap, Ok 7)"
  by (simp add: pool_init_def pmem_empty_def pmem_fresh_def)

text \<open>One block allocated and held, one thread about to allocate.\<close>

definition pool_demo :: pool_sys where
  "pool_demo = \<lparr>ps_mem = \<lparr>m_pools = [7 \<mapsto> \<lparr>block_size = 64, p_cap = 2, total_blocks = 2, in_use = 1,
       allocators = 0, free_list = None\<rparr>], m_blocks = [64 \<mapsto> \<lparr>b_next = None, b_pool = Some 7\<rparr>]\<rparr>,
     ps_alloc = 1, ps_used = {64}, ps_sleep = 0\<rparr>"

lemma pool_demo_reach: "pool_reach 7 pool_demo"
proof -
  let ?r = "\<lambda>n. upd_pool 7 (\<lambda>p. p\<lparr>total_blocks := n\<rparr>)"
  have r0: "pool_reach 7 \<lparr>ps_mem = pmem_fresh 2, ps_alloc = 0, ps_used = {}, ps_sleep = 0\<rparr>"
    by (rule pool_start[OF pmem_fresh_init]) simp
  note r1 = pool_next[OF r0 pool_step.reserve[of 7 _ "?r 1 (pmem_fresh 2)"]]
  note r2 = pool_next[OF r1 pool_step.commit[of _ 0 64]]
  note r3 = pool_next[OF r2 pool_step.reserve[of 7 _ "?r 2 (pool_commit 7 64 (?r 1 (pmem_fresh 2)))"]]
  show ?thesis using r3
    by (simp add: pmem_fresh_def pool_demo_def pool_reserve_def size_inc_def upd_pool_def pool_commit_def
        flip: numeral_2_eq_2)
qed

theorem pool_threads_safe_witness:
  "pool_reach 7 pool_demo \<and> snd (pool_put mutex_ok 0 (Some 80) (ps_mem pool_demo)) = Ok ()"
  using pool_threads_safe[OF pool_demo_reach] pool_demo_reach by (simp add: pool_demo_def payload_def)


definition pool_os_ok :: "nat option \<Rightarrow> pool_os" where
  "pool_os_ok a = \<lparr>os_lock1 = mutex_ok, os_lock2 = mutex_ok, os_gap = id, os_alloc = a\<rparr>"

lemmas pool_eval = pmem_fresh_def pool_os_ok_def mutex_ok_def pool_env_ok_def pool_get_step_def
  pool_put_step_def pool_try_get_def pool_get_rest_def pool_reserve_def pool_commit_def pool_put_def
  pool_rollback_def upd_pool_def upd_block_def size_inc_def payload_def header_def


text \<open>
  Outcomes of \<^verbatim>\<open>pool_try_get\<close> by one thread, on both platforms. It succeeds
  with a pointer nobody holds; or it fails with \<^verbatim>\<open>EAGAIN\<close> exactly when there is a
  cap and as many blocks as the cap are held; or with \<^verbatim>\<open>ENOMEM\<close> when the allocator
  failed; a failure leaves the memory as it was. The Windows variant does the same with its
  own error numbers.
\<close>

theorem pool_try_get_outcomes:
  assumes "pool_inv pid 0 U m" "pool_env_ok pid os m"
    and "\<And>p. m_pools m pid = Some p \<Longrightarrow> allocators p < SIZE_MAX"
  shows "(case pool_try_get os (Some pid) m of
      (m', Ok v) \<Rightarrow> v \<notin> payload ` U \<and> pool_holds pid m' (insert v (payload ` U))
    | (m', Err e) \<Rightarrow> m' = m \<and>
        (if pool_limit pid m \<noteq> 0 \<and> card U = pool_limit pid m then e = EAGAIN
         else e = ENOMEM \<and> os_alloc os = None)
    | _ \<Rightarrow> False) \<and>
    win_pool_try_get id (os_alloc os) (Some pid) m =
      map_prod id win_result (pool_try_get os (Some pid) m)"
proof -
  have "pool_holds pid m (payload ` U)" using assms(1) by (auto simp: pool_holds_def)
  moreover have "card (payload ` U) = card U" by (simp add: card_image inj_on_def)
  ultimately show ?thesis
    using pool_try_get_spec[OF _ assms(2)] win_pool_try_get_eq[OF assms]
    by (fastforce split: prod.splits cres.splits)
qed

theorem pool_try_get_outcomes_witness:
  "pool_try_get (pool_os_ok None) (Some 7) (pmem_fresh 1) = (pmem_fresh 1, Err ENOMEM) \<and>
   win_pool_try_get id None (Some 7) (pmem_fresh 1) = (pmem_fresh 1, Err ERROR_NOT_ENOUGH_MEMORY)"
proof -
  have "pool_inv 7 0 {} (pmem_fresh 1)" using pool_init_inv[OF pmem_fresh_init] by simp
  then have "case pool_try_get (pool_os_ok None) (Some 7) (pmem_fresh 1) of
      (m', Ok v) \<Rightarrow> pool_holds 7 m' {v} | (m', Err e) \<Rightarrow> m' = pmem_fresh 1 \<and> e = ENOMEM | _ \<Rightarrow> False"
    and win: "win_pool_try_get id None (Some 7) (pmem_fresh 1) =
      map_prod id win_result (pool_try_get (pool_os_ok None) (Some 7) (pmem_fresh 1))"
    using pool_try_get_outcomes[of 7 "{}" "pmem_fresh 1" "pool_os_ok None"]
    by (simp_all add: pmem_fresh_def pool_os_ok_def pool_env_ok_def pool_limit_def
        split: prod.splits cres.splits)
  moreover have "snd (pool_try_get (pool_os_ok None) (Some 7) (pmem_fresh 1)) = Err ENOMEM"
    by (simp add: pool_eval)
  ultimately show ?thesis
    by (cases "pool_try_get (pool_os_ok None) (Some 7) (pmem_fresh 1)") (simp add: win_error_def)
qed

text \<open>
  Termination of the waiting get. On an exhausted pool \<^verbatim>\<open>pool_wait_get\<close> does
  not return while nothing is put back, however often it is woken; once another thread has
  returned a block, the next wake-up ends the call with exactly that block.
\<close>

definition put_env :: "nat \<Rightarrow> pmem \<Rightarrow> pmem" where
  "put_env v m = fst (pool_put mutex_ok 0 (Some v) m)"

lemma pool_wait_spurious:
  assumes "pool_reserve pid m = (m, Exhausted)"
  shows "pool_wait_loop (replicate k (0, id) @ waits) os pid m = pool_wait_loop waits os pid m"
  using assms by (induction k) (simp, subst pool_wait_loop.simps, simp)

theorem pool_wait_get_terminates:
  assumes inv: "pool_inv pid n U m" and full: "pool_reserve pid m = (m, Exhausted)"
    and b: "b \<in> U" and os: "os_lock1 os = mutex_ok"
  shows "pool_wait_get (replicate k (0, id)) os (Some pid) m = (m, Block) \<and>
    (\<exists>m'. pool_wait_get (replicate k (0, id) @ [(0, put_env (payload b))]) os (Some pid) m =
       (m', Ok (payload b)) \<and> pool_inv pid n U m')"
proof -
  obtain m1 p1 where m1: "pool_put mutex_ok 0 (Some (payload b)) m = (m1, Ok ())"
    "pool_inv pid n (U - {b}) m1" "m_pools m1 pid = Some p1" "free_list p1 = Some b"
    using pool_put_inv[OF inv b] by blast
  obtain m2 where m2: "pool_reserve pid m1 = (m2, Taken b)"
  proof -
    obtain p fl where rep: "pool_rep pid n (U - {b}) m1 p fl" using m1(2) by (auto simp: pool_inv_def)
    then have "m_blocks m1 b \<noteq> None" using m1(3,4) by (cases fl) (auto simp: pool_rep_def)
    then show thesis using m1(3,4) that by (auto simp: pool_reserve_def)
  qed
  have "pool_inv pid n (insert b (U - {b})) m2" using pool_reserve_taken[OF m1(2) m2] by blast
  then have "pool_inv pid n U m2" using b by (simp add: insert_absorb)
  moreover have "pool_wait_loop [(0, put_env (payload b))] os pid m = (m2, Ok (payload b))"
    using full m1(1) m2 os
    by (simp add: pool_wait_loop.simps pool_get_rest_def put_env_def mutex_ok_def)
  moreover have "pool_wait_loop [] os pid m = (m, Block)"
    using full by (simp add: pool_wait_loop.simps)
  ultimately show ?thesis
    using os pool_wait_spurious[OF full, of k "[]" os]
      pool_wait_spurious[OF full, of k "[(0, put_env (payload b))]" os]
    by (simp add: pool_wait_get_def mutex_ok_def)
qed

text \<open>A pool of one block that is held.\<close>

definition pmem_held :: pmem where
  "pmem_held = \<lparr>m_pools = [7 \<mapsto> \<lparr>block_size = 64, p_cap = 1, total_blocks = 1, in_use = 1,
     allocators = 0, free_list = None\<rparr>], m_blocks = [64 \<mapsto> \<lparr>b_next = None, b_pool = Some 7\<rparr>]\<rparr>"

lemma pmem_held_inv: "pool_inv 7 0 {64} pmem_held"
  unfolding pool_inv_def pool_rep_def pmem_held_def by (simp add: exI[of _ "[]"])

theorem pool_wait_get_terminates_witness:
  "pool_wait_get [(0, id), (0, id)] (pool_os_ok None) (Some 7) pmem_held = (pmem_held, Block) \<and>
   snd (pool_wait_get [(0, id), (0, id), (0, put_env 80)] (pool_os_ok None) (Some 7) pmem_held) = Ok 80"
proof -
  have two: "replicate 2 (0::int, id :: pmem \<Rightarrow> pmem) = [(0, id), (0, id)]" by (simp add: numeral_2_eq_2)
  have "pool_reserve 7 pmem_held = (pmem_held, Exhausted)"
    by (simp add: pool_reserve_def pmem_held_def)
  then show ?thesis
    using pool_wait_get_terminates[OF pmem_held_inv, of 64 "pool_os_ok None" 2] two
    by (auto simp: pool_os_ok_def payload_def)
qed

text \<open>
  Destruction. The loop of \<^verbatim>\<open>pool_destroy\<close> that frees the list ends within as
  many rounds as there are blocks, the call succeeds, the pool is gone, exactly the blocks of
  the free list are freed, and the blocks still checked out stay allocated, with a header that
  points to the pool that is gone.
\<close>

theorem pool_destroy_frees:
  assumes "pool_inv pid n U m"
  shows "\<exists>p fl m'. m_pools m pid = Some p \<and> fpath (m_blocks m) (free_list p) fl \<and>
    pool_destroy mutex_ok 0 0 (Some pid) m = (m', Ok 0) \<and> m_pools m' = (m_pools m)(pid := None) \<and>
    (\<forall>b. m_blocks m' b = (if b \<in> set fl then None else m_blocks m b)) \<and>
    (\<forall>b \<in> U. \<exists>blk. m_blocks m' b = Some blk \<and> b_pool blk = Some pid)"
proof -
  obtain p fl where rep: "pool_rep pid n U m p fl" using assms by (auto simp: pool_inv_def)
  note p = pool_repD[OF rep]
  have "length fl \<le> total_blocks p" using p(8) by simp
  from free_chain_path[OF p(2,3) this] show ?thesis using p
    by (intro exI[of _ p] exI[of _ fl]) (auto simp: pool_destroy_def mutex_ok_def)
qed

theorem pool_destroy_frees_witness:
  "\<exists>m'. pool_destroy mutex_ok 0 0 (Some 7) pmem_held = (m', Ok 0) \<and> m_pools m' = Map.empty \<and>
    (\<exists>blk. m_blocks m' 64 = Some blk \<and> b_pool blk = Some 7)"
  using pool_destroy_frees[OF pmem_held_inv] by (auto simp: pmem_held_def)

text \<open>
  A lost wake-up. The locked section after a failed allocation gives the reserved place back
  without signalling the condition: a pool of one block can reach a state where nobody holds
  a block, nobody allocates and the next get would succeed, while a thread in
  \<^verbatim>\<open>pool_wait_get\<close> sleeps with no one left to signal it.
\<close>

theorem pool_lost_wakeup:
  "\<exists>s. pool_reach 7 s \<and> ps_sleep s = 1 \<and> ps_used s = {} \<and> ps_alloc s = 0 \<and>
    pool_limit 7 (ps_mem s) = 1 \<and> snd (pool_reserve 7 (ps_mem s)) = Reserved"
proof -
  let ?r = "upd_pool 7 (\<lambda>p. p\<lparr>total_blocks := 1\<rparr>) (pmem_fresh 1)"
  let ?s = "\<lparr>ps_mem = pmem_fresh 1, ps_alloc = 0, ps_used = {}, ps_sleep = 1\<rparr>"
  have r0: "pool_reach 7 \<lparr>ps_mem = pmem_fresh 1, ps_alloc = 0, ps_used = {}, ps_sleep = 0\<rparr>"
    by (rule pool_start[OF pmem_fresh_init]) simp
  note r1 = pool_next[OF r0 pool_step.reserve[of 7 _ ?r]]
  note r2 = pool_next[OF r1 pool_step.sleep[of 7 _ ?r]]
  note r3 = pool_next[OF r2 pool_step.rollback[of _ 0]]
  have "pool_reach 7 ?s" using r3
    by (simp add: pmem_fresh_def pool_reserve_def size_inc_def size_dec_def upd_pool_def pool_rollback_def)
  moreover have "snd (pool_reserve 7 (pmem_fresh 1)) = Reserved"
    by (simp add: pool_reserve_def pmem_fresh_def)
  ultimately show ?thesis by (intro exI[of _ ?s]) (simp add: pool_limit_def pmem_fresh_def)
qed

text \<open>
  Allocation sizes. For block sizes that leave room for the header and the rounding, the size
  passed to the allocator is the next multiple of 64 that holds header and payload. Above
  that bound, which the check in \<^verbatim>\<open>pool_init\<close> does not enforce, the addition
  wraps: the largest size it accepts makes the allocator be asked for zero bytes.
\<close>

theorem pool_alloc_size_fits:
  "(if unat bs + 16 + 63 < 2 ^ 64
    then 64 dvd unat (pool_alloc_size bs) \<and> unat bs + 16 \<le> unat (pool_alloc_size bs) \<and>
      unat (pool_alloc_size bs) < unat bs + 16 + 64
    else unat (pool_alloc_size bs) < unat bs) \<and>
   snd (pool_init (Some pid) 0 0 (- 17) cap m) = Ok pid \<and> pool_alloc_size (- 17) = 0"
proof -
  have size: "unat (pool_alloc_size bs) = unat (16 + bs + 63) div 64 * 64"
  proof -
    have "(63 :: u64) = mask 6" by (simp add: mask_eq_exp_minus_1)
    then have "pool_alloc_size bs = (16 + bs + 63) AND NOT (mask 6)"
      by (simp add: pool_alloc_size_def ALIGN_UP_def)
    then show ?thesis by (simp only: unat_and_not_mask) simp
  qed
  have val: "unat (16 + bs + 63) = (unat bs + 79) mod 2 ^ 64"
  proof -
    have "16 + bs + 63 = of_nat (unat bs + 79)" by simp
    then show ?thesis by (simp only: unat_of_nat) simp
  qed
  have lt: "unat bs < 2 ^ 64" using unsigned_less[of bs, where ?'a = nat] by simp
  have "if unat bs + 16 + 63 < 2 ^ 64
    then 64 dvd unat (pool_alloc_size bs) \<and> unat bs + 16 \<le> unat (pool_alloc_size bs) \<and>
      unat (pool_alloc_size bs) < unat bs + 16 + 64
    else unat (pool_alloc_size bs) < unat bs"
  proof (cases "unat bs + 16 + 63 < 2 ^ 64")
    case True
    then show ?thesis unfolding size val by (simp add: mod_less) linarith
  next
    case False
    have "(unat bs + 79) mod 2 ^ 64 = unat bs + 79 - 2 ^ 64" using False lt
      by (simp add: mod_if)
    then show ?thesis unfolding size val using False lt by simp
  qed
  moreover have "pool_alloc_size (- 17) = 0" by (simp add: pool_alloc_size_def ALIGN_UP_def)
  ultimately show ?thesis by (simp add: pool_init_def)
qed

end
