(* ===== verification/Net_Utils.thy ===== *)
theory Net_Utils
  imports Prelude
begin

text \<open>
  The helpers of \<^verbatim>\<open>common/inc/utils.h\<close>: network masks and prefixes, addresses as
  text, and the search for and execution of system commands, with the answers of the system
  as arguments. An IPv4 address is the 32-bit word of \<^verbatim>\<open>struct in_addr\<close>, in
  network byte order.
\<close>

section \<open>Masks\<close>

type_synonym in_addr = u32

definition validate_mask :: "in_addr \<Rightarrow> bool" where
  "validate_mask m =
     (let ntoh_mask = ntohl m in
      if ntoh_mask = 0 then True
      else let inverted = NOT ntoh_mask in (inverted + 1) AND inverted = 0)"

definition popcount :: "u32 \<Rightarrow> nat" where
  "popcount w = length (filter (bit w) [0..<32])"

text \<open>The result is an \<^verbatim>\<open>int8_t\<close>; the count is at most 32 and fits.\<close>

definition mask_to_prefix :: "in_addr \<Rightarrow> int" where
  "mask_to_prefix m = (if \<not> validate_mask m then - EINVAL else int (popcount (ntohl m)))"

text \<open>The mask of a prefix length: that many one bits from the top.\<close>

definition prefix_mask :: "nat \<Rightarrow> in_addr" where
  "prefix_mask n = htonl (NOT (mask (32 - n)))"

lemma popcount_not_mask: "k \<le> 32 \<Longrightarrow> popcount (NOT (mask k)) = 32 - k"
proof -
  assume k: "k \<le> 32"
  have "filter (bit (NOT (mask k) :: u32)) [0..<32] = filter (\<lambda>i. \<not> i < k) [0..<32]"
    by (rule filter_cong) (auto simp: bit_simps)
  moreover have "filter (\<lambda>i. \<not> i < k) [0..<k + d] = [k..<k + d]" for d
    by (induction d) (auto simp: filter_empty_conv)
  from this[of "32 - k"] have "filter (\<lambda>i. \<not> i < k) [0..<32] = [k..<32]" using k by simp
  ultimately show ?thesis by (simp add: popcount_def)
qed

lemma validate_mask_iff: "validate_mask m \<longleftrightarrow> (\<exists>n\<le>32. m = prefix_mask n)"
proof
  assume v: "validate_mask m"
  show "\<exists>n\<le>32. m = prefix_mask n"
  proof (cases "ntohl m = 0")
    case True
    then have "m = prefix_mask 0" using hton_inj(2)[of m "htonl 0"]
      by (simp add: prefix_mask_def mask_eq_exp_minus_1)
    then show ?thesis by blast
  next
    case False
    let ?i = "NOT (ntohl m)"
    have t: "(?i + 1) AND ?i = 0" using v False by (simp add: validate_mask_def Let_def)
    have "?i + 1 \<noteq> 0"
    proof
      assume "?i + 1 = 0"
      then have "?i = - 1" by (simp add: eq_neg_iff_add_eq_0)
      then show False using False by (metis bit.double_compl bit.compl_one)
    qed
    then obtain k where k: "k < LENGTH(32)" "?i + 1 = 2 ^ k"
      using word_pow2_test[of "?i + 1"] t by auto
    then have "?i = mask k" by (simp add: mask_eq_exp_minus_1 eq_diff_eq)
    then have "ntohl m = NOT (mask k)" by (metis bit.double_compl)
    then have "m = htonl (NOT (mask k))" by (metis hton_hton(2))
    then have "m = prefix_mask (32 - k)" using k by (simp add: prefix_mask_def)
    then show ?thesis by (intro exI[of _ "32 - k"]) simp
  qed
next
  assume "\<exists>n\<le>32. m = prefix_mask n"
  then obtain n where n: "n \<le> 32" "m = prefix_mask n" by blast
  have "NOT (ntohl m) = mask (32 - n)" using n by (simp add: prefix_mask_def)
  moreover have "(mask (32 - n) + 1) AND mask (32 - n) = (0 :: u32)"
  proof -
    have "mask (32 - n) + 1 = (2 :: u32) ^ (32 - n)" by (simp add: mask_eq_exp_minus_1)
    moreover have "(2 :: u32) ^ (32 - n) AND mask (32 - n) = take_bit (32 - n) (2 ^ (32 - n))"
      by (simp add: take_bit_eq_mask)
    moreover have "take_bit (32 - n) (2 ^ (32 - n) :: u32) = 0" by (rule bit_eqI) (auto simp: bit_simps)
    ultimately show ?thesis by simp
  qed
  ultimately show "validate_mask m" by (simp add: validate_mask_def Let_def)
qed

lemma mask_to_prefix_prefix_mask: "n \<le> 32 \<Longrightarrow> mask_to_prefix (prefix_mask n) = int n"
proof -
  assume n: "n \<le> 32"
  then have "validate_mask (prefix_mask n)" using validate_mask_iff by blast
  moreover have "popcount (ntohl (prefix_mask n)) = n"
    using n popcount_not_mask[of "32 - n"] by (simp add: prefix_mask_def)
  ultimately show ?thesis by (simp add: mask_to_prefix_def)
qed

section \<open>Addresses as text\<close>

fun show_nat :: "nat \<Rightarrow> string" where
  "show_nat n = (if n < 10 then [char_of (48 + n)] else show_nat (n div 10) @ [char_of (48 + n mod 10)])"

declare show_nat.simps [simp del]

text \<open>\<^verbatim>\<open>inet_ntop\<close>: the bytes in memory order, in decimal.\<close>

definition dotted :: "in_addr \<Rightarrow> string" where
  "dotted a =
     show_nat (unat (byte_of a 0)) @ ''.'' @ show_nat (unat (byte_of a 1)) @ ''.'' @
     show_nat (unat (byte_of a 2)) @ ''.'' @ show_nat (unat (byte_of a 3))"

definition inet_ntop :: "in_addr \<Rightarrow> nat \<Rightarrow> string cres" where
  "inet_ntop a n = (if n \<le> length (dotted a) then Err ENOSPC else Ok (dotted a))"

text \<open>\<^verbatim>\<open>snprintf\<close> keeps at most one character less than the buffer has.\<close>

definition snprintf_trunc :: "nat \<Rightarrow> string \<Rightarrow> string" where
  "snprintf_trunc n str = take (n - 1) str"

definition in_addr_to_cidr :: "in_addr option \<Rightarrow> in_addr option \<Rightarrow> nat \<Rightarrow> string cres" where
  "in_addr_to_cidr addr mask_addr cidr_len =
     (case (addr, mask_addr) of
        (Some a, Some m) \<Rightarrow>
          if \<not> validate_mask m then Err EINVAL
          else (case inet_ntop a 16 of
                  Ok str \<Rightarrow> Ok (snprintf_trunc cidr_len (str @ ''/'' @ show_nat (popcount (ntohl m))))
                | Err e \<Rightarrow> Err e | Block \<Rightarrow> Block | Abort \<Rightarrow> Abort)
      | _ \<Rightarrow> Err EINVAL)"

definition in_addr_to_str :: "in_addr option \<Rightarrow> nat \<Rightarrow> string cres" where
  "in_addr_to_str addr buf_len =
     (case addr of None \<Rightarrow> Err EINVAL
      | Some a \<Rightarrow> if buf_len = 0 then Err EINVAL else inet_ntop a buf_len)"

lemma length_show_byte: "n < 256 \<Longrightarrow> 1 \<le> length (show_nat n) \<and> length (show_nat n) \<le> 3"
  by (simp add: show_nat.simps[of n] show_nat.simps[of "n div 10"] show_nat.simps[of "n div 10 div 10"])

lemma length_dotted: "7 \<le> length (dotted a) \<and> length (dotted a) \<le> 15"
proof -
  have b: "1 \<le> length (show_nat (unat (byte_of a i))) \<and> length (show_nat (unat (byte_of a i))) \<le> 3" for i
    using unsigned_less[of "byte_of a i", where ?'a = nat] by (intro length_show_byte) simp
  show ?thesis using b[of 0] b[of 1] b[of 2] b[of 3] by (simp add: dotted_def)
qed

section \<open>System commands\<close>

text \<open>The first path the process may execute.\<close>

fun find_binary :: "(string \<Rightarrow> bool) \<Rightarrow> string list \<Rightarrow> string option" where
  "find_binary executable [] = None"
| "find_binary executable (p # ps) = (if executable p then Some p else find_binary executable ps)"

text \<open>
  A command: the result of \<^verbatim>\<open>posix_spawn\<close>, the error of \<^verbatim>\<open>waitpid\<close> if
  it failed, and the status word.
\<close>

record spawn_os =
  spawn_rc :: int
  waitpid_err :: "int option"
  wait_status :: u32

definition WIFEXITED :: "u32 \<Rightarrow> bool" where
  "WIFEXITED status \<longleftrightarrow> status AND 0x7F = 0"

definition WEXITSTATUS :: "u32 \<Rightarrow> int" where
  "WEXITSTATUS status = uint (drop_bit 8 status AND 0xFF)"

definition run_command :: "spawn_os \<Rightarrow> string option \<Rightarrow> int" where
  "run_command os path =
     (case path of None \<Rightarrow> - EINVAL
      | Some p \<Rightarrow>
        if spawn_rc os \<noteq> 0 then - spawn_rc os
        else (case waitpid_err os of
                Some e \<Rightarrow> - e
              | None \<Rightarrow> if WIFEXITED (wait_status os) then WEXITSTATUS (wait_status os) else - ECHILD))"

text \<open>\<^verbatim>\<open>now_ns\<close>, in 64-bit arithmetic.\<close>

definition now_ns :: "u64 \<Rightarrow> u64 \<Rightarrow> u64" where
  "now_ns tv_sec tv_nsec = tv_sec * 1000000000 + tv_nsec"

section \<open>Properties\<close>

text \<open>
  C28. Masks and prefixes. \<^verbatim>\<open>validate_mask\<close> accepts exactly the 33 contiguous masks,
  /0 and /32 included; for those \<^verbatim>\<open>mask_to_prefix\<close> is the inverse of building a
  mask from a prefix length, and for every other word it answers \<^verbatim>\<open>-EINVAL\<close>.
\<close>

theorem mask_prefix_roundtrip:
  "(validate_mask m \<longleftrightarrow> (\<exists>n\<le>32. m = prefix_mask n)) \<and>
   (n \<le> 32 \<longrightarrow> mask_to_prefix (prefix_mask n) = int n) \<and>
   (\<not> validate_mask m \<longrightarrow> mask_to_prefix m = - EINVAL)"
  using validate_mask_iff[of m] mask_to_prefix_prefix_mask[of n] by (simp add: mask_to_prefix_def)

theorem mask_prefix_roundtrip_witness:
  "prefix_mask 24 = 0x00FFFFFF \<and> mask_to_prefix 0x00FFFFFF = 24 \<and> mask_to_prefix 0x00FF00FF = - EINVAL"
proof -
  have "prefix_mask 24 = 0x00FFFFFF" "\<not> validate_mask 0x00FF00FF" by code_simp+
  then show ?thesis using mask_prefix_roundtrip[of "0x00FF00FF" 24] by simp
qed

text \<open>
  Addresses as text. Every address fits the 16-character buffers of the program:
  \<^verbatim>\<open>inet_ntop\<close> never fails there, and \<^verbatim>\<open>in_addr_to_cidr\<close> with a
  buffer of at least 19 characters writes the whole text, the dotted address, a slash and the
  prefix length of the mask, exactly when the mask is contiguous.
\<close>

lemma show_prefix_length: "n \<le> 32 \<Longrightarrow> length (show_nat n) \<le> 2"
proof -
  assume "n \<le> 32"
  then have "n div 10 < 10" by simp
  then show ?thesis by (simp add: show_nat.simps[of n] show_nat.simps[of "n div 10"])
qed

theorem cidr_text:
  assumes "19 \<le> cidr_len"
  shows "inet_ntop a 16 = Ok (dotted a) \<and>
    in_addr_to_cidr (Some a) (Some m) cidr_len =
      (if validate_mask m then Ok (dotted a @ ''/'' @ show_nat (nat (mask_to_prefix m))) else Err EINVAL)"
proof -
  have ntop: "inet_ntop a 16 = Ok (dotted a)" using length_dotted[of a] by (simp add: inet_ntop_def)
  have "snprintf_trunc cidr_len (dotted a @ ''/'' @ show_nat (popcount (ntohl m))) =
      dotted a @ ''/'' @ show_nat (popcount (ntohl m))"
  proof -
    have "popcount (ntohl m) \<le> 32" using length_filter_le[of "bit (ntohl m)" "[0..<32]"]
      by (simp add: popcount_def)
    then have "length (dotted a @ ''/'' @ show_nat (popcount (ntohl m))) \<le> 18"
      using length_dotted[of a] show_prefix_length[of "popcount (ntohl m)"] by simp
    then show ?thesis using assms by (simp add: snprintf_trunc_def)
  qed
  then show ?thesis using ntop by (simp add: in_addr_to_cidr_def mask_to_prefix_def)
qed

theorem cidr_text_witness:
  "in_addr_to_cidr (Some 0x0100000A) (Some 0x00FFFFFF) 19 = Ok ''10.0.0.1/24''"
proof -
  have "dotted 0x0100000A = ''10.0.0.1''" "validate_mask 0x00FFFFFF"
    "show_nat (nat (mask_to_prefix 0x00FFFFFF)) = ''24''" by code_simp+
  then show ?thesis using cidr_text[of 19 "0x0100000A" "0x00FFFFFF"] by simp
qed

text \<open>
  Commands. \<^verbatim>\<open>find_binary\<close> is the library's search for the first candidate
  that is executable; \<^verbatim>\<open>run_command\<close> answers zero exactly for a command that was
  spawned, waited for, and exited with status zero: no error of the system and no death by a
  signal is reported as success.
\<close>

theorem run_command_success:
  assumes "\<And>e. waitpid_err os = Some e \<Longrightarrow> e \<noteq> 0"
  shows "(run_command os path = 0 \<longleftrightarrow>
      path \<noteq> None \<and> spawn_rc os = 0 \<and> waitpid_err os = None \<and> wait_status os AND 0xFF7F = 0) \<and>
    find_binary ex ps = List.find ex ps"
proof -
  have split: "status AND 0xFF7F = 0 \<longleftrightarrow> status AND 0x7F = 0 \<and> drop_bit 8 status AND 0xFF = 0"
    for status :: u32
  proof -
    have "(0xFF7F :: u32) = 0x7F OR push_bit 8 0xFF" by code_simp
    moreover have "(status AND push_bit 8 0xFF = 0) \<longleftrightarrow> (drop_bit 8 status AND 0xFF = 0)"
    proof -
      have "status AND push_bit 8 c = push_bit 8 (drop_bit 8 status AND c)" for c :: u32
        by (rule bit_eqI) (auto simp: bit_simps)
      moreover have "drop_bit 8 status AND take_bit 24 c = drop_bit 8 (status AND push_bit 8 c)" for c :: u32
        by (rule bit_eqI) (auto simp: bit_simps)
      moreover have "take_bit 24 (0xFF :: u32) = 0xFF" by simp
      ultimately show ?thesis by (metis drop_bit_of_0 push_bit_of_0)
    qed
    ultimately show ?thesis by (simp only: bit.conj_disj_distrib or_eq_0_iff)
  qed
  have "run_command os path = 0 \<longleftrightarrow>
      path \<noteq> None \<and> spawn_rc os = 0 \<and> waitpid_err os = None \<and> wait_status os AND 0xFF7F = 0"
    using assms split[of "wait_status os"]
    by (auto simp: run_command_def WIFEXITED_def WEXITSTATUS_def uint_0_iff split: option.splits)
  moreover have "find_binary ex ps = List.find ex ps" by (induction ps) auto
  ultimately show ?thesis by blast
qed

theorem run_command_success_witness:
  "run_command \<lparr>spawn_rc = 0, waitpid_err = None, wait_status = 9\<rparr> (Some ''/sbin/ip'') \<noteq> 0 \<and>
   run_command \<lparr>spawn_rc = 0, waitpid_err = None, wait_status = 0\<rparr> (Some ''/sbin/ip'') = 0"
  using run_command_success[of "\<lparr>spawn_rc = 0, waitpid_err = None, wait_status = 9\<rparr>" "Some ''/sbin/ip''"]
    run_command_success[of "\<lparr>spawn_rc = 0, waitpid_err = None, wait_status = 0\<rparr>" "Some ''/sbin/ip''"]
  by simp

end
