(* ===== verification/Pkt_Ctrl.thy ===== *)
theory Pkt_Ctrl
  imports Net_Utils
begin

text \<open>
  Control frames, \<^verbatim>\<open>common/inc/pkt_ctrl.h\<close> and \<^verbatim>\<open>common/src/pkt_ctrl.c\<close>:
  the packed 1024-byte frame with its header, the union of message bodies and the trailing magic,
  as the structure the code fills in and as the bytes that go over the wire; the two constructors;
  the check both receivers make. Integers are stored in the byte order of the little-endian host.
\<close>

section \<open>Layout\<close>

abbreviation HEAD_MAGIC :: u32 where "HEAD_MAGIC \<equiv> 0xAABBCCDD"
abbreviation TAIL_MAGIC :: u32 where "TAIL_MAGIC \<equiv> 0xDDBBCCAA"
abbreviation PKTCTRLSIZ :: nat where "PKTCTRLSIZ \<equiv> 1024"
abbreviation HOSTNAMSIZ :: nat where "HOSTNAMSIZ \<equiv> 64"
abbreviation BODYSIZ :: nat where "BODYSIZ \<equiv> 1004"

abbreviation VPN_MSG_TYPE_CONFIG_REQ :: u16 where "VPN_MSG_TYPE_CONFIG_REQ \<equiv> 1"
abbreviation VPN_MSG_TYPE_CONFIG_RESP :: u16 where "VPN_MSG_TYPE_CONFIG_RESP \<equiv> 2"

record pkt_ctrl_hdr_t =
  frame_len :: u16
  head_magic :: u32
  h_type :: u16
  h_uid :: u64

record pkt_ctrl_t =
  hdr :: pkt_ctrl_hdr_t
  raw_padding :: bytes
  tail_magic :: u32

text \<open>The two bodies that are sent; the others of the union have no sender.\<close>

record pkt_ctrl_config_req_t =
  af_family :: u8
  hostname :: bytes

record pkt_ctrl_config_resp_t =
  r_uid :: u64
  status_code :: u32
  r_ip :: in_addr
  r_mask :: in_addr
  r_dns1 :: in_addr
  r_dns2 :: in_addr
  r_mtu :: u16

definition hdr_bytes :: "pkt_ctrl_hdr_t \<Rightarrow> bytes" where
  "hdr_bytes h = le_bytes 2 (frame_len h) @ le_bytes 4 (head_magic h) @ le_bytes 2 (h_type h) @ le_bytes 8 (h_uid h)"

definition pkt_bytes :: "pkt_ctrl_t \<Rightarrow> bytes" where
  "pkt_bytes p = hdr_bytes (hdr p) @ raw_padding p @ le_bytes 4 (tail_magic p)"

text \<open>A field of a packed structure: so many bytes from an offset.\<close>

definition field :: "nat \<Rightarrow> nat \<Rightarrow> bytes \<Rightarrow> bytes" where
  "field off n bs = take n (drop off bs)"

definition pkt_of_bytes :: "bytes \<Rightarrow> pkt_ctrl_t" where
  "pkt_of_bytes bs =
     \<lparr>hdr = \<lparr>frame_len = of_le_bytes (field 0 2 bs), head_magic = of_le_bytes (field 2 4 bs),
             h_type = of_le_bytes (field 6 2 bs), h_uid = of_le_bytes (field 8 8 bs)\<rparr>,
      raw_padding = field 16 BODYSIZ bs, tail_magic = of_le_bytes (field 1020 4 bs)\<rparr>"

definition req_bytes :: "pkt_ctrl_config_req_t \<Rightarrow> bytes" where
  "req_bytes r = [af_family r] @ hostname r"

definition req_of_bytes :: "bytes \<Rightarrow> pkt_ctrl_config_req_t" where
  "req_of_bytes bs = \<lparr>af_family = of_le_bytes (field 0 1 bs), hostname = field 1 HOSTNAMSIZ bs\<rparr>"

definition resp_bytes :: "pkt_ctrl_config_resp_t \<Rightarrow> bytes" where
  "resp_bytes r =
     le_bytes 8 (r_uid r) @ le_bytes 4 (status_code r) @ le_bytes 4 (r_ip r) @ le_bytes 4 (r_mask r) @
     le_bytes 4 (r_dns1 r) @ le_bytes 4 (r_dns2 r) @ le_bytes 2 (r_mtu r)"

definition resp_of_bytes :: "bytes \<Rightarrow> pkt_ctrl_config_resp_t" where
  "resp_of_bytes bs =
     \<lparr>r_uid = of_le_bytes (field 0 8 bs), status_code = of_le_bytes (field 8 4 bs),
      r_ip = of_le_bytes (field 12 4 bs), r_mask = of_le_bytes (field 16 4 bs),
      r_dns1 = of_le_bytes (field 20 4 bs), r_dns2 = of_le_bytes (field 24 4 bs),
      r_mtu = of_le_bytes (field 28 2 bs)\<rparr>"

text \<open>Writing a body into the zeroed union.\<close>

definition zero_pad :: "nat \<Rightarrow> bytes \<Rightarrow> bytes" where
  "zero_pad n bs = bs @ replicate (n - length bs) 0"

section \<open>Constructors\<close>

definition char_byte :: "char \<Rightarrow> u8" where
  "char_byte c = of_nat (of_char c)"

definition byte_char :: "u8 \<Rightarrow> char" where
  "byte_char b = char_of (unat b)"

lemma byte_char_char_byte [simp]: "byte_char (char_byte c) = c"
  by (simp add: byte_char_def char_byte_def unat_of_nat char_of_take_bit_eq)

text \<open>\<^verbatim>\<open>snprintf\<close> into the 64 bytes of the host name; the string ends at its
  terminator.\<close>

definition hostname_field :: "string option \<Rightarrow> bytes" where
  "hostname_field name =
     zero_pad HOSTNAMSIZ (case name of None \<Rightarrow> [] | Some s \<Rightarrow> map char_byte (snprintf_trunc HOSTNAMSIZ s))"

definition ctrl_hdr :: "u16 \<Rightarrow> u64 \<Rightarrow> pkt_ctrl_hdr_t" where
  "ctrl_hdr ty uid = \<lparr>frame_len = htons 1024, head_magic = htonl HEAD_MAGIC, h_type = htons ty, h_uid = htonll uid\<rparr>"

definition pkt_ctrl_create_config_req :: "bool \<Rightarrow> u64 \<Rightarrow> u8 \<Rightarrow> string option \<Rightarrow> pkt_ctrl_t option" where
  "pkt_ctrl_create_config_req calloc_ok uid family name =
     (if \<not> calloc_ok then None
      else Some \<lparr>hdr = ctrl_hdr VPN_MSG_TYPE_CONFIG_REQ uid,
                 raw_padding = zero_pad BODYSIZ (req_bytes \<lparr>af_family = family, hostname = hostname_field name\<rparr>),
                 tail_magic = htonl TAIL_MAGIC\<rparr>)"

text \<open>The \<^verbatim>\<open>uid\<close> inside the body is not filled in; only the header carries it.\<close>

definition pkt_ctrl_create_config_resp ::
  "bool \<Rightarrow> u64 \<Rightarrow> u8 \<Rightarrow> u16 \<Rightarrow> in_addr \<Rightarrow> in_addr \<Rightarrow> in_addr \<Rightarrow> in_addr \<Rightarrow> pkt_ctrl_t option" where
  "pkt_ctrl_create_config_resp calloc_ok uid status mtu ip msk dns1 dns2 =
     (if \<not> calloc_ok then None
      else Some \<lparr>hdr = ctrl_hdr VPN_MSG_TYPE_CONFIG_RESP uid,
                 raw_padding = zero_pad BODYSIZ (resp_bytes
                   \<lparr>r_uid = 0, status_code = htonl (ucast status), r_ip = ip, r_mask = msk, r_dns1 = dns1,
                    r_dns2 = dns2, r_mtu = htons mtu\<rparr>),
                 tail_magic = htonl TAIL_MAGIC\<rparr>)"

section \<open>Receiving\<close>

text \<open>The header and tail in host order, and the test that drops a frame.\<close>

definition host_order :: "pkt_ctrl_t \<Rightarrow> pkt_ctrl_t" where
  "host_order p =
     p\<lparr>hdr := \<lparr>frame_len = ntohs (frame_len (hdr p)), head_magic = ntohl (head_magic (hdr p)),
               h_type = ntohs (h_type (hdr p)), h_uid = ntohll (h_uid (hdr p))\<rparr>,
       tail_magic := ntohl (tail_magic p)\<rparr>"

definition frame_ok :: "pkt_ctrl_t \<Rightarrow> bool" where
  "frame_ok p \<longleftrightarrow> frame_len (hdr p) = 1024 \<and> head_magic (hdr p) = HEAD_MAGIC \<and> tail_magic p = TAIL_MAGIC"

section \<open>Round trips\<close>

lemma field_append:
  "length xs \<le> off \<Longrightarrow> field off n (xs @ ys) = field (off - length xs) n ys"
  by (simp add: field_def)

lemma field_take: "off + n \<le> length xs \<Longrightarrow> field off n (xs @ ys) = field off n xs"
  by (simp add: field_def)

lemma field_all: "length xs = n \<Longrightarrow> field 0 n (xs @ ys) = xs" "length xs = n \<Longrightarrow> field 0 n xs = xs"
  by (simp_all add: field_def)

lemma length_bytes:
  "length (hdr_bytes h) = 16" "length (req_bytes q) = 1 + length (hostname q)" "length (resp_bytes r) = 30"
  "length (zero_pad n bs) = max n (length bs)"
  by (simp_all add: hdr_bytes_def req_bytes_def resp_bytes_def zero_pad_def)

lemma length_pkt_bytes: "length (raw_padding p) = BODYSIZ \<Longrightarrow> length (pkt_bytes p) = PKTCTRLSIZ"
  by (simp add: pkt_bytes_def length_bytes)

text \<open>Decoding what was encoded.\<close>

lemma pkt_of_bytes_pkt_bytes:
  assumes "length (raw_padding p) = BODYSIZ"
  shows "pkt_of_bytes (pkt_bytes p) = p"
  using assms by (simp add: pkt_of_bytes_def pkt_bytes_def hdr_bytes_def field_append field_all)

lemma resp_of_bytes_resp_bytes: "resp_of_bytes (zero_pad BODYSIZ (resp_bytes r)) = r"
  by (simp add: resp_of_bytes_def resp_bytes_def zero_pad_def field_append field_all)

lemma byte_roundtrip: "of_le_bytes [b] = b" for b :: u8
proof -
  have "le_bytes 1 b = [b]" by (simp add: le_bytes_def byte_of_def)
  then show ?thesis using of_le_bytes_le_bytes[of 1 b] by simp
qed

lemma req_of_bytes_req_bytes:
  "length (hostname q) = HOSTNAMSIZ \<Longrightarrow> req_of_bytes (zero_pad BODYSIZ (req_bytes q)) = q"
  using field_all(1)[of "[af_family q]" 1 "hostname q @ replicate (BODYSIZ - 65) 0"]
    field_append[of "[af_family q]" 1 HOSTNAMSIZ "hostname q @ replicate (BODYSIZ - 65) 0"]
  by (simp add: req_of_bytes_def req_bytes_def zero_pad_def field_all byte_roundtrip)

lemma hton_of_le_bytes:
  "length bs = 2 \<Longrightarrow> ntohs (of_le_bytes bs) = of_le_bytes (rev bs)"
  "length bs = 4 \<Longrightarrow> ntohl (of_le_bytes bs) = of_le_bytes (rev bs)"
  using le_bytes_of_le_bytes[of bs, where ?'l = 16] le_bytes_of_le_bytes[of bs, where ?'l = 32]
  by (simp_all add: htons_def htonl_def bswap_def)

lemma of_le_bytes_eq_iff:
  "8 * length bs = LENGTH('l) \<Longrightarrow> of_le_bytes bs = (w :: 'l::len word) \<longleftrightarrow> bs = le_bytes (length bs) w"
  by (metis le_bytes_of_le_bytes of_le_bytes_le_bytes order_refl)

lemma length_field: "off + n \<le> length bs \<Longrightarrow> length (field off n bs) = n"
  by (simp add: field_def)

text \<open>The wire form a receiver accepts, byte by byte.\<close>

lemma frame_ok_wire:
  assumes "length bs = PKTCTRLSIZ"
  shows "frame_ok (host_order (pkt_of_bytes bs)) \<longleftrightarrow>
    field 0 2 bs = [0x04, 0x00] \<and> field 2 4 bs = [0xAA, 0xBB, 0xCC, 0xDD] \<and>
    field 1020 4 bs = [0xDD, 0xBB, 0xCC, 0xAA]"
proof -
  have len: "length (field 0 2 bs) = 2" "length (field 2 4 bs) = 4" "length (field 1020 4 bs) = 4"
    using assms by (simp_all add: length_field)
  have "le_bytes 2 (1024 :: u16) = rev [0x04, 0x00]" "le_bytes 4 HEAD_MAGIC = rev [0xAA, 0xBB, 0xCC, 0xDD]"
    "le_bytes 4 TAIL_MAGIC = rev [0xDD, 0xBB, 0xCC, 0xAA]" by code_simp+
  moreover have "frame_ok (host_order (pkt_of_bytes bs)) \<longleftrightarrow>
      rev (field 0 2 bs) = le_bytes 2 (1024 :: u16) \<and> rev (field 2 4 bs) = le_bytes 4 HEAD_MAGIC \<and>
      rev (field 1020 4 bs) = le_bytes 4 TAIL_MAGIC"
    using of_le_bytes_eq_iff[of "rev (field 0 2 bs)", where ?'l = 16]
      of_le_bytes_eq_iff[of "rev (field 2 4 bs)", where ?'l = 32]
      of_le_bytes_eq_iff[of "rev (field 1020 4 bs)", where ?'l = 32] len
    by (simp add: frame_ok_def host_order_def pkt_of_bytes_def hton_of_le_bytes)
  ultimately show ?thesis by (simp only: rev_is_rev_conv)
qed

section \<open>Properties\<close>

text \<open>The characters of a C string in a field: up to the terminator.\<close>

definition c_string :: "bytes \<Rightarrow> string" where
  "c_string bs = map byte_char (takeWhile (\<lambda>b. b \<noteq> 0) bs)"

lemma c_string_hostname:
  assumes "CHR 0x00 \<notin> set s"
  shows "c_string (hostname_field (Some s)) = take 63 s" "length (hostname_field name) = HOSTNAMSIZ"
proof -
  have nz: "char_byte c \<noteq> 0" if "c \<in> set s" for c
  proof
    assume "char_byte c = 0"
    moreover have "char_byte (CHR 0x00) = 0" by code_simp
    ultimately show False using that assms by (metis byte_char_char_byte)
  qed
  have "takeWhile (\<lambda>b. b \<noteq> 0) (map char_byte (take 63 s) @ replicate n 0) = map char_byte (take 63 s)" for n
    using nz by (subst takeWhile_append2) (auto dest: in_set_takeD simp: takeWhile_eq_Nil_iff)
  then show "c_string (hostname_field (Some s)) = take 63 s"
    by (simp add: c_string_def hostname_field_def zero_pad_def snprintf_trunc_def o_def)
  show "length (hostname_field name) = HOSTNAMSIZ"
    by (simp add: hostname_field_def length_bytes snprintf_trunc_def split: option.split)
qed

text \<open>
  C32. Control frames round trip. Every frame the constructors build is exactly 1024 bytes, is
  accepted by the receivers' check, and decodes to the values it was built from: the message
  type, the client id, and for a response the address, mask, both resolvers, the MTU and the
  status, for a request the address family and the first 63 characters of the host name. And the
  check accepts exactly the frames with the length, the head magic and the tail magic, in network
  byte order, at bytes 0, 2 and 1020.
\<close>

theorem ctrl_frame_roundtrip:
  assumes "CHR 0x00 \<notin> set name" and "length bs = PKTCTRLSIZ"
  shows "(\<exists>p q. pkt_ctrl_create_config_resp True uid status mtu ip msk dns1 dns2 = Some p \<and>
      length (pkt_bytes p) = PKTCTRLSIZ \<and> q = host_order (pkt_of_bytes (pkt_bytes p)) \<and> frame_ok q \<and>
      h_type (hdr q) = VPN_MSG_TYPE_CONFIG_RESP \<and> h_uid (hdr q) = uid \<and>
      (let r = resp_of_bytes (raw_padding q) in
         r_ip r = ip \<and> r_mask r = msk \<and> r_dns1 r = dns1 \<and> r_dns2 r = dns2 \<and> ntohs (r_mtu r) = mtu \<and>
         ntohl (status_code r) = ucast status)) \<and>
    (\<exists>p q. pkt_ctrl_create_config_req True uid family (Some name) = Some p \<and>
      length (pkt_bytes p) = PKTCTRLSIZ \<and> q = host_order (pkt_of_bytes (pkt_bytes p)) \<and> frame_ok q \<and>
      h_type (hdr q) = VPN_MSG_TYPE_CONFIG_REQ \<and> h_uid (hdr q) = uid \<and>
      (let r = req_of_bytes (raw_padding q) in af_family r = family \<and> c_string (hostname r) = take 63 name)) \<and>
    (frame_ok (host_order (pkt_of_bytes bs)) \<longleftrightarrow>
      field 0 2 bs = [0x04, 0x00] \<and> field 2 4 bs = [0xAA, 0xBB, 0xCC, 0xDD] \<and>
      field 1020 4 bs = [0xDD, 0xBB, 0xCC, 0xAA])"
proof -
  have "\<exists>p q. pkt_ctrl_create_config_resp True uid status mtu ip msk dns1 dns2 = Some p \<and>
      length (pkt_bytes p) = PKTCTRLSIZ \<and> q = host_order (pkt_of_bytes (pkt_bytes p)) \<and> frame_ok q \<and>
      h_type (hdr q) = VPN_MSG_TYPE_CONFIG_RESP \<and> h_uid (hdr q) = uid \<and>
      (let r = resp_of_bytes (raw_padding q) in
         r_ip r = ip \<and> r_mask r = msk \<and> r_dns1 r = dns1 \<and> r_dns2 r = dns2 \<and> ntohs (r_mtu r) = mtu \<and>
         ntohl (status_code r) = ucast status)"
    by (simp add: pkt_ctrl_create_config_resp_def length_pkt_bytes pkt_of_bytes_pkt_bytes length_bytes
        host_order_def frame_ok_def ctrl_hdr_def resp_of_bytes_resp_bytes)
  moreover have "\<exists>p q. pkt_ctrl_create_config_req True uid family (Some name) = Some p \<and>
      length (pkt_bytes p) = PKTCTRLSIZ \<and> q = host_order (pkt_of_bytes (pkt_bytes p)) \<and> frame_ok q \<and>
      h_type (hdr q) = VPN_MSG_TYPE_CONFIG_REQ \<and> h_uid (hdr q) = uid \<and>
      (let r = req_of_bytes (raw_padding q) in af_family r = family \<and> c_string (hostname r) = take 63 name)"
    using c_string_hostname[OF assms(1)]
    by (simp add: pkt_ctrl_create_config_req_def length_pkt_bytes pkt_of_bytes_pkt_bytes length_bytes
        host_order_def frame_ok_def ctrl_hdr_def req_of_bytes_req_bytes)
  ultimately show ?thesis using frame_ok_wire[OF assms(2)] by blast
qed

theorem ctrl_frame_roundtrip_witness:
  "\<exists>p q. pkt_ctrl_create_config_req True 7 2 (Some ''laptop'') = Some p \<and>
     q = host_order (pkt_of_bytes (pkt_bytes p)) \<and> frame_ok q \<and> h_uid (hdr q) = 7 \<and>
     c_string (hostname (req_of_bytes (raw_padding q))) = ''laptop'' \<and>
     \<not> frame_ok (host_order (pkt_of_bytes (replicate PKTCTRLSIZ 0)))"
proof -
  have "field 0 2 (replicate PKTCTRLSIZ (0::u8)) \<noteq> [0x04, 0x00]"
    by (auto simp: field_def dest: arg_cong[where f = hd])
  then show ?thesis
    using ctrl_frame_roundtrip[of "''laptop''" "replicate PKTCTRLSIZ 0" 7 0 0 0 0 0 0 2]
    by (simp add: Let_def) blast
qed

end
