(* ===== verification/Pkt_Data.thy ===== *)
theory Pkt_Data
  imports Pkt_Ctrl
begin

text \<open>
  Tunnelled packets, \<^verbatim>\<open>common/src/pkt_data.c\<close>: the addresses of an IPv4 packet and
  the line that is logged for it. Every read of the packet goes through a check against the
  buffer, so that a read behind its end is a visible fault; what is logged is a value.
\<close>

section \<open>Reading a buffer\<close>

abbreviation IPHDR :: nat where "IPHDR \<equiv> 20"
abbreviation TCPHDR :: nat where "TCPHDR \<equiv> 20"
abbreviation UDPHDR :: nat where "UDPHDR \<equiv> 8"
abbreviation DATAPKTBUF :: nat where "DATAPKTBUF \<equiv> 2048"

definition rd :: "nat \<Rightarrow> nat \<Rightarrow> bytes \<Rightarrow> bytes option" where
  "rd off n buf = (if off + n \<le> length buf then Some (field off n buf) else None)"

text \<open>\<^verbatim>\<open>struct iphdr\<close>: version and header length are the two halves of the first
  byte; addresses are in network byte order.\<close>

record iphdr =
  version :: u8
  ihl :: u8
  protocol :: u8
  saddr :: in_addr
  daddr :: in_addr

definition iphdr_of :: "bytes \<Rightarrow> iphdr" where
  "iphdr_of h =
     \<lparr>version = drop_bit 4 (h ! 0), ihl = h ! 0 AND 0x0F, protocol = h ! 9,
      saddr = of_le_bytes (field 12 4 h), daddr = of_le_bytes (field 16 4 h)\<rparr>"

section \<open>Addresses\<close>

text \<open>The two output pointers are never null in the program; the flag says so.\<close>

definition pkt_data_iphdr :: "bytes option \<Rightarrow> int \<Rightarrow> bool \<Rightarrow> (in_addr \<times> in_addr) cres" where
  "pkt_data_iphdr pkt len outs =
     (if \<not> outs then Err EINVAL
      else case pkt of None \<Rightarrow> Err EINVAL
      | Some buf \<Rightarrow>
        if len < int IPHDR then Err EINVAL
        else case rd 0 IPHDR buf of None \<Rightarrow> Abort
        | Some h \<Rightarrow>
          let ip = iphdr_of h in
          if version ip \<noteq> 4 then Err ENOSPC else Ok (saddr ip, daddr ip))"

section \<open>Logging\<close>

datatype pkt_line =
    Malformed | Icmp string string | Tcp string string u16 u16 | TcpTruncated string string
  | Udp string string u16 u16 | UdpTruncated string string | Other string string u8 | NonIPv4 u8

definition ports :: "bytes \<Rightarrow> u16 \<times> u16" where
  "ports h = (ntohs (of_le_bytes (field 0 2 h)), ntohs (of_le_bytes (field 2 2 h)))"

definition pkt_data_print :: "bytes option \<Rightarrow> nat \<Rightarrow> (pkt_line option \<times> int) cres" where
  "pkt_data_print pbuf len =
     (case pbuf of None \<Rightarrow> Ok (None, - EINVAL)
      | Some buf \<Rightarrow>
        if len < IPHDR then Ok (None, - EINVAL)
        else case rd 0 1 buf of None \<Rightarrow> Abort
        | Some b0 \<Rightarrow>
          if drop_bit 4 (b0 ! 0) AND 0x0F \<noteq> 4 then Ok (Some (NonIPv4 (drop_bit 4 (b0 ! 0) AND 0x0F)), 0)
          else case rd 0 IPHDR buf of None \<Rightarrow> Abort
          | Some h \<Rightarrow>
            let iph = iphdr_of h; hlen = unat (ihl iph) * 4 in
            if ihl iph < 5 \<or> len < hlen then Ok (Some Malformed, - EAFNOSUPPORT)
            else case (inet_ntop (saddr iph) 16, inet_ntop (daddr iph) 16) of
              (Ok src, Ok dst) \<Rightarrow>
                if protocol iph = 1 then Ok (Some (Icmp src dst), 0)
                else if protocol iph = 6 then
                  (if len < hlen + TCPHDR then Ok (Some (TcpTruncated src dst), 0)
                   else case rd hlen TCPHDR buf of None \<Rightarrow> Abort
                   | Some th \<Rightarrow> Ok (Some (Tcp src dst (fst (ports th)) (snd (ports th))), 0))
                else if protocol iph = 17 then
                  (if len < hlen + UDPHDR then Ok (Some (UdpTruncated src dst), 0)
                   else case rd hlen UDPHDR buf of None \<Rightarrow> Abort
                   | Some uh \<Rightarrow> Ok (Some (Udp src dst (fst (ports uh)) (snd (ports uh))), 0))
                else Ok (Some (Other src dst (protocol iph)), 0)
            | _ \<Rightarrow> Ok (None, - EAFNOSUPPORT))"

section \<open>Properties\<close>

text \<open>When a packet counts as IPv4 with a whole header.\<close>

definition ipv4_packet :: "bytes \<Rightarrow> bool" where
  "ipv4_packet p \<longleftrightarrow> IPHDR \<le> length p \<and> drop_bit 4 (p ! 0) = 4"

lemma rd_ok: "off + n \<le> length buf \<Longrightarrow> rd off n buf = Some (field off n buf)"
  by (simp add: rd_def)

lemma nth_field: "i < n \<Longrightarrow> off + n \<le> length buf \<Longrightarrow> field off n buf ! i = buf ! (off + i)"
  by (simp add: field_def)

lemma field_field: "off + n \<le> k \<Longrightarrow> field off n (field 0 k buf) = field off n buf"
  by (simp add: field_def take_drop min_absorb1)

lemma pkt_data_iphdr_eq:
  assumes "n \<le> length buf"
  shows "pkt_data_iphdr (Some buf) (int n) True =
    (if ipv4_packet (take n buf) then Ok (of_le_bytes (field 12 4 buf), of_le_bytes (field 16 4 buf))
     else if n < IPHDR then Err EINVAL else Err ENOSPC)"
  using assms
  by (auto simp: pkt_data_iphdr_def rd_ok iphdr_of_def ipv4_packet_def nth_field field_field)

lemma nibble_lt: "(b AND 0x0F :: u8) \<le> 15"
  by (rule order.trans[OF word_and_le1]) simp

lemma pkt_data_print_total:
  assumes "n \<le> length buf"
  shows "\<exists>line rc. pkt_data_print (Some buf) n = Ok (line, rc) \<and>
       (rc \<noteq> 0 \<longleftrightarrow> n < IPHDR \<or>
         ipv4_packet (take n buf) \<and> (buf ! 0 AND 0x0F < 5 \<or> n < unat (buf ! 0 AND 0x0F) * 4))"
proof (cases "n < IPHDR")
  case True
  then show ?thesis by (simp add: pkt_data_print_def)
next
  case False
  let ?h = "field 0 IPHDR buf"
  have r: "rd 0 1 buf = Some (field 0 1 buf)" "rd 0 IPHDR buf = Some ?h" "field 0 1 buf ! 0 = buf ! 0" "?h ! 0 = buf ! 0"
    using False assms by (simp_all add: rd_ok nth_field)
  have nib: "drop_bit 4 (buf ! 0) AND 0x0F = drop_bit 4 (buf ! 0)"
  proof -
    have "(0x0F :: u8) = Bit_Operations.mask 4" by (simp add: mask_eq_exp_minus_1)
    moreover have "take_bit 4 (drop_bit 4 (buf ! 0)) = drop_bit 4 (buf ! 0)"
      by (rule bit_word_eqI) (auto simp: bit_simps dest: bit_imp_le_length)
    ultimately show ?thesis by (simp add: take_bit_eq_mask)
  qed
  have ntop: "inet_ntop a 16 = Ok (dotted a)" for a using length_dotted[of a] by (simp add: inet_ntop_def)
  have v4: "ipv4_packet (take n buf) \<longleftrightarrow> drop_bit 4 (buf ! 0) = 4"
    using False assms by (simp add: ipv4_packet_def)
  show ?thesis
  proof (cases "drop_bit 4 (buf ! 0) = 4")
    case no: False
    then show ?thesis using False v4 r nib by (simp add: pkt_data_print_def)
  next
    case yes: True
    let ?hl = "unat (buf ! 0 AND 0x0F) * 4"
    have tcp: "rd ?hl TCPHDR buf = Some (field ?hl TCPHDR buf)" if "\<not> n < ?hl + TCPHDR"
      using that assms by (intro rd_ok) linarith
    have udp: "rd ?hl UDPHDR buf = Some (field ?hl UDPHDR buf)" if "\<not> n < ?hl + UDPHDR"
      using that assms by (intro rd_ok) linarith
    have hdr: "version (iphdr_of ?h) = 4" "ihl (iphdr_of ?h) = buf ! 0 AND 0x0F"
      using yes r(4) by (simp_all add: iphdr_of_def)
    show ?thesis
    proof (cases "buf ! 0 AND 0x0F < 5 \<or> n < ?hl")
      case True
      then show ?thesis using False yes v4 r nib hdr by (simp add: pkt_data_print_def Let_def)
    next
      case ok: False
      show ?thesis
        unfolding pkt_data_print_def option.case r Let_def hdr ntop
        using False yes v4 ok nib r tcp udp by simp
    qed
  qed
qed

text \<open>
  C36. Packets are read within their bounds. For a packet whose stated length does not exceed the
  buffer, neither function ever reads behind the buffer, whatever the bytes say, header lengths
  and protocols included. The addresses are delivered exactly for packets with a whole header of
  version 4, and are the four bytes at offsets 12 and 16; shorter packets are refused with
  \<^verbatim>\<open>EINVAL\<close>, other versions with \<^verbatim>\<open>ENOSPC\<close>. The logging function reports
  an error only for short packets and for a header length that is below five words or beyond the
  packet.
\<close>

theorem pkt_data_bounds:
  assumes "n \<le> length buf"
  shows "pkt_data_iphdr (Some buf) (int n) True =
      (if ipv4_packet (take n buf) then Ok (of_le_bytes (field 12 4 buf), of_le_bytes (field 16 4 buf))
       else if n < IPHDR then Err EINVAL else Err ENOSPC) \<and>
    (\<exists>line rc. pkt_data_print (Some buf) n = Ok (line, rc) \<and>
       (rc \<noteq> 0 \<longleftrightarrow> n < IPHDR \<or>
         ipv4_packet (take n buf) \<and> (buf ! 0 AND 0x0F < 5 \<or> n < unat (buf ! 0 AND 0x0F) * 4)))"
  using pkt_data_iphdr_eq[OF assms] pkt_data_print_total[OF assms] by blast

theorem pkt_data_bounds_witness:
  "pkt_data_iphdr (Some ([0x45] @ replicate 11 0 @ [10, 0, 0, 2, 10, 0, 0, 1])) 20 True = Ok (0x0200000A, 0x0100000A)"
proof -
  let ?p = "[0x45] @ replicate 11 0 @ [10, 0, 0, 2, 10, 0, 0, 1] :: bytes"
  have "ipv4_packet (take 20 ?p)" "(of_le_bytes (field 12 4 ?p) :: u32) = 0x0200000A"
    "(of_le_bytes (field 16 4 ?p) :: u32) = 0x0100000A" by code_simp+
  then show ?thesis using pkt_data_bounds[of 20 ?p] by simp
qed

end
