(* ===== verification/Lease_Spec.thy ===== *)
theory Lease_Spec
  imports Prelude
begin

text \<open>
  What a table of leases promises: entries are handed to clients one at a time, an entry with a
  holder is not handed out again, only usable entries are handed out, and a request fails only
  when every usable entry has a holder. The address pool of the server keeps this contract.
\<close>

section \<open>Holders\<close>

text \<open>The holders keep a list of what they acquired; they acquire for a client or release the
  entry at some position of the list.\<close>

datatype 'c lease_op = Acquire 'c | Release nat

fun lease_holder ::
  "('c \<Rightarrow> 's \<Rightarrow> 'e option \<times> 's) \<Rightarrow> ('e \<Rightarrow> 's \<Rightarrow> 's) \<Rightarrow> 's \<times> ('e \<times> 'c) list \<Rightarrow> 'c lease_op \<Rightarrow> 's \<times> ('e \<times> 'c) list"
where
  "lease_holder acquire release (s, hs) (Acquire c) =
     (case acquire c s of (None, s') \<Rightarrow> (s', hs) | (Some e, s') \<Rightarrow> (s', hs @ [(e, c)]))"
| "lease_holder acquire release (s, hs) (Release i) =
     (if i < length hs then (release (fst (hs ! i)) s, take i hs @ drop (Suc i) hs) else (s, hs))"

definition lease_run ::
  "('c \<Rightarrow> 's \<Rightarrow> 'e option \<times> 's) \<Rightarrow> ('e \<Rightarrow> 's \<Rightarrow> 's) \<Rightarrow> 's \<Rightarrow> 'c lease_op list \<Rightarrow> 's \<times> ('e \<times> 'c) list" where
  "lease_run acquire release s ops = foldl (lease_holder acquire release) (s, []) ops"

text \<open>Removing the entry in the middle removes its key, when no other entry has it.\<close>

lemma map_of_remove_mid:
  assumes "fst kv \<notin> fst ` set (xs @ ys)"
  shows "(map_of (xs @ kv # ys))(fst kv := None) = map_of (xs @ ys)"
proof
  fix x
  show "((map_of (xs @ kv # ys))(fst kv := None)) x = map_of (xs @ ys) x"
  proof (cases "x = fst kv")
    case True
    moreover have "map_of (xs @ ys) (fst kv) = None" using assms unfolding map_of_eq_None_iff .
    ultimately show ?thesis by (simp del: map_of_append)
  next
    case False
    then show ?thesis by (simp add: map_add_def split: option.split)
  qed
qed

section \<open>The contract\<close>

locale lease_table =
  fixes inv :: "'s \<Rightarrow> bool"
    and leases :: "'s \<Rightarrow> 'e \<rightharpoonup> 'c"
    and usable :: "'s \<Rightarrow> 'e set"
    and acquire :: "'c \<Rightarrow> 's \<Rightarrow> 'e option \<times> 's"
    and release :: "'e \<Rightarrow> 's \<Rightarrow> 's"
  assumes acquire_Some: "inv s \<Longrightarrow> acquire c s = (Some e, s') \<Longrightarrow>
      inv s' \<and> usable s' = usable s \<and> e \<in> usable s \<and> leases s e = None \<and> leases s' = (leases s)(e \<mapsto> c)"
    and acquire_None: "inv s \<Longrightarrow> acquire c s = (None, s') \<Longrightarrow> s' = s \<and> usable s \<subseteq> dom (leases s)"
    and release_held: "inv s \<Longrightarrow> leases s e \<noteq> None \<Longrightarrow>
      inv (release e s) \<and> usable (release e s) = usable s \<and> leases (release e s) = (leases s)(e := None)"
    and leased_usable: "inv s \<Longrightarrow> dom (leases s) \<subseteq> usable s"
    and finite_usable: "finite (usable s)"
begin

definition tracks :: "'s \<times> ('e \<times> 'c) list \<Rightarrow> 's \<Rightarrow> bool" where
  "tracks sh s0 \<longleftrightarrow> inv (fst sh) \<and> usable (fst sh) = usable s0 \<and> distinct (map fst (snd sh)) \<and>
     leases (fst sh) = map_of (snd sh)"

lemma holder_step:
  assumes "tracks sh s0"
  shows "tracks (lease_holder acquire release sh op) s0"
proof -
  obtain s hs where sh: "sh = (s, hs)" by (cases sh)
  have t: "inv s" "usable s = usable s0" "distinct (map fst hs)" "leases s = map_of hs"
    using assms sh by (auto simp: tracks_def)
  show ?thesis
  proof (cases op)
    case (Acquire c)
    obtain r s' where a: "acquire c s = (r, s')" by (cases "acquire c s")
    show ?thesis
    proof (cases r)
      case None
      then show ?thesis using acquire_None[of s c s'] a t Acquire sh by (simp add: tracks_def)
    next
      case (Some e)
      then have e: "inv s'" "usable s' = usable s" "map_of hs e = None" "leases s' = (map_of hs)(e \<mapsto> c)"
        using acquire_Some[of s c e s'] a t by auto
      have "map_of (hs @ [(e, c)]) = (map_of hs)(e \<mapsto> c)"
        using e(3) by (auto simp: map_add_def split: option.splits)
      moreover have "e \<notin> fst ` set hs" using e(3) by (simp add: map_of_eq_None_iff)
      ultimately show ?thesis using a Some Acquire sh t e by (simp add: tracks_def)
    qed
  next
    case (Release i)
    show ?thesis
    proof (cases "i < length hs")
      case True
      let ?rest = "take i hs @ drop (Suc i) hs"
      have split: "hs = take i hs @ hs ! i # drop (Suc i) hs" by (rule id_take_nth_drop[OF True])
      then have "map fst hs = map fst (take i hs) @ fst (hs ! i) # map fst (drop (Suc i) hs)"
        by (metis list.simps(9) map_append)
      then have d: "distinct (map fst ?rest)" "fst (hs ! i) \<notin> fst ` set ?rest"
        using t(3) by (auto simp: image_Un)
      have "(map_of hs)(fst (hs ! i) := None) = map_of ?rest"
        using map_of_remove_mid[OF d(2)] split by simp
      moreover have "leases s (fst (hs ! i)) \<noteq> None"
        using t(4) True by (metis map_of_eq_None_iff image_eqI nth_mem)
      ultimately show ?thesis using release_held[OF t(1)] t(2,4) Release True sh d(1) by (simp add: tracks_def)
    next
      case False
      then show ?thesis using Release assms sh by simp
    qed
  qed
qed

text \<open>Any run: the table holds exactly what the holders hold, nothing is handed out twice, and
  only usable entries are.\<close>

lemma run_tracks:
  assumes "inv s" "leases s = Map.empty"
  shows "tracks (lease_run acquire release s ops) s"
proof -
  have "tracks (foldl (lease_holder acquire release) sh ops) s" if "tracks sh s" for sh
    using that
  proof (induction ops arbitrary: sh)
    case (Cons op ops)
    then show ?case using holder_step[OF Cons.prems, of op] by simp
  qed simp
  then show ?thesis using assms by (simp add: lease_run_def tracks_def)
qed

lemma run_safe:
  assumes "inv s" "leases s = Map.empty" and r: "lease_run acquire release s ops = (s', hs)"
  shows "inv s' \<and> distinct (map fst hs) \<and> fst ` set hs \<subseteq> usable s \<and> leases s' = map_of hs \<and>
    (fst (acquire c s') = None \<longleftrightarrow> fst ` set hs = usable s) \<and> length hs \<le> card (usable s)"
proof -
  have t: "inv s'" "usable s' = usable s" "distinct (map fst hs)" "leases s' = map_of hs"
    using run_tracks[OF assms(1,2), of ops] r by (auto simp: tracks_def)
  have sub: "fst ` set hs \<subseteq> usable s" using leased_usable[OF t(1)] t(2,4) by (simp add: dom_map_of_conv_image_fst)
  have "fst (acquire c s') = None \<longleftrightarrow> fst ` set hs = usable s"
  proof (cases "acquire c s'")
    case (Pair r s'')
    show ?thesis
    proof (cases r)
      case None
      then show ?thesis using acquire_None[OF t(1), of c s''] Pair t(2,4) sub
        by (auto simp: dom_map_of_conv_image_fst)
    next
      case (Some e)
      then have "e \<in> usable s" "map_of hs e = None" using acquire_Some[OF t(1), of c e s''] Pair t(2,4) by auto
      then have "fst ` set hs \<noteq> usable s" by (auto simp: map_of_eq_None_iff)
      then show ?thesis using Pair Some by simp
    qed
  qed
  moreover have "length hs \<le> card (usable s)"
    using card_mono[OF finite_usable sub] distinct_card[OF t(3)] by simp
  ultimately show ?thesis using t sub by blast
qed

end

end
