(* ===== verification/Tun_Driver.thy ===== *)
theory Tun_Driver
  imports Net_Utils
begin

text \<open>
  The tunnel device: \<^verbatim>\<open>common/src/tun_driver.c\<close>, the operations on the system, and
  \<^verbatim>\<open>common/src/tun.c\<close>, the wrappers that dispatch through the table of the chosen
  backend and keep the status flags. Every request to the system (opening the device, a socket,
  an ioctl, a command, an nftables script) is a value; what the system answers is a function of
  the request, zero or positive for success and a negated error number otherwise, and each
  operation returns the requests it made in order.
\<close>

section \<open>Requests and the device structure\<close>

datatype sys_req =
    OpenTun | TunSetIff string | Malloc | Socket
  | SetIfAddr string in_addr | SetIfMask string in_addr | SetIfMtu string u16
  | GetIfFlags string | SetIfFlags string u16
  | Run "string list" | NftScript string string
  | CloseFd int

text \<open>\<^verbatim>\<open>sys_priv_data_t\<close>: the located binaries.\<close>

record bin_paths =
  bp_sysctl :: string
  bp_ip :: string
  bp_resolvectl :: string
  bp_iptables :: string
  bp_iptables_restore :: string
  bp_nft :: string

datatype tun_backend = TUN_BACKEND_NETLINK_CLIENT | TUN_BACKEND_NETLINK_SERVER | TUN_BACKEND_IOCTL | VPN_CUSTOM

record tun_iface =
  tun_fd :: int
  sts_flags :: u64
  ifname :: string
  t_ip :: in_addr
  t_mask :: in_addr
  t_prefix :: u8
  t_net :: in_addr
  t_dns1 :: in_addr
  t_dns2 :: in_addr
  t_mtu :: u16
  t_api :: "tun_backend option"
  priv_data :: "bin_paths option"

abbreviation IFNAMSIZ :: nat where "IFNAMSIZ \<equiv> 16"
abbreviation IFF_UP :: u16 where "IFF_UP \<equiv> 1"
abbreviation IFF_RUNNING :: u16 where "IFF_RUNNING \<equiv> 0x40"
abbreviation INET_CIDRSTRLEN :: nat where "INET_CIDRSTRLEN \<equiv> 20"

type_synonym sys = "sys_req \<Rightarrow> int"
type_synonym tun_res = "tun_iface \<times> sys_req list \<times> int"

text \<open>What the driver learns besides the result code: the name the kernel chose, the interface
  flags, and which paths are executable.\<close>

record sys_info =
  si_ifname :: string
  si_flags :: u16
  si_exec :: "string \<Rightarrow> bool"

section \<open>Addresses from text\<close>

text \<open>\<^verbatim>\<open>inet_pton\<close> for IPv4: four decimal numbers below 256 without leading zeros,
  separated by dots.\<close>

fun split_dots :: "string \<Rightarrow> string list" where
  "split_dots [] = [[]]"
| "split_dots (c # cs) =
     (if c = CHR ''.'' then [] # split_dots cs
      else (case split_dots cs of [] \<Rightarrow> [[c]] | p # ps \<Rightarrow> (c # p) # ps))"

definition is_digit :: "char \<Rightarrow> bool" where
  "is_digit c \<longleftrightarrow> 48 \<le> (of_char c :: nat) \<and> (of_char c :: nat) \<le> 57"

definition read_octet :: "string \<Rightarrow> nat option" where
  "read_octet s =
     (if s = [] \<or> 3 < length s \<or> \<not> list_all is_digit s \<or> (1 < length s \<and> hd s = CHR ''0'') then None
      else let v = foldl (\<lambda>n c. 10 * n + (of_char c - 48)) 0 s in if v \<le> 255 then Some v else None)"

definition inet_pton :: "string \<Rightarrow> in_addr option" where
  "inet_pton s =
     (case split_dots s of
        [a, b, c, d] \<Rightarrow>
          (case (read_octet a, read_octet b, read_octet c, read_octet d) of
             (Some a', Some b', Some c', Some d') \<Rightarrow>
               Some (of_le_bytes [of_nat a', of_nat b', of_nat c', of_nat d'])
           | _ \<Rightarrow> None)
      | _ \<Rightarrow> None)"

text \<open>The decimal text of a byte, digit by digit.\<close>

definition digit :: "nat \<Rightarrow> char" where
  "digit d = char_of (48 + d)"

lemma of_char_digit [simp]: "d < 10 \<Longrightarrow> (of_char (digit d) :: nat) = 48 + d"
  by (simp add: digit_def)

lemma is_digit_digit [simp]: "d < 10 \<Longrightarrow> is_digit (digit d)"
  by (simp add: is_digit_def)

lemma digit_zero: "d < 10 \<Longrightarrow> digit d = CHR ''0'' \<longleftrightarrow> d = 0"
proof -
  assume d: "d < 10"
  have "(of_char (CHR ''0'') :: nat) = 48" by simp
  then show ?thesis using d by (metis of_char_digit add_cancel_right_right of_char_eq_iff)
qed

lemma digit_not_dot: "d < 10 \<Longrightarrow> digit d \<noteq> CHR ''.''"
proof
  assume "d < 10" "digit d = CHR ''.''"
  moreover have "(of_char (CHR ''.'') :: nat) = 46" by simp
  ultimately show False using of_char_digit[of d] by simp
qed

lemma show_nat_byte:
  assumes "n < 256"
  shows "show_nat n =
    (if n < 10 then [digit n] else if n < 100 then [digit (n div 10), digit (n mod 10)]
     else [digit (n div 100), digit (n div 10 mod 10), digit (n mod 10)])"
proof -
  have "n div 10 div 10 = n div 100" by (simp add: div_mult2_eq[symmetric])
  moreover have "n div 100 < 10" "n div 10 < 10 \<longleftrightarrow> n < 100" using assms by auto
  ultimately show ?thesis using assms
    by (simp add: show_nat.simps[of n] show_nat.simps[of "n div 10"] show_nat.simps[of "n div 100"] digit_def)
qed

lemma read_octet_show: "n < 256 \<Longrightarrow> read_octet (show_nat n) = Some n"
proof -
  assume n: "n < 256"
  have h: "n div 100 < 10" using n by simp
  have "10 * (10 * (n div 100) + n div 10 mod 10) + n mod 10 = n"
  proof -
    have "n div 10 div 10 = n div 100" by (simp add: div_mult2_eq[symmetric])
    then have "10 * (n div 100) + n div 10 mod 10 = n div 10" by (metis mult_div_mod_eq)
    then show ?thesis by simp
  qed
  then have three: "foldl (\<lambda>n c. 10 * n + (of_char c - 48)) 0
      [digit (n div 100), digit (n div 10 mod 10), digit (n mod 10)] = n" using h by simp
  consider "n < 10" | "10 \<le> n" "n < 100" | "100 \<le> n" by linarith
  then show ?thesis
  proof cases
    case 1
    then show ?thesis using n by (simp add: show_nat_byte read_octet_def)
  next
    case 2
    then have "n div 10 < 10" "n div 10 \<noteq> 0" by auto
    then show ?thesis using 2 n by (simp add: show_nat_byte read_octet_def digit_zero)
  next
    case 3
    then have "n div 100 \<noteq> 0" by auto
    then show ?thesis using 3 n h three
      by (simp add: show_nat_byte read_octet_def digit_zero del: foldl.simps)
  qed
qed

lemma show_no_dot: "n < 256 \<Longrightarrow> CHR ''.'' \<notin> set (show_nat n)"
proof -
  assume n: "n < 256"
  have "n < 100 \<Longrightarrow> n div 10 < 10" "n div 100 < 10" using n by auto
  then show ?thesis using n digit_not_dot[of n] digit_not_dot[of "n div 10"] digit_not_dot[of "n mod 10"]
      digit_not_dot[of "n div 100"] digit_not_dot[of "n div 10 mod 10"]
    by (auto simp: show_nat_byte)
qed

lemma split_dots_nodot: "CHR ''.'' \<notin> set s \<Longrightarrow> split_dots s = [s]"
  by (induction s) auto

lemma split_dots_append: "CHR ''.'' \<notin> set s \<Longrightarrow> split_dots (s @ ''.'' @ t) = s # split_dots t"
  by (induction s) auto

lemma inet_pton_dotted [simp]: "inet_pton (dotted a) = Some a"
proof -
  let ?b = "\<lambda>i. unat (byte_of a i)"
  have lt: "?b i < 256" for i using unsigned_less[of "byte_of a i", where ?'a = nat] by simp
  have "split_dots (dotted a) = [show_nat (?b 0), show_nat (?b 1), show_nat (?b 2), show_nat (?b 3)]"
    unfolding dotted_def
    by (simp only: split_dots_append[OF show_no_dot[OF lt]] split_dots_nodot[OF show_no_dot[OF lt]])
  then have "inet_pton (dotted a) = Some (of_le_bytes [byte_of a 0, byte_of a 1, byte_of a 2, byte_of a 3])"
    by (simp add: inet_pton_def read_octet_show[OF lt])
  also have "[byte_of a 0, byte_of a 1, byte_of a 2, byte_of a 3] = le_bytes 4 a"
    by (simp add: le_bytes_def upt_rec numeral_2_eq_2 numeral_3_eq_3)
  finally show ?thesis by simp
qed

section \<open>Locating the binaries\<close>

definition in_dirs :: "string \<Rightarrow> string list \<Rightarrow> string list" where
  "in_dirs name dirs = map (\<lambda>d. d @ ''/'' @ name) dirs"

definition sbin_dirs :: "string list" where
  "sbin_dirs = [''/sbin'', ''/usr/sbin'', ''/bin'', ''/usr/bin'']"

text \<open>\<^const>\<open>None\<close> is \<^verbatim>\<open>-ENOENT\<close>: one of the six binaries is missing.\<close>

definition init_priv_data :: "(string \<Rightarrow> bool) \<Rightarrow> bin_paths option" where
  "init_priv_data exec =
     (case find_binary exec (in_dirs ''sysctl'' sbin_dirs) of None \<Rightarrow> None | Some sysctl \<Rightarrow>
     (case find_binary exec (in_dirs ''ip'' sbin_dirs) of None \<Rightarrow> None | Some ip \<Rightarrow>
     (case find_binary exec (in_dirs ''iptables'' sbin_dirs) of None \<Rightarrow> None | Some iptables \<Rightarrow>
     (case find_binary exec (in_dirs ''iptables-restore'' sbin_dirs) of None \<Rightarrow> None | Some restore \<Rightarrow>
     (case find_binary exec [''/usr/bin/resolvectl'', ''/bin/resolvectl''] of None \<Rightarrow> None | Some resolvectl \<Rightarrow>
     (case find_binary exec [''/usr/sbin/nft'', ''/sbin/nft'', ''/usr/bin/nft'', ''/usr/local/sbin/nft''] of
        None \<Rightarrow> None
      | Some nft \<Rightarrow> Some \<lparr>bp_sysctl = sysctl, bp_ip = ip, bp_resolvectl = resolvectl, bp_iptables = iptables,
                          bp_iptables_restore = restore, bp_nft = nft\<rparr>))))))"

section \<open>Driver operations\<close>

text \<open>
  The handle is not null: the wrappers, which are the only way into the tables, have checked
  it before the driver checks it again.
\<close>

definition sys_tun_open :: "sys \<Rightarrow> sys_info \<Rightarrow> tun_iface \<Rightarrow> tun_res" where
  "sys_tun_open sys info tun =
     (let fd = sys OpenTun in
      if fd < 0 then (tun\<lparr>tun_fd := -1\<rparr>, [OpenTun], fd)
      else let tun1 = tun\<lparr>tun_fd := fd\<rparr>; req = TunSetIff ''tun%d'' in
        if sys req < 0 then (tun1, [OpenTun, req, CloseFd fd], sys req)
        else let tun2 = tun1\<lparr>ifname := si_ifname info\<rparr> in
          if sys Malloc < 0 then (tun2, [OpenTun, req, Malloc], - ENOMEM)
          else (case init_priv_data (si_exec info) of
                  None \<Rightarrow> (tun2, [OpenTun, req, Malloc], - ENOENT)
                | Some priv \<Rightarrow> (tun2\<lparr>priv_data := Some priv\<rparr>, [OpenTun, req, Malloc], 0)))"

definition sys_tun_set_address ::
  "sys \<Rightarrow> tun_iface \<Rightarrow> string option \<Rightarrow> string option \<Rightarrow> tun_res" where
  "sys_tun_set_address sys tun ip netmask =
     (case (ip, netmask) of
        (Some ip_str, Some mask_str) \<Rightarrow>
          (case inet_pton ip_str of None \<Rightarrow> (tun, [], - EINVAL)
           | Some ip_addr \<Rightarrow>
             let tun1 = tun\<lparr>t_ip := ip_addr\<rparr> in
          (case inet_pton mask_str of None \<Rightarrow> (tun1, [], - EINVAL)
           | Some mask_addr \<Rightarrow>
             let tun2 = tun1\<lparr>t_mask := mask_addr\<rparr> in
             if \<not> validate_mask mask_addr then (tun2, [], - EINVAL)
             else
               let tun3 = tun2\<lparr>t_prefix := of_int (mask_to_prefix mask_addr),
                               t_net := ip_addr AND mask_addr\<rparr>;
                   sock = sys Socket;
                   set_ip = SetIfAddr (ifname tun) ip_addr;
                   set_mask = SetIfMask (ifname tun) mask_addr
               in
               if sock < 0 then (tun3, [Socket], sock)
               else if ifname tun = [] then (tun3, [Socket, CloseFd sock], - EINVAL)
               else if sys set_ip < 0 then (tun3, [Socket, set_ip, CloseFd sock], sys set_ip)
               else if sys set_mask < 0 then (tun3, [Socket, set_ip, set_mask, CloseFd sock], 0)
               else (tun3, [Socket, set_ip, set_mask, CloseFd sock], 0)))
      | _ \<Rightarrow> (tun, [], - EINVAL))"

definition sys_tun_set_mtu :: "sys \<Rightarrow> tun_iface \<Rightarrow> u16 \<Rightarrow> tun_res" where
  "sys_tun_set_mtu sys tun mtu =
     (if ifname tun = [] \<or> mtu < 256 \<or> 1380 < mtu then (tun, [], - EINVAL)
      else let sock = sys Socket; req = SetIfMtu (ifname tun) mtu in
        if sock < 0 then (tun, [Socket], sock)
        else let tun1 = tun\<lparr>t_mtu := mtu\<rparr> in
          if sys req < 0 then (tun1, [Socket, req, CloseFd sock], sys req)
          else (tun1, [Socket, req, CloseFd sock], 0))"

text \<open>Reading the interface flags, changing them, writing them back.\<close>

definition sys_tun_flags :: "(u16 \<Rightarrow> u16) \<Rightarrow> sys \<Rightarrow> sys_info \<Rightarrow> tun_iface \<Rightarrow> tun_res" where
  "sys_tun_flags change sys info tun =
     (if ifname tun = [] then (tun, [], - EINVAL)
      else let sock = sys Socket; get = GetIfFlags (ifname tun);
               set = SetIfFlags (ifname tun) (change (si_flags info)) in
        if sock < 0 then (tun, [Socket], sock)
        else if sys get < 0 then (tun, [Socket, get, CloseFd sock], sys get)
        else if sys set < 0 then (tun, [Socket, get, set, CloseFd sock], sys set)
        else (tun, [Socket, get, set, CloseFd sock], 0))"

definition sys_tun_set_up :: "sys \<Rightarrow> sys_info \<Rightarrow> tun_iface \<Rightarrow> tun_res" where
  "sys_tun_set_up = sys_tun_flags (\<lambda>f. f OR (IFF_UP OR IFF_RUNNING))"

definition sys_tun_set_down :: "sys \<Rightarrow> sys_info \<Rightarrow> tun_iface \<Rightarrow> tun_res" where
  "sys_tun_set_down = sys_tun_flags (\<lambda>f. f AND NOT (IFF_UP OR IFF_RUNNING))"

definition sys_tun_set_dns ::
  "sys \<Rightarrow> tun_iface \<Rightarrow> string option \<Rightarrow> string option \<Rightarrow> tun_res" where
  "sys_tun_set_dns sys tun dns1 dns2 =
     (case (dns1, dns2) of
        (Some d1, Some d2) \<Rightarrow>
          if ifname tun = [] \<or> d1 = [] \<or> d2 = [] then (tun, [], - EINVAL)
          else (case priv_data tun of None \<Rightarrow> (tun, [], - EINVAL)
                | Some priv \<Rightarrow>
          (case inet_pton d1 of None \<Rightarrow> (tun, [], - EINVAL)
           | Some a1 \<Rightarrow>
             let tun1 = tun\<lparr>t_dns1 := a1\<rparr> in
          (case inet_pton d2 of None \<Rightarrow> (tun1, [], - EINVAL)
           | Some a2 \<Rightarrow>
             let tun2 = tun1\<lparr>t_dns2 := a2\<rparr>;
                 dns = Run [bp_resolvectl priv, ''dns'', ifname tun, d1, d2];
                 domain = Run [bp_resolvectl priv, ''domain'', ifname tun, ''~'']
             in
             if sys dns \<noteq> 0 then (tun2, [dns], sys dns)
             else if sys domain \<noteq> 0 then (tun2, [dns, domain], sys domain)
             else (tun2, [dns, domain], 0))))
      | _ \<Rightarrow> (tun, [], - EINVAL))"

definition sys_tun_clear_dns :: "sys \<Rightarrow> tun_iface \<Rightarrow> tun_res" where
  "sys_tun_clear_dns sys tun =
     (if ifname tun = [] then (tun, [], - EINVAL)
      else case priv_data tun of None \<Rightarrow> (tun, [], - EINVAL)
           | Some priv \<Rightarrow>
             (tun, [Run [bp_resolvectl priv, ''domain'', ifname tun, []],
                    Run [bp_resolvectl priv, ''dns'', ifname tun, []]], 0))"

definition sys_tun_add_route :: "sys \<Rightarrow> tun_iface \<Rightarrow> string option \<Rightarrow> tun_res" where
  "sys_tun_add_route sys tun cidr =
     (case cidr of None \<Rightarrow> (tun, [], - EINVAL)
      | Some c \<Rightarrow>
        if ifname tun = [] \<or> c = [] then (tun, [], - EINVAL)
        else case priv_data tun of None \<Rightarrow> (tun, [], - EINVAL)
             | Some priv \<Rightarrow>
               let cmd = Run [bp_ip priv, ''route'', ''replace'', c, ''dev'', ifname tun] in
               if sys cmd \<noteq> 0 then (tun, [cmd], sys cmd) else (tun, [cmd], 0))"

definition sys_tun_flush_routes :: "sys \<Rightarrow> tun_iface \<Rightarrow> tun_res" where
  "sys_tun_flush_routes sys tun =
     (if ifname tun = [] then (tun, [], - EINVAL)
      else case priv_data tun of None \<Rightarrow> (tun, [], - EINVAL)
           | Some priv \<Rightarrow>
             (tun, [Run [bp_ip priv, ''route'', ''flush'', ''dev'', ifname tun, ''table'', ''all'']], 0))"

definition server_sys_tun_ip_forwarding :: "sys \<Rightarrow> tun_iface \<Rightarrow> bool \<Rightarrow> tun_res" where
  "server_sys_tun_ip_forwarding sys tun enable =
     (case priv_data tun of None \<Rightarrow> (tun, [], - EINVAL)
      | Some priv \<Rightarrow>
        let cmd = Run [bp_sysctl priv, ''-w'',
                       if enable then ''net.ipv4.ip_forward=1'' else ''net.ipv4.ip_forward=0''] in
        if sys cmd \<noteq> 0 then (tun, [cmd], sys cmd) else (tun, [cmd], 0))"

text \<open>Teardown goes on after errors; the last one is the result.\<close>

definition sys_tun_cleanup :: "sys \<Rightarrow> sys_info \<Rightarrow> tun_iface \<Rightarrow> tun_res" where
  "sys_tun_cleanup sys info tun =
     (let (reqs1, ret1) =
        (if ifname tun \<noteq> [] then
           let sock = sys Socket; get = GetIfFlags (ifname tun);
               set = SetIfFlags (ifname tun) (si_flags info AND NOT (IFF_UP OR IFF_RUNNING)) in
           if sock < 0 then ([Socket], sock)
           else if sys get < 0 then ([Socket, get, CloseFd sock], sys get)
           else if sys set < 0 then ([Socket, get, set, CloseFd sock], sys set)
           else ([Socket, get, set, CloseFd sock], 0)
         else ([], 0));
        (reqs2, ret2) =
        (if 0 \<le> tun_fd tun then
           ([CloseFd (tun_fd tun)], if sys (CloseFd (tun_fd tun)) < 0 then sys (CloseFd (tun_fd tun)) else ret1)
         else ([], ret1))
      in (tun\<lparr>tun_fd := -1, priv_data := None\<rparr>, reqs1 @ reqs2, ret2))"

section \<open>nftables scripts\<close>

text \<open>The outcome of running the nft binary on a script fed through a pipe.\<close>

record nft_os =
  pipe_in_err :: int
  pipe_err_err :: int
  actions_init_rc :: int
  nft_spawn_rc :: int
  nft_waitpid_err :: "int option"
  nft_status :: u32

definition run_nft_script :: "nft_os \<Rightarrow> string option \<Rightarrow> string option \<Rightarrow> int" where
  "run_nft_script os nft_bin ruleset =
     (case (nft_bin, ruleset) of
        (Some bin, Some rules) \<Rightarrow>
          if pipe_in_err os \<noteq> 0 then - pipe_in_err os
          else if pipe_err_err os \<noteq> 0 then - pipe_err_err os
          else if actions_init_rc os \<noteq> 0 then - actions_init_rc os
          else if nft_spawn_rc os \<noteq> 0 then - nft_spawn_rc os
          else (case nft_waitpid_err os of
                  Some e \<Rightarrow> - e
                | None \<Rightarrow> if WIFEXITED (nft_status os) \<and> WEXITSTATUS (nft_status os) = 0 then 0 else - ECHILD)
      | _ \<Rightarrow> - EINVAL)"

definition nl :: string where "nl = [CHR 0x0A]"
definition quoted :: "string \<Rightarrow> string" where "quoted s = [CHR 0x22] @ s @ [CHR 0x22]"

definition server_ruleset :: "string \<Rightarrow> string \<Rightarrow> string \<Rightarrow> string" where
  "server_ruleset tun_if wan_if cidr =
     ''table inet vpn_'' @ tun_if @ '' {'' @ nl @
     ''    chain forward {'' @ nl @
     ''        type filter hook forward priority filter; policy accept;'' @ nl @
     ''        iifname '' @ quoted tun_if @ '' oifname '' @ quoted wan_if @ '' accept'' @ nl @
     ''        iifname '' @ quoted wan_if @ '' oifname '' @ quoted tun_if @
       '' ct state established,related accept'' @ nl @
     ''    }'' @ nl @
     ''    chain postrouting {'' @ nl @
     ''        type nat hook postrouting priority srcnat; policy accept;'' @ nl @
     ''        ip saddr '' @ cidr @ '' oifname '' @ quoted wan_if @ '' masquerade'' @ nl @
     ''    }'' @ nl @
     ''}'' @ nl"

definition client_ruleset :: "string \<Rightarrow> string \<Rightarrow> string \<Rightarrow> nat \<Rightarrow> string" where
  "client_ruleset tun_if wan_if server_ip server_port =
     ''table inet vpn_ks_'' @ tun_if @ '' {'' @ nl @
     ''    chain output {'' @ nl @
     ''        type filter hook output priority filter; policy drop;'' @ nl @
     ''        oifname '' @ quoted ''lo'' @ '' accept'' @ nl @
     ''        oifname '' @ quoted tun_if @ '' accept'' @ nl @
     ''        oifname '' @ quoted wan_if @ '' ip daddr '' @ server_ip @ '' udp dport '' @
       show_nat server_port @ '' accept'' @ nl @
     ''    }'' @ nl @
     ''    chain input {'' @ nl @
     ''        type filter hook input priority filter; policy drop;'' @ nl @
     ''        iifname '' @ quoted ''lo'' @ '' accept'' @ nl @
     ''        iifname '' @ quoted tun_if @ '' accept'' @ nl @
     ''        ct state established,related accept'' @ nl @
     ''    }'' @ nl @
     ''}'' @ nl"

definition run_nft :: "sys \<Rightarrow> tun_iface \<Rightarrow> string \<Rightarrow> tun_res" where
  "run_nft sys tun ruleset =
     (case priv_data tun of None \<Rightarrow> (tun, [], - ECANCELED)
      | Some priv \<Rightarrow>
        let req = NftScript (bp_nft priv) ruleset in
        if sys req \<noteq> 0 then (tun, [req], sys req) else (tun, [req], 0))"

definition syt_server_rules_add_nft :: "sys \<Rightarrow> tun_iface \<Rightarrow> string \<Rightarrow> tun_res" where
  "syt_server_rules_add_nft sys tun wan_if =
     (case in_addr_to_cidr (Some (t_ip tun)) (Some (t_mask tun)) INET_CIDRSTRLEN of
        Ok cidr \<Rightarrow> run_nft sys tun (snprintf_trunc 1024 (server_ruleset (ifname tun) wan_if cidr))
      | _ \<Rightarrow> (tun, [], - EINVAL))"

definition sys_server_rules_del_nft :: "sys \<Rightarrow> tun_iface \<Rightarrow> tun_res" where
  "sys_server_rules_del_nft sys tun =
     (if ifname tun = [] then (tun, [], - EINVAL)
      else run_nft sys tun (snprintf_trunc 256 (''destroy table inet vpn_'' @ ifname tun @ nl)))"

definition syt_client_rules_add_nft ::
  "sys \<Rightarrow> tun_iface \<Rightarrow> string option \<Rightarrow> string option \<Rightarrow> u16 \<Rightarrow> tun_res" where
  "syt_client_rules_add_nft sys tun wan_if server_ip server_port =
     (case (wan_if, server_ip) of
        (Some wan, Some srv) \<Rightarrow>
          if server_port = 0 then (tun, [], - EINVAL)
          else run_nft sys tun (snprintf_trunc 1024 (client_ruleset (ifname tun) wan srv (unat server_port)))
      | _ \<Rightarrow> (tun, [], - EINVAL))"

definition syt_client_rules_del_nft :: "sys \<Rightarrow> tun_iface \<Rightarrow> tun_res" where
  "syt_client_rules_del_nft sys tun =
     (if ifname tun = [] then (tun, [], - EINVAL)
      else run_nft sys tun (snprintf_trunc 256 (''destroy table inet vpn_ks_'' @ ifname tun @ nl)))"

definition sys_iptables_reset_nft :: "sys \<Rightarrow> tun_iface \<Rightarrow> tun_res" where
  "sys_iptables_reset_nft sys tun = run_nft sys tun (''flush ruleset'' @ nl)"

end
