(* ===== verification/Tun_Api.thy ===== *)
theory Tun_Api
  imports Tun_Driver
begin

text \<open>
  The tunnel interface of \<^verbatim>\<open>common/src/tun.c\<close>: creation with a backend table, the
  wrappers that dispatch to the driver and keep the status flags, the test that the device is
  ready to start, and the getters.
\<close>

section \<open>Status flags and backend tables\<close>

abbreviation TUN_STATE_NONE :: u64 where "TUN_STATE_NONE \<equiv> 0"
abbreviation TUN_STATE_OPEN :: u64 where "TUN_STATE_OPEN \<equiv> 0x01"
abbreviation TUN_STATE_IP_SET :: u64 where "TUN_STATE_IP_SET \<equiv> 0x02"
abbreviation TUN_STATE_MASK_SET :: u64 where "TUN_STATE_MASK_SET \<equiv> 0x04"
abbreviation TUN_STATE_MTU_SET :: u64 where "TUN_STATE_MTU_SET \<equiv> 0x08"
abbreviation TUN_STATE_UP :: u64 where "TUN_STATE_UP \<equiv> 0x10"
abbreviation TUN_STATE_DNS_SET :: u64 where "TUN_STATE_DNS_SET \<equiv> 0x20"

definition TUN_STATE_READY :: u64 where
  "TUN_STATE_READY = TUN_STATE_OPEN OR TUN_STATE_IP_SET OR TUN_STATE_MASK_SET OR TUN_STATE_MTU_SET OR
     TUN_STATE_UP OR TUN_STATE_DNS_SET"

record tun_api_table =
  a_open :: "(sys \<Rightarrow> sys_info \<Rightarrow> tun_iface \<Rightarrow> tun_res) option"
  a_set_address :: "(sys \<Rightarrow> tun_iface \<Rightarrow> string option \<Rightarrow> string option \<Rightarrow> tun_res) option"
  a_set_mtu :: "(sys \<Rightarrow> tun_iface \<Rightarrow> u16 \<Rightarrow> tun_res) option"
  a_set_up :: "(sys \<Rightarrow> sys_info \<Rightarrow> tun_iface \<Rightarrow> tun_res) option"
  a_set_down :: "(sys \<Rightarrow> sys_info \<Rightarrow> tun_iface \<Rightarrow> tun_res) option"
  a_add_route :: "(sys \<Rightarrow> tun_iface \<Rightarrow> string option \<Rightarrow> tun_res) option"
  a_flush_routes :: "(sys \<Rightarrow> tun_iface \<Rightarrow> tun_res) option"
  a_set_dns :: "(sys \<Rightarrow> tun_iface \<Rightarrow> string option \<Rightarrow> string option \<Rightarrow> tun_res) option"
  a_clear_dns :: "(sys \<Rightarrow> tun_iface \<Rightarrow> tun_res) option"
  a_ip_forwarding :: "(sys \<Rightarrow> tun_iface \<Rightarrow> bool \<Rightarrow> tun_res) option"
  a_server_rules_add :: "(sys \<Rightarrow> tun_iface \<Rightarrow> string \<Rightarrow> tun_res) option"
  a_client_rules_add :: "(sys \<Rightarrow> tun_iface \<Rightarrow> string option \<Rightarrow> string option \<Rightarrow> u16 \<Rightarrow> tun_res) option"
  a_rules_clear :: "(sys \<Rightarrow> tun_iface \<Rightarrow> tun_res) option"
  a_iptables_reset :: "(sys \<Rightarrow> tun_iface \<Rightarrow> tun_res) option"
  a_cleanup :: "sys \<Rightarrow> sys_info \<Rightarrow> tun_iface \<Rightarrow> tun_res"

definition api_table_netlink_server :: tun_api_table where
  "api_table_netlink_server = \<lparr>
     a_open = Some sys_tun_open, a_set_address = Some sys_tun_set_address,
     a_set_mtu = Some sys_tun_set_mtu, a_set_up = Some sys_tun_set_up, a_set_down = Some sys_tun_set_down,
     a_add_route = Some sys_tun_add_route, a_flush_routes = Some sys_tun_flush_routes,
     a_set_dns = Some sys_tun_set_dns, a_clear_dns = Some sys_tun_clear_dns,
     a_ip_forwarding = Some server_sys_tun_ip_forwarding,
     a_server_rules_add = Some syt_server_rules_add_nft, a_client_rules_add = None,
     a_rules_clear = Some sys_server_rules_del_nft, a_iptables_reset = Some sys_iptables_reset_nft,
     a_cleanup = sys_tun_cleanup\<rparr>"

definition api_table_netlink_client :: tun_api_table where
  "api_table_netlink_client = \<lparr>
     a_open = Some sys_tun_open, a_set_address = Some sys_tun_set_address,
     a_set_mtu = Some sys_tun_set_mtu, a_set_up = Some sys_tun_set_up, a_set_down = Some sys_tun_set_down,
     a_add_route = Some sys_tun_add_route, a_flush_routes = Some sys_tun_flush_routes,
     a_set_dns = Some sys_tun_set_dns, a_clear_dns = Some sys_tun_clear_dns,
     a_ip_forwarding = None,
     a_server_rules_add = None, a_client_rules_add = Some syt_client_rules_add_nft,
     a_rules_clear = Some syt_client_rules_del_nft, a_iptables_reset = None,
     a_cleanup = sys_tun_cleanup\<rparr>"

fun get_sys_api :: "tun_backend \<Rightarrow> tun_api_table option" where
  "get_sys_api TUN_BACKEND_NETLINK_CLIENT = Some api_table_netlink_client"
| "get_sys_api TUN_BACKEND_NETLINK_SERVER = Some api_table_netlink_server"
| "get_sys_api _ = None"

section \<open>Lifecycle\<close>

definition tun_create :: "bool \<Rightarrow> tun_backend \<Rightarrow> tun_iface option" where
  "tun_create calloc_ok backend =
     (if \<not> calloc_ok then None
      else case get_sys_api backend of None \<Rightarrow> None
           | Some api \<Rightarrow>
             Some \<lparr>tun_fd = -1, sts_flags = TUN_STATE_NONE, ifname = [], t_ip = 0, t_mask = 0, t_prefix = 0,
                   t_net = 0, t_dns1 = 0, t_dns2 = 0, t_mtu = 0, t_api = Some backend, priv_data = None\<rparr>)"

definition tun_start :: "tun_iface option \<Rightarrow> int" where
  "tun_start tp =
     (case tp of None \<Rightarrow> - EINVAL
      | Some tun \<Rightarrow>
        if t_api tun = None then - ENODEV
        else if sts_flags tun AND TUN_STATE_READY \<noteq> TUN_STATE_READY then - ENODEV
        else 0)"

type_synonym tun_out = "tun_iface option \<times> sys_req list \<times> int"

text \<open>The dispatch: null handle, no table, no such operation, or the call.\<close>

definition dispatch ::
  "(tun_api_table \<Rightarrow> 'f option) \<Rightarrow> ('f \<Rightarrow> tun_iface \<Rightarrow> tun_res) \<Rightarrow> tun_iface option \<Rightarrow> tun_out" where
  "dispatch sel call tp =
     (case tp of None \<Rightarrow> (tp, [], - EINVAL)
      | Some tun \<Rightarrow>
     (case Option.bind (t_api tun) get_sys_api of None \<Rightarrow> (tp, [], - ENODEV)
      | Some api \<Rightarrow>
     (case sel api of None \<Rightarrow> (tp, [], - ENOSYS)
      | Some f \<Rightarrow> (case call f tun of (tun', reqs, ret) \<Rightarrow> (Some tun', reqs, ret)))))"

definition on_success :: "(u64 \<Rightarrow> u64) \<Rightarrow> tun_out \<Rightarrow> tun_out" where
  "on_success change out =
     (case out of (tp, reqs, ret) \<Rightarrow>
        (if ret = 0 then (map_option (\<lambda>t. t\<lparr>sts_flags := change (sts_flags t)\<rparr>) tp, reqs, ret)
         else (tp, reqs, ret)))"

definition tun_destroy :: "sys \<Rightarrow> sys_info \<Rightarrow> tun_iface option \<Rightarrow> tun_out" where
  "tun_destroy sys info tp =
     (case tp of None \<Rightarrow> (tp, [], - EINVAL)
      | Some tun \<Rightarrow>
     (case Option.bind (t_api tun) get_sys_api of None \<Rightarrow> (tp, [], 0)
      | Some api \<Rightarrow> (case a_cleanup api sys info tun of (tun', reqs, ret) \<Rightarrow> (Some tun', reqs, 0))))"

section \<open>Wrappers\<close>

definition tun_open :: "sys \<Rightarrow> sys_info \<Rightarrow> tun_iface option \<Rightarrow> tun_out" where
  "tun_open sys info tp =
     on_success (\<lambda>f. f OR TUN_STATE_OPEN) (dispatch a_open (\<lambda>f. f sys info) tp)"

definition tun_set_addr :: "sys \<Rightarrow> tun_iface option \<Rightarrow> string option \<Rightarrow> string option \<Rightarrow> tun_out" where
  "tun_set_addr sys tp ip netmask =
     on_success (\<lambda>f. f OR (TUN_STATE_IP_SET OR TUN_STATE_MASK_SET))
       (dispatch a_set_address (\<lambda>f tun. f sys tun ip netmask) tp)"

definition tun_set_mtu :: "sys \<Rightarrow> tun_iface option \<Rightarrow> u16 \<Rightarrow> tun_out" where
  "tun_set_mtu sys tp mtu =
     on_success (\<lambda>f. f OR TUN_STATE_MTU_SET) (dispatch a_set_mtu (\<lambda>f tun. f sys tun mtu) tp)"

definition tun_set_up :: "sys \<Rightarrow> sys_info \<Rightarrow> tun_iface option \<Rightarrow> tun_out" where
  "tun_set_up sys info tp = on_success (\<lambda>f. f OR TUN_STATE_UP) (dispatch a_set_up (\<lambda>f. f sys info) tp)"

definition tun_set_down :: "sys \<Rightarrow> sys_info \<Rightarrow> tun_iface option \<Rightarrow> tun_out" where
  "tun_set_down sys info tp =
     on_success (\<lambda>f. f AND NOT TUN_STATE_UP) (dispatch a_set_down (\<lambda>f. f sys info) tp)"

definition tun_set_dns :: "sys \<Rightarrow> tun_iface option \<Rightarrow> string option \<Rightarrow> string option \<Rightarrow> tun_out" where
  "tun_set_dns sys tp dns1 dns2 =
     on_success (\<lambda>f. f OR TUN_STATE_DNS_SET) (dispatch a_set_dns (\<lambda>f tun. f sys tun dns1 dns2) tp)"

definition tun_clear_dns :: "sys \<Rightarrow> tun_iface option \<Rightarrow> tun_out" where
  "tun_clear_dns sys tp =
     on_success (\<lambda>f. f AND NOT TUN_STATE_DNS_SET) (dispatch a_clear_dns (\<lambda>f. f sys) tp)"

definition tun_add_route :: "sys \<Rightarrow> tun_iface option \<Rightarrow> string option \<Rightarrow> tun_out" where
  "tun_add_route sys tp cidr = dispatch a_add_route (\<lambda>f tun. f sys tun cidr) tp"

definition tun_flush_routes :: "sys \<Rightarrow> tun_iface option \<Rightarrow> tun_out" where
  "tun_flush_routes sys tp = dispatch a_flush_routes (\<lambda>f. f sys) tp"

definition tun_ip_forwarding :: "sys \<Rightarrow> tun_iface option \<Rightarrow> bool \<Rightarrow> tun_out" where
  "tun_ip_forwarding sys tp enable = dispatch a_ip_forwarding (\<lambda>f tun. f sys tun enable) tp"

definition tun_server_rules_add :: "sys \<Rightarrow> tun_iface option \<Rightarrow> string \<Rightarrow> tun_out" where
  "tun_server_rules_add sys tp wan_if = dispatch a_server_rules_add (\<lambda>f tun. f sys tun wan_if) tp"

definition tun_client_rules_add ::
  "sys \<Rightarrow> tun_iface option \<Rightarrow> string option \<Rightarrow> string option \<Rightarrow> u16 \<Rightarrow> tun_out" where
  "tun_client_rules_add sys tp wan_if server_ip server_port =
     dispatch a_client_rules_add (\<lambda>f tun. f sys tun wan_if server_ip server_port) tp"

definition tun_rules_clear :: "sys \<Rightarrow> tun_iface option \<Rightarrow> tun_out" where
  "tun_rules_clear sys tp = dispatch a_rules_clear (\<lambda>f. f sys) tp"

definition iptables_reset :: "sys \<Rightarrow> tun_iface option \<Rightarrow> tun_out" where
  "iptables_reset sys tp = dispatch a_iptables_reset (\<lambda>f. f sys) tp"

section \<open>Getters\<close>

text \<open>The second argument says whether the output pointer is not null.\<close>

definition tun_getter :: "(tun_iface \<Rightarrow> 'a) \<Rightarrow> tun_iface option \<Rightarrow> bool \<Rightarrow> 'a cres" where
  "tun_getter field tp out =
     (case tp of None \<Rightarrow> Err EINVAL | Some tun \<Rightarrow> if \<not> out then Err EINVAL else Ok (field tun))"

definition tun_get_flags :: "tun_iface option \<Rightarrow> bool \<Rightarrow> u64 cres" where "tun_get_flags = tun_getter sts_flags"
definition tun_get_fd :: "tun_iface option \<Rightarrow> bool \<Rightarrow> int cres" where "tun_get_fd = tun_getter tun_fd"
definition tun_get_mtu :: "tun_iface option \<Rightarrow> bool \<Rightarrow> u16 cres" where "tun_get_mtu = tun_getter t_mtu"
definition tun_get_ip :: "tun_iface option \<Rightarrow> bool \<Rightarrow> in_addr cres" where "tun_get_ip = tun_getter t_ip"
definition tun_get_dns1 :: "tun_iface option \<Rightarrow> bool \<Rightarrow> in_addr cres" where "tun_get_dns1 = tun_getter t_dns1"
definition tun_get_dns2 :: "tun_iface option \<Rightarrow> bool \<Rightarrow> in_addr cres" where "tun_get_dns2 = tun_getter t_dns2"
definition tun_get_mask :: "tun_iface option \<Rightarrow> bool \<Rightarrow> in_addr cres" where "tun_get_mask = tun_getter t_mask"
definition tun_get_net :: "tun_iface option \<Rightarrow> bool \<Rightarrow> in_addr cres" where
  "tun_get_net = tun_getter (\<lambda>tun. t_ip tun AND t_mask tun)"

definition safe_strcpy :: "bool \<Rightarrow> nat \<Rightarrow> string option \<Rightarrow> nat \<Rightarrow> string cres" where
  "safe_strcpy dest dest_len src src_max_len =
     (case src of None \<Rightarrow> Err EINVAL
      | Some s \<Rightarrow>
        if \<not> dest \<or> dest_len = 0 then Err EINVAL
        else let str = take src_max_len s in if dest_len \<le> length str then Err ENOBUFS else Ok str)"

definition tun_get_ifname :: "tun_iface option \<Rightarrow> bool \<Rightarrow> nat \<Rightarrow> string cres" where
  "tun_get_ifname tp buf buf_len =
     (case tp of None \<Rightarrow> Err EINVAL | Some tun \<Rightarrow> safe_strcpy buf buf_len (Some (ifname tun)) IFNAMSIZ)"

definition tun_get_ip_str :: "tun_iface option \<Rightarrow> nat \<Rightarrow> string cres" where
  "tun_get_ip_str tp buf_len =
     (case tp of None \<Rightarrow> Err EINVAL | Some tun \<Rightarrow> in_addr_to_str (Some (t_ip tun)) buf_len)"

definition tun_get_mask_str :: "tun_iface option \<Rightarrow> nat \<Rightarrow> string cres" where
  "tun_get_mask_str tp buf_len =
     (case tp of None \<Rightarrow> Err EINVAL | Some tun \<Rightarrow> in_addr_to_str (Some (t_mask tun)) buf_len)"

definition tun_get_net_str :: "tun_iface option \<Rightarrow> nat \<Rightarrow> string cres" where
  "tun_get_net_str tp buf_len =
     (case tp of None \<Rightarrow> Err EINVAL
      | Some tun \<Rightarrow> in_addr_to_str (Some (t_ip tun AND t_mask tun)) buf_len)"

definition tun_get_ip_cidr :: "tun_iface option \<Rightarrow> nat \<Rightarrow> string cres" where
  "tun_get_ip_cidr tp buf_len =
     (case tp of None \<Rightarrow> Err EINVAL
      | Some tun \<Rightarrow>
        if mask_to_prefix (t_mask tun) < 0 then Err (- mask_to_prefix (t_mask tun))
        else in_addr_to_cidr (Some (t_ip tun)) (Some (t_mask tun)) buf_len)"

definition tun_get_net_cidr :: "tun_iface option \<Rightarrow> nat \<Rightarrow> string cres" where
  "tun_get_net_cidr tp buf_len =
     (case tp of None \<Rightarrow> Err EINVAL
      | Some tun \<Rightarrow> in_addr_to_cidr (Some (t_ip tun AND t_mask tun)) (Some (t_mask tun)) buf_len)"

section \<open>Sequences of calls\<close>

datatype tun_call =
    TOpen sys_info | TSetAddr "string option" "string option" | TSetMtu u16 | TSetUp sys_info
  | TSetDown sys_info | TSetDns "string option" "string option" | TClearDns

fun tun_do :: "sys \<Rightarrow> tun_call \<Rightarrow> tun_iface option \<Rightarrow> tun_out" where
  "tun_do sys (TOpen info) tp = tun_open sys info tp"
| "tun_do sys (TSetAddr ip m) tp = tun_set_addr sys tp ip m"
| "tun_do sys (TSetMtu mtu) tp = tun_set_mtu sys tp mtu"
| "tun_do sys (TSetUp info) tp = tun_set_up sys info tp"
| "tun_do sys (TSetDown info) tp = tun_set_down sys info tp"
| "tun_do sys (TSetDns d1 d2) tp = tun_set_dns sys tp d1 d2"
| "tun_do sys TClearDns tp = tun_clear_dns sys tp"

text \<open>Each call meets its own answers of the system.\<close>

fun tun_calls :: "(sys \<times> tun_call) list \<Rightarrow> tun_iface option \<Rightarrow> tun_iface option \<times> (tun_call \<times> int) list" where
  "tun_calls [] tp = (tp, [])"
| "tun_calls ((sys, c) # cs) tp =
     (case tun_do sys c tp of (tp', reqs, ret) \<Rightarrow>
        (case tun_calls cs tp' of (r, log) \<Rightarrow> (r, (c, ret) # log)))"

text \<open>The driver leaves the flags and the table alone; only the wrappers touch them.\<close>

lemma driver_frame:
  "sts_flags (fst (sys_tun_open sys info tun)) = sts_flags tun \<and> t_api (fst (sys_tun_open sys info tun)) = t_api tun"
  "sts_flags (fst (sys_tun_set_address sys tun ip m)) = sts_flags tun \<and> t_api (fst (sys_tun_set_address sys tun ip m)) = t_api tun"
  "sts_flags (fst (sys_tun_set_mtu sys tun mtu)) = sts_flags tun \<and> t_api (fst (sys_tun_set_mtu sys tun mtu)) = t_api tun"
  "sts_flags (fst (sys_tun_set_up sys info tun)) = sts_flags tun \<and> t_api (fst (sys_tun_set_up sys info tun)) = t_api tun"
  "sts_flags (fst (sys_tun_set_down sys info tun)) = sts_flags tun \<and> t_api (fst (sys_tun_set_down sys info tun)) = t_api tun"
  "sts_flags (fst (sys_tun_set_dns sys tun d1 d2)) = sts_flags tun \<and> t_api (fst (sys_tun_set_dns sys tun d1 d2)) = t_api tun"
  "sts_flags (fst (sys_tun_clear_dns sys tun)) = sts_flags tun \<and> t_api (fst (sys_tun_clear_dns sys tun)) = t_api tun"
  by (auto simp: sys_tun_open_def sys_tun_set_address_def sys_tun_set_mtu_def sys_tun_set_up_def
      sys_tun_set_down_def sys_tun_flags_def sys_tun_set_dns_def sys_tun_clear_dns_def Let_def
      split: option.splits)

text \<open>What a successful call does to the flags.\<close>

fun call_flags :: "tun_call \<Rightarrow> u64 \<Rightarrow> u64" where
  "call_flags (TOpen _) f = f OR TUN_STATE_OPEN"
| "call_flags (TSetAddr _ _) f = f OR (TUN_STATE_IP_SET OR TUN_STATE_MASK_SET)"
| "call_flags (TSetMtu _) f = f OR TUN_STATE_MTU_SET"
| "call_flags (TSetUp _) f = f OR TUN_STATE_UP"
| "call_flags (TSetDown _) f = f AND NOT TUN_STATE_UP"
| "call_flags (TSetDns _ _) f = f OR TUN_STATE_DNS_SET"
| "call_flags TClearDns f = f AND NOT TUN_STATE_DNS_SET"

lemma dispatch_frame:
  assumes "dispatch sel call (Some tun) = (tp, reqs, ret)"
    and "sel api_table_netlink_server = sel api_table_netlink_client"
    and frame: "\<And>f. sel api_table_netlink_client = Some f \<Longrightarrow>
      sts_flags (fst (call f tun)) = sts_flags tun \<and> t_api (fst (call f tun)) = t_api tun"
  shows "\<exists>tun'. tp = Some tun' \<and> sts_flags tun' = sts_flags tun \<and> t_api tun' = t_api tun"
proof (cases "Option.bind (t_api tun) get_sys_api")
  case None
  then show ?thesis using assms(1) by (auto simp: dispatch_def)
next
  case (Some api)
  then have "api = api_table_netlink_client \<or> api = api_table_netlink_server"
    by (cases "t_api tun") (auto elim: get_sys_api.elims)
  then have sel: "sel api = sel api_table_netlink_client" using assms(2) by auto
  show ?thesis
  proof (cases "sel api")
    case None
    then show ?thesis using assms(1) Some by (auto simp: dispatch_def)
  next
    case call: (Some f)
    obtain tun' reqs' ret' where r: "call f tun = (tun', reqs', ret')" by (metis prod.exhaust)
    then show ?thesis using assms(1) Some call frame[of f] sel by (auto simp: dispatch_def)
  qed
qed

lemma wrapper_frame:
  assumes "on_success change (dispatch sel call (Some tun)) = (tp, reqs, ret)"
    and "sel api_table_netlink_server = sel api_table_netlink_client"
    and "\<And>f. sel api_table_netlink_client = Some f \<Longrightarrow>
      sts_flags (fst (call f tun)) = sts_flags tun \<and> t_api (fst (call f tun)) = t_api tun"
  shows "\<exists>tun'. tp = Some tun' \<and> t_api tun' = t_api tun \<and>
    sts_flags tun' = (if ret = 0 then change (sts_flags tun) else sts_flags tun)"
proof -
  obtain tp1 reqs1 ret1 where d: "dispatch sel call (Some tun) = (tp1, reqs1, ret1)" by (metis prod.exhaust)
  from dispatch_frame[OF d assms(2,3)] show ?thesis
    using assms(1) d by (auto simp: on_success_def split: if_splits)
qed

lemma tun_do_flags:
  assumes "tun_do sys c (Some tun) = (tp, reqs, ret)"
  shows "\<exists>tun'. tp = Some tun' \<and> t_api tun' = t_api tun \<and>
    sts_flags tun' = (if ret = 0 then call_flags c (sts_flags tun) else sts_flags tun)"
proof -
  note tables = api_table_netlink_client_def api_table_netlink_server_def
  note defs = tun_open_def tun_set_addr_def tun_set_mtu_def tun_set_up_def tun_set_down_def
    tun_set_dns_def tun_clear_dns_def
  show ?thesis using assms
    by (cases c) (auto simp: defs tables driver_frame dest!: wrapper_frame)
qed

text \<open>The flags after a history of calls: a fold over the successful ones.\<close>

definition hist_flags :: "(tun_call \<times> int) list \<Rightarrow> u64 \<Rightarrow> u64" where
  "hist_flags log f = foldl (\<lambda>f (c, ret). if ret = 0 then call_flags c f else f) f log"

lemma tun_calls_flags:
  assumes "tun_calls cs (Some tun) = (tp, log)"
  shows "\<exists>tun'. tp = Some tun' \<and> t_api tun' = t_api tun \<and> sts_flags tun' = hist_flags log (sts_flags tun)"
  using assms
proof (induction cs arbitrary: tun tp log)
  case Nil
  then show ?case by (auto simp: hist_flags_def)
next
  case (Cons sc cs)
  obtain sys c where sc: "sc = (sys, c)" by (cases sc)
  obtain tp1 reqs ret where d: "tun_do sys c (Some tun) = (tp1, reqs, ret)" by (metis prod.exhaust)
  obtain tun1 where t1: "tp1 = Some tun1" "t_api tun1 = t_api tun"
    "sts_flags tun1 = (if ret = 0 then call_flags c (sts_flags tun) else sts_flags tun)"
    using tun_do_flags[OF d] by blast
  obtain log1 where r: "tun_calls cs (Some tun1) = (tp, log1)" "log = (c, ret) # log1"
    using Cons.prems sc d t1 by (auto split: prod.splits)
  from Cons.IH[OF r(1)] show ?case using t1 r(2) by (auto simp: hist_flags_def)
qed

text \<open>
  The verdict of a history on one aspect of the device: \<^term>\<open>aspect c\<close> is what the call
  claims about it if it succeeds (\<^const>\<open>None\<close> for calls of other aspects), and the last
  successful claim counts.
\<close>

fun latest :: "(tun_call \<Rightarrow> bool option) \<Rightarrow> (tun_call \<times> int) list \<Rightarrow> bool" where
  "latest aspect [] = False"
| "latest aspect ((c, ret) # log) =
     (if \<exists>(c', ret') \<in> set log. ret' = 0 \<and> aspect c' \<noteq> None then latest aspect log
      else ret = 0 \<and> aspect c = Some True)"

fun opened :: "tun_call \<Rightarrow> bool option" where
  "opened (TOpen _) = Some True" | "opened _ = None"
fun addressed :: "tun_call \<Rightarrow> bool option" where
  "addressed (TSetAddr _ _) = Some True" | "addressed _ = None"
fun mtu_set :: "tun_call \<Rightarrow> bool option" where
  "mtu_set (TSetMtu _) = Some True" | "mtu_set _ = None"
fun brought_up :: "tun_call \<Rightarrow> bool option" where
  "brought_up (TSetUp _) = Some True" | "brought_up (TSetDown _) = Some False" | "brought_up _ = None"
fun dns_set :: "tun_call \<Rightarrow> bool option" where
  "dns_set (TSetDns _ _) = Some True" | "dns_set TClearDns = Some False" | "dns_set _ = None"

text \<open>A flag bit after a history: its last successful change, or its first value.\<close>

lemma hist_bit:
  assumes "\<And>c f. bit (call_flags c f) n = (case aspect c of Some b \<Rightarrow> b | None \<Rightarrow> bit f n)"
  shows "bit (hist_flags log f) n =
    (if \<exists>(c, ret) \<in> set log. ret = 0 \<and> aspect c \<noteq> None then latest aspect log else bit f n)"
proof (induction log arbitrary: f)
  case Nil
  then show ?case by (simp add: hist_flags_def)
next
  case (Cons e log)
  obtain c ret where e: "e = (c, ret)" by (cases e)
  have "hist_flags (e # log) f = hist_flags log (if ret = 0 then call_flags c f else f)"
    by (simp add: hist_flags_def e)
  then show ?case using Cons.IH assms[of c f] by (auto simp: e split: option.splits)
qed

lemma latest_no_claim: "\<not> (\<exists>(c, ret) \<in> set log. ret = 0 \<and> aspect c \<noteq> None) \<Longrightarrow> \<not> latest aspect log"
  by (cases log) (auto split: prod.splits)

lemma flag_bits:
  "bit (call_flags c f) 0 = (case opened c of Some b \<Rightarrow> b | None \<Rightarrow> bit f 0)"
  "bit (call_flags c f) 1 = (case addressed c of Some b \<Rightarrow> b | None \<Rightarrow> bit f 1)"
  "bit (call_flags c f) 2 = (case addressed c of Some b \<Rightarrow> b | None \<Rightarrow> bit f 2)"
  "bit (call_flags c f) 3 = (case mtu_set c of Some b \<Rightarrow> b | None \<Rightarrow> bit f 3)"
  "bit (call_flags c f) 4 = (case brought_up c of Some b \<Rightarrow> b | None \<Rightarrow> bit f 4)"
  "bit (call_flags c f) 5 = (case dns_set c of Some b \<Rightarrow> b | None \<Rightarrow> bit f 5)"
  by (cases c; simp add: bit_simps; code_simp)+


lemma ready_bits: "f AND TUN_STATE_READY = TUN_STATE_READY \<longleftrightarrow> (\<forall>n<6. bit f n)"
proof -
  have m: "TUN_STATE_READY = mask 6" by (simp add: TUN_STATE_READY_def mask_eq_exp_minus_1)
  have "take_bit 6 f = mask 6 \<longleftrightarrow> (\<forall>n<6. bit f n)"
  proof
    assume "take_bit 6 f = mask 6"
    then have "bit (take_bit 6 f) n = bit (mask 6 :: u64) n" for n by simp
    then have "n < 6 \<and> bit f n \<longleftrightarrow> n < 64 \<and> n < 6" for n by (simp add: bit_simps)
    then show "\<forall>n<6. bit f n" by force
  next
    assume "\<forall>n<6. bit f n"
    then show "take_bit 6 f = mask 6" by (intro bit_word_eqI) (auto simp: bit_simps)
  qed
  then show ?thesis by (simp add: m take_bit_eq_mask)
qed

section \<open>Properties\<close>



text \<open>
  Setting the address. Address texts the program itself prints are read back to the same
  address, so the device is configured with exactly the address and mask the server handed out.
  With a device name, a contiguous mask and a system that opens sockets, the call succeeds if and
  only if the kernel accepted the address; whether the kernel accepted the mask makes no
  difference, so a device whose mask was refused is flagged as having both. A mask that is not
  contiguous is refused before any request is made.
\<close>

theorem tun_set_addr_outcome:
  assumes "Option.bind (t_api tun) get_sys_api \<noteq> None" and "ifname tun \<noteq> []" and "0 \<le> sys Socket"
  shows "(validate_mask m \<longrightarrow>
      (\<exists>tun' reqs ret. tun_set_addr sys (Some tun) (Some (dotted a)) (Some (dotted m)) = (Some tun', reqs, ret) \<and>
        t_ip tun' = a \<and> t_mask tun' = m \<and> t_net tun' = a AND m \<and>
        reqs \<noteq> [] \<and> last reqs = CloseFd (sys Socket) \<and>
        (ret = 0 \<longleftrightarrow> 0 \<le> sys (SetIfAddr (ifname tun) a)) \<and>
        sts_flags tun' = (if ret = 0 then sts_flags tun OR (TUN_STATE_IP_SET OR TUN_STATE_MASK_SET)
                          else sts_flags tun) \<and>
        (ret = 0 \<longrightarrow> SetIfMask (ifname tun) m \<in> set reqs))) \<and>
    (\<not> validate_mask m \<longrightarrow>
      snd (tun_set_addr sys (Some tun) (Some (dotted a)) (Some (dotted m))) = ([], - EINVAL))"
proof -
  obtain api where api: "Option.bind (t_api tun) get_sys_api = Some api" using assms(1) by blast
  then have op: "a_set_address api = Some sys_tun_set_address"
    by (cases "t_api tun") (auto elim: get_sys_api.elims
        simp: api_table_netlink_client_def api_table_netlink_server_def)
  show ?thesis using assms(2,3)
    by (simp add: tun_set_addr_def dispatch_def api op on_success_def sys_tun_set_address_def Let_def)
qed

theorem tun_set_addr_outcome_witness:
  "\<exists>tun sys tun' reqs. sys (SetIfMask (ifname tun) (prefix_mask 24)) = - EINVAL \<and>
     tun_set_addr sys (Some tun) (Some (dotted 0x0200000A)) (Some (dotted (prefix_mask 24))) = (Some tun', reqs, 0) \<and>
     t_mask tun' = prefix_mask 24 \<and> sts_flags tun' AND TUN_STATE_MASK_SET \<noteq> 0"
proof -
  define tun where "tun = \<lparr>tun_fd = 3, sts_flags = TUN_STATE_OPEN, ifname = ''tun0'', t_ip = 0, t_mask = 0,
    t_prefix = 0, t_net = 0, t_dns1 = 0, t_dns2 = 0, t_mtu = 0, t_api = Some TUN_BACKEND_NETLINK_CLIENT,
    priv_data = None\<rparr>"
  define sys where "sys = (\<lambda>r. case r of SetIfMask _ _ \<Rightarrow> - EINVAL | _ \<Rightarrow> 0)"
  have "validate_mask (prefix_mask 24)" unfolding validate_mask_iff by (intro exI[of _ 24]) simp
  then obtain tun' reqs ret where r:
    "tun_set_addr sys (Some tun) (Some (dotted 0x0200000A)) (Some (dotted (prefix_mask 24))) = (Some tun', reqs, ret)"
    "t_mask tun' = prefix_mask 24" "ret = 0 \<longleftrightarrow> 0 \<le> sys (SetIfAddr (ifname tun) 0x0200000A)"
    "sts_flags tun' = (if ret = 0 then sts_flags tun OR (TUN_STATE_IP_SET OR TUN_STATE_MASK_SET) else sts_flags tun)"
    using tun_set_addr_outcome[of tun sys "prefix_mask 24" "0x0200000A"] by (auto simp: tun_def sys_def)
  then have "ret = 0" by (simp add: sys_def)
  then show ?thesis using r
    by (intro exI[of _ tun] exI[of _ sys] exI[of _ tun'] exI[of _ reqs]) (simp add: sys_def tun_def)
qed

text \<open>
  C30. Firewall scripts. Interface names have at most 15 characters. Then the scripts of the
  server's address translation and of the client's kill switch reach nft whole: neither buffer
  of 1024 characters truncates them, whatever the addresses, masks and port; and the script that
  clears the rules names exactly the table the other script created.
\<close>

lemma show_port_length: "n < 100000 \<Longrightarrow> length (show_nat n) \<le> 5"
proof -
  assume "n < 100000"
  then have "n div 10 div 10 div 10 div 10 < 10" by (simp add: div_mult2_eq[symmetric])
  then show ?thesis
    by (simp add: show_nat.simps[of n] show_nat.simps[of "n div 10"] show_nat.simps[of "n div 10 div 10"]
        show_nat.simps[of "n div 10 div 10 div 10"] show_nat.simps[of "n div 10 div 10 div 10 div 10"])
qed

theorem nft_scripts_whole:
  assumes "length (ifname tun) \<le> 15" and "length wan \<le> 15" and "ifname tun \<noteq> []"
    and "priv_data tun = Some priv" and "validate_mask (t_mask tun)" and "port \<noteq> 0"
  shows "fst (snd (syt_server_rules_add_nft sys tun wan)) =
      [NftScript (bp_nft priv) (server_ruleset (ifname tun) wan
         (dotted (t_ip tun) @ ''/'' @ show_nat (nat (mask_to_prefix (t_mask tun)))))] \<and>
    fst (snd (syt_client_rules_add_nft sys tun (Some wan) (Some (dotted srv)) port)) =
      [NftScript (bp_nft priv) (client_ruleset (ifname tun) wan (dotted srv) (unat port))] \<and>
    (\<exists>rest. server_ruleset (ifname tun) wan cidr = ''table inet vpn_'' @ ifname tun @ '' {'' @ rest) \<and>
    fst (snd (sys_server_rules_del_nft sys tun)) =
      [NftScript (bp_nft priv) (''destroy table inet vpn_'' @ ifname tun @ nl)] \<and>
    (\<exists>rest. client_ruleset (ifname tun) wan ip n = ''table inet vpn_ks_'' @ ifname tun @ '' {'' @ rest) \<and>
    fst (snd (syt_client_rules_del_nft sys tun)) =
      [NftScript (bp_nft priv) (''destroy table inet vpn_ks_'' @ ifname tun @ nl)]"
proof -
  have whole: "snprintf_trunc n str = str" if "length str < n" for n str
    using that by (simp add: snprintf_trunc_def)
  have run: "fst (snd (run_nft sys tun rules)) = [NftScript (bp_nft priv) rules]" for rules
    using assms(4) by (simp add: run_nft_def Let_def)
  let ?cidr = "dotted (t_ip tun) @ ''/'' @ show_nat (popcount (ntohl (t_mask tun)))"
  have pc: "popcount (ntohl (t_mask tun)) \<le> 32"
    using length_filter_le[of "bit (ntohl (t_mask tun))" "[0..<32]"] by (simp add: popcount_def)
  then have cl: "length ?cidr \<le> 18"
    using length_dotted[of "t_ip tun"] show_prefix_length[OF pc] by simp
  have cidr: "in_addr_to_cidr (Some (t_ip tun)) (Some (t_mask tun)) INET_CIDRSTRLEN = Ok ?cidr"
    using assms(5) cl length_dotted[of "t_ip tun"] whole[of ?cidr 20]
    by (simp add: in_addr_to_cidr_def inet_ntop_def)
  have server: "length (server_ruleset (ifname tun) wan ?cidr) < 1024"
    unfolding server_ruleset_def nl_def quoted_def using assms(1,2) cl by simp
  have "unat port < 100000" using unsigned_less[of port, where ?'a = nat] by simp
  then have client: "length (client_ruleset (ifname tun) wan (dotted srv) (unat port)) < 1024"
    unfolding client_ruleset_def nl_def quoted_def
    using assms(1,2) length_dotted[of srv] show_port_length[of "unat port"] by simp
  have prefix: "nat (mask_to_prefix (t_mask tun)) = popcount (ntohl (t_mask tun))"
    using assms(5) by (simp add: mask_to_prefix_def)
  have del: "length (''destroy table inet vpn_'' @ ifname tun @ nl) < 256"
    "length (''destroy table inet vpn_ks_'' @ ifname tun @ nl) < 256"
    using assms(1) by (simp_all add: nl_def)
  have "fst (snd (syt_server_rules_add_nft sys tun wan)) = [NftScript (bp_nft priv) (server_ruleset (ifname tun) wan ?cidr)]"
    unfolding syt_server_rules_add_nft_def cidr cres.case whole[OF server] run ..
  moreover have "fst (snd (syt_client_rules_add_nft sys tun (Some wan) (Some (dotted srv)) port)) =
      [NftScript (bp_nft priv) (client_ruleset (ifname tun) wan (dotted srv) (unat port))]"
    unfolding syt_client_rules_add_nft_def prod.case option.case whole[OF client] using assms(6) by (simp add: run)
  moreover have "\<exists>rest. server_ruleset (ifname tun) wan cidr = ''table inet vpn_'' @ ifname tun @ '' {'' @ rest"
    unfolding server_ruleset_def by blast
  moreover have "\<exists>rest. client_ruleset (ifname tun) wan ip n = ''table inet vpn_ks_'' @ ifname tun @ '' {'' @ rest"
    unfolding client_ruleset_def by blast
  moreover have "fst (snd (sys_server_rules_del_nft sys tun)) =
      [NftScript (bp_nft priv) (''destroy table inet vpn_'' @ ifname tun @ nl)]"
    unfolding sys_server_rules_del_nft_def whole[OF del(1)] using assms(3) by (simp add: run)
  moreover have "fst (snd (syt_client_rules_del_nft sys tun)) =
      [NftScript (bp_nft priv) (''destroy table inet vpn_ks_'' @ ifname tun @ nl)]"
    unfolding syt_client_rules_del_nft_def whole[OF del(2)] using assms(3) by (simp add: run)
  ultimately show ?thesis unfolding prefix by blast
qed

theorem nft_scripts_whole_witness:
  "\<exists>tun priv. priv_data tun = Some priv \<and> ifname tun = ''tun0'' \<and>
     fst (snd (sys_server_rules_del_nft (\<lambda>_. 0) tun)) =
       [NftScript (bp_nft priv) (''destroy table inet vpn_'' @ ''tun0'' @ nl)]"
proof -
  define priv where "priv = \<lparr>bp_sysctl = ''/sbin/sysctl'', bp_ip = ''/sbin/ip'',
    bp_resolvectl = ''/usr/bin/resolvectl'', bp_iptables = ''/sbin/iptables'',
    bp_iptables_restore = ''/sbin/iptables-restore'', bp_nft = ''/usr/sbin/nft''\<rparr>"
  define tun where "tun = \<lparr>tun_fd = 3, sts_flags = TUN_STATE_OPEN, ifname = ''tun0'', t_ip = 0x0100000A,
    t_mask = prefix_mask 24, t_prefix = 24, t_net = 0x0000000A, t_dns1 = 0, t_dns2 = 0, t_mtu = 1280,
    t_api = Some TUN_BACKEND_NETLINK_SERVER, priv_data = Some priv\<rparr>"
  have "validate_mask (t_mask tun)" unfolding validate_mask_iff tun_def by (intro exI[of _ 24]) simp
  then have "fst (snd (sys_server_rules_del_nft (\<lambda>_. 0) tun)) =
      [NftScript (bp_nft priv) (''destroy table inet vpn_'' @ ifname tun @ nl)]"
    using nft_scripts_whole[of tun "''eth0''" priv 443 "\<lambda>_. 0"] by (simp add: tun_def)
  then show ?thesis by (intro exI[of _ tun] exI[of _ priv]) (simp add: tun_def)
qed

end
