(* ===== verification/Ip_Pool.thy ===== *)
theory Ip_Pool
  imports Lease_Spec Tun_Api
begin

text \<open>
  The pool of tunnel addresses, \<^verbatim>\<open>server/src/engine/ip_pool.c\<close>: one entry for every
  address of the tunnel's subnet, handed to clients round robin, with constant-time lookup of the
  client of an address. A pointer to an entry is its index, a client is its address. Every
  operation runs under the pool's lock.
\<close>

section \<open>Data\<close>

record ip_entry_t =
  e_ip :: in_addr
  ip_str :: string
  used :: bool
  e_client :: "nat option"

record ip_pool_t =
  net_addr :: in_addr
  netmask :: in_addr
  server_ip :: in_addr
  ip_entry :: "ip_entry_t list"
  max_clients :: nat
  next_idx :: nat

section \<open>Operations\<close>

text \<open>One pass of the loop that fills the entries, \<^term>\<open>i\<close> being the loop variable.\<close>

definition mk_ip_entry :: "u32 \<Rightarrow> u32 \<Rightarrow> nat \<Rightarrow> nat \<Rightarrow> ip_entry_t" where
  "mk_ip_entry net_host server_host maxc i =
     (let current_host_ip = net_host + of_nat i; ip = htonl current_host_ip in
      \<lparr>e_ip = ip, ip_str = (case inet_ntop ip 16 of Ok str \<Rightarrow> str | _ \<Rightarrow> []),
       used = (i = 0 \<or> i = maxc - 1 \<or> current_host_ip = server_host), e_client = None\<rparr>)"

text \<open>The two allocations are arguments. The capacity is computed in 32 bits.\<close>

definition ip_pool_create :: "bool \<Rightarrow> bool \<Rightarrow> tun_iface option \<Rightarrow> ip_pool_t option" where
  "ip_pool_create calloc_pool calloc_entries tp =
     (case tp of None \<Rightarrow> None
      | Some tun \<Rightarrow>
        if \<not> calloc_pool then None
        else
          let server = t_ip tun; m = t_mask tun; net = t_ip tun AND t_mask tun;
              net_host = ntohl net; mask_host = ntohl m; server_host = ntohl server in
          if \<not> validate_mask m then None
          else
            let maxc = unat (NOT mask_host + 1) in
            if \<not> calloc_entries then None
            else Some \<lparr>net_addr = net, netmask = m, server_ip = server,
                       ip_entry = map (mk_ip_entry net_host server_host maxc) [0..<maxc],
                       max_clients = maxc, next_idx = 0\<rparr>)"

text \<open>The search from the cursor: \<^term>\<open>i\<close> is the loop variable, with \<^term>\<open>n\<close> passes left.\<close>

fun ip_scan :: "ip_pool_t \<Rightarrow> nat \<Rightarrow> nat \<Rightarrow> nat option" where
  "ip_scan pool i 0 = None"
| "ip_scan pool i (Suc n) =
     (let idx = (next_idx pool + i) mod max_clients pool in
      if \<not> used (ip_entry pool ! idx) then Some idx else ip_scan pool (Suc i) n)"

definition ip_acquire :: "ip_pool_t \<Rightarrow> nat option \<Rightarrow> ip_pool_t \<times> nat option" where
  "ip_acquire pool client =
     (case client of None \<Rightarrow> (pool, None)
      | Some c \<Rightarrow>
     (case ip_scan pool 0 (max_clients pool) of None \<Rightarrow> (pool, None)
      | Some idx \<Rightarrow>
        (pool\<lparr>ip_entry := (ip_entry pool)[idx := (ip_entry pool ! idx)\<lparr>used := True, e_client := Some c\<rparr>],
              next_idx := (idx + 1) mod max_clients pool\<rparr>, Some idx)))"

definition ip_release :: "ip_pool_t option \<Rightarrow> nat option \<Rightarrow> ip_pool_t option \<times> int" where
  "ip_release pp entry =
     (case pp of None \<Rightarrow> (None, - EINVAL)
      | Some pool \<Rightarrow>
     (case entry of None \<Rightarrow> (pp, - EINVAL)
      | Some idx \<Rightarrow>
        (Some (pool\<lparr>ip_entry := (ip_entry pool)[idx := (ip_entry pool ! idx)\<lparr>used := False, e_client := None\<rparr>]\<rparr>),
         0)))"

text \<open>The upper bound is computed in \<^verbatim>\<open>size_t\<close> and cannot wrap.\<close>

definition ip_client_search :: "ip_pool_t option \<Rightarrow> in_addr \<Rightarrow> nat option" where
  "ip_client_search pp ip =
     (case pp of None \<Rightarrow> None
      | Some pool \<Rightarrow>
        let net_ntoh = ntohl (net_addr pool); ip_ntoh = ntohl ip in
        if ip_ntoh < net_ntoh \<or> unat net_ntoh + max_clients pool \<le> unat ip_ntoh then None
        else
          let idx = unat (ip_ntoh - net_ntoh) in
          if used (ip_entry pool ! idx) \<and> e_ip (ip_entry pool ! idx) = ip
          then e_client (ip_entry pool ! idx) else None)"

section \<open>Subnets\<close>

text \<open>The capacity of a subnet: the addresses that agree with the network under the mask, and
  none at all for the mask /0, where the 32-bit sum wraps.\<close>

lemma mask_host_form: "validate_mask m \<Longrightarrow> \<exists>k\<le>32. ntohl m = NOT (Bit_Operations.mask k)"
  unfolding validate_mask_iff prefix_mask_def by (metis hton_hton(2) diff_le_self)

lemma capacity_mask: "k < 32 \<Longrightarrow> unat (NOT (NOT (Bit_Operations.mask k)) + 1 :: u32) = 2 ^ k"
proof -
  assume "k < 32"
  then have "(2::nat) ^ k < 2 ^ 32" by (intro power_strict_increasing) auto
  then have "unat (of_nat (2 ^ k) :: u32) = 2 ^ k" by (simp add: unat_of_nat take_bit_nat_eq_self del: of_nat_power)
  then show ?thesis by (simp add: mask_eq_exp_minus_1)
qed

lemma capacity_zero_mask: "unat (NOT (NOT (Bit_Operations.mask 32)) + 1 :: u32) = 0"
  by (simp add: mask_eq_exp_minus_1)

text \<open>In one subnet means between the network address and the capacity above it.\<close>

lemma subnet_range:
  fixes a s :: u32
  shows "a AND NOT (Bit_Operations.mask k) = s AND NOT (Bit_Operations.mask k) \<longleftrightarrow>
    unat (s AND NOT (Bit_Operations.mask k)) \<le> unat a \<and>
    unat a < unat (s AND NOT (Bit_Operations.mask k)) + 2 ^ k"
proof -
  have "a AND NOT (Bit_Operations.mask k) = s AND NOT (Bit_Operations.mask k) \<longleftrightarrow>
      unat a div 2 ^ k * 2 ^ k = unat s div 2 ^ k * 2 ^ k"
    unfolding word_unat_eq_iff unat_and_not_mask ..
  also have "\<dots> \<longleftrightarrow> unat a div 2 ^ k = unat s div 2 ^ k" by simp
  also have "\<dots> \<longleftrightarrow> unat s div 2 ^ k * 2 ^ k \<le> unat a \<and> unat a < unat s div 2 ^ k * 2 ^ k + 2 ^ k"
  proof
    assume "unat a div 2 ^ k = unat s div 2 ^ k"
    moreover have "unat a div 2 ^ k * 2 ^ k \<le> unat a" "unat a < unat a div 2 ^ k * 2 ^ k + 2 ^ k"
      using dividend_less_div_times[of "2 ^ k" "unat a"] by (simp_all add: add.commute)
    ultimately show "unat s div 2 ^ k * 2 ^ k \<le> unat a \<and> unat a < unat s div 2 ^ k * 2 ^ k + 2 ^ k" by simp
  next
    assume "unat s div 2 ^ k * 2 ^ k \<le> unat a \<and> unat a < unat s div 2 ^ k * 2 ^ k + 2 ^ k"
    then show "unat a div 2 ^ k = unat s div 2 ^ k"
      by (intro div_nat_eqI) (auto simp: algebra_simps)
  qed
  finally show ?thesis by (simp add: unat_and_not_mask)
qed

section \<open>Invariant\<close>

definition net_host :: "ip_pool_t \<Rightarrow> u32" where
  "net_host pool = ntohl (net_addr pool)"

definition reserved :: "ip_pool_t \<Rightarrow> nat \<Rightarrow> bool" where
  "reserved pool i \<longleftrightarrow> i = 0 \<or> i = max_clients pool - 1 \<or> net_host pool + of_nat i = ntohl (server_ip pool)"

definition ip_pool_ok :: "ip_pool_t \<Rightarrow> bool" where
  "ip_pool_ok pool \<longleftrightarrow>
     validate_mask (netmask pool) \<and> net_addr pool = server_ip pool AND netmask pool \<and>
     max_clients pool = unat (NOT (ntohl (netmask pool)) + 1) \<and> length (ip_entry pool) = max_clients pool \<and>
     (max_clients pool = 0 \<or> next_idx pool < max_clients pool) \<and>
     (\<forall>i<max_clients pool.
        e_ip (ip_entry pool ! i) = htonl (net_host pool + of_nat i) \<and>
        ip_str (ip_entry pool ! i) = dotted (e_ip (ip_entry pool ! i)) \<and>
        (used (ip_entry pool ! i) \<longleftrightarrow> reserved pool i \<or> e_client (ip_entry pool ! i) \<noteq> None) \<and>
        (reserved pool i \<longrightarrow> e_client (ip_entry pool ! i) = None))"

text \<open>The leases and the entries that may be leased.\<close>

definition ip_leases :: "ip_pool_t \<Rightarrow> nat \<rightharpoonup> nat" where
  "ip_leases pool i = (if i < max_clients pool then e_client (ip_entry pool ! i) else None)"

definition ip_usable :: "ip_pool_t \<Rightarrow> nat set" where
  "ip_usable pool = {i. i < max_clients pool \<and> \<not> reserved pool i}"

lemma ip_pool_okD:
  assumes "ip_pool_ok pool"
  shows "validate_mask (netmask pool)" "net_addr pool = server_ip pool AND netmask pool"
    "max_clients pool = unat (NOT (ntohl (netmask pool)) + 1)" "length (ip_entry pool) = max_clients pool"
    "0 < max_clients pool \<Longrightarrow> next_idx pool < max_clients pool"
    "i < max_clients pool \<Longrightarrow> e_ip (ip_entry pool ! i) = htonl (net_host pool + of_nat i)"
    "i < max_clients pool \<Longrightarrow> ip_str (ip_entry pool ! i) = dotted (e_ip (ip_entry pool ! i))"
    "i < max_clients pool \<Longrightarrow> used (ip_entry pool ! i) \<longleftrightarrow> reserved pool i \<or> e_client (ip_entry pool ! i) \<noteq> None"
    "i < max_clients pool \<Longrightarrow> reserved pool i \<Longrightarrow> e_client (ip_entry pool ! i) = None"
  using assms unfolding ip_pool_ok_def by auto

lemma ip_pool_create_ok:
  assumes "ip_pool_create c1 c2 (Some tun) = Some pool"
  shows "ip_pool_ok pool \<and> ip_leases pool = Map.empty \<and>
    server_ip pool = t_ip tun \<and> netmask pool = t_mask tun \<and> net_addr pool = t_ip tun AND t_mask tun"
proof -
  have "inet_ntop a 16 = Ok (dotted a)" for a using length_dotted[of a] by (simp add: inet_ntop_def)
  then show ?thesis using assms
    by (auto simp: ip_pool_create_def Let_def ip_pool_ok_def ip_leases_def mk_ip_entry_def reserved_def
        net_host_def fun_eq_iff split: if_splits)
qed

lemma ip_scan_find:
  "ip_scan pool i n = List.find (\<lambda>idx. \<not> used (ip_entry pool ! idx))
     (map (\<lambda>j. (next_idx pool + j) mod max_clients pool) [i..<i + n])"
proof (induction n arbitrary: i)
  case (Suc n)
  have "[i..<i + Suc n] = i # [Suc i..<Suc i + n]" by (simp add: upt_conv_Cons del: upt_Suc)
  then show ?case using Suc by (simp add: Let_def)
qed simp

text \<open>The cursor visits every index once in a full turn.\<close>

lemma full_turn: "0 < n \<Longrightarrow> (\<lambda>j. (c + j) mod n) ` {0..<n} = {0..<n}" for n :: nat
proof
  assume n: "0 < n"
  show "(\<lambda>j. (c + j) mod n) ` {0..<n} \<subseteq> {0..<n}" using n by auto
  show "{0..<n} \<subseteq> (\<lambda>j. (c + j) mod n) ` {0..<n}"
  proof
    fix x assume x: "x \<in> {0..<n}"
    have "c + (x + (n - r)) = x + n * (q + 1)" if "c = n * q + r" "r < n" for q r using that by simp
    from this[of "c div n" "c mod n"] have "c + (x + (n - c mod n)) = x + n * (c div n + 1)" using n by simp
    then have "(c + (x + (n - c mod n))) mod n = x" using x by (simp only: mod_mult_self2) simp
    then have "(c + (x + (n - c mod n)) mod n) mod n = x" by (simp only: mod_add_right_eq)
    then show "x \<in> (\<lambda>j. (c + j) mod n) ` {0..<n}" using n by (metis atLeastLessThan_iff image_eqI mod_less_divisor zero_le)
  qed
qed

lemma ip_scan_Some:
  assumes "ip_pool_ok pool" "ip_scan pool 0 (max_clients pool) = Some idx"
  shows "idx < max_clients pool \<and> \<not> used (ip_entry pool ! idx)"
proof -
  have "0 < max_clients pool" using assms(2) by (cases "max_clients pool") auto
  then show ?thesis using assms(2) by (auto simp: ip_scan_find find_Some_iff)
qed

lemma ip_scan_None:
  assumes "ip_scan pool 0 (max_clients pool) = None" "i < max_clients pool"
  shows "used (ip_entry pool ! i)"
proof -
  have "i \<in> (\<lambda>j. (next_idx pool + j) mod max_clients pool) ` {0..<max_clients pool}"
    using full_turn[of "max_clients pool" "next_idx pool"] assms(2) by auto
  then show ?thesis using assms(1) by (auto simp: ip_scan_find find_None_iff)
qed

section \<open>The contract\<close>

abbreviation acquire_for :: "nat \<Rightarrow> ip_pool_t \<Rightarrow> nat option \<times> ip_pool_t" where
  "acquire_for c pool \<equiv> prod.swap (ip_acquire pool (Some c))"

abbreviation release_entry :: "nat \<Rightarrow> ip_pool_t \<Rightarrow> ip_pool_t" where
  "release_entry idx pool \<equiv> the (fst (ip_release (Some pool) (Some idx)))"

lemma ip_acquire_Some:
  assumes ok: "ip_pool_ok pool" and a: "ip_acquire pool (Some c) = (pool', Some idx)"
  shows "ip_pool_ok pool' \<and> ip_usable pool' = ip_usable pool \<and> idx \<in> ip_usable pool \<and>
    ip_leases pool idx = None \<and> ip_leases pool' = (ip_leases pool)(idx \<mapsto> c)"
proof -
  note p = ip_pool_okD[OF ok]
  from a have scan: "ip_scan pool 0 (max_clients pool) = Some idx"
    and pool': "pool' = pool\<lparr>ip_entry := (ip_entry pool)[idx := (ip_entry pool ! idx)\<lparr>used := True, e_client := Some c\<rparr>],
              next_idx := (idx + 1) mod max_clients pool\<rparr>"
    by (auto simp: ip_acquire_def split: option.splits)
  have idx: "idx < max_clients pool" "\<not> used (ip_entry pool ! idx)" using ip_scan_Some[OF ok scan] by auto
  then have free: "\<not> reserved pool idx" "e_client (ip_entry pool ! idx) = None" using p(8) by auto
  have same: "reserved pool' i = reserved pool i" "net_host pool' = net_host pool" for i
    by (simp_all add: reserved_def net_host_def pool')
  have "ip_pool_ok pool'"
    unfolding ip_pool_ok_def same using p idx free(1)
    by (auto simp: pool' nth_list_update)
  moreover have "ip_leases pool' = (ip_leases pool)(idx \<mapsto> c)"
    using idx p(4) by (auto simp: ip_leases_def pool' nth_list_update fun_eq_iff)
  moreover have "ip_usable pool' = ip_usable pool" by (simp add: ip_usable_def same) (simp add: pool')
  ultimately show ?thesis using idx free by (simp add: ip_usable_def ip_leases_def)
qed

lemma ip_acquire_None:
  assumes ok: "ip_pool_ok pool" and a: "ip_acquire pool (Some c) = (pool', None)"
  shows "pool' = pool \<and> ip_usable pool \<subseteq> dom (ip_leases pool)"
proof -
  from a have "ip_scan pool 0 (max_clients pool) = None" "pool' = pool"
    by (auto simp: ip_acquire_def split: option.splits)
  moreover have "i \<in> dom (ip_leases pool)" if "i \<in> ip_usable pool" for i
    using that ip_scan_None[OF calculation(1), of i] ip_pool_okD(8)[OF ok, of i]
    by (auto simp: ip_usable_def ip_leases_def)
  ultimately show ?thesis by blast
qed

lemma ip_release_held:
  assumes ok: "ip_pool_ok pool" and held: "ip_leases pool idx \<noteq> None"
  shows "ip_pool_ok (release_entry idx pool) \<and> ip_usable (release_entry idx pool) = ip_usable pool \<and>
    ip_leases (release_entry idx pool) = (ip_leases pool)(idx := None)"
proof -
  note p = ip_pool_okD[OF ok]
  define pool' where "pool' = release_entry idx pool"
  then have pool': "pool' =
      pool\<lparr>ip_entry := (ip_entry pool)[idx := (ip_entry pool ! idx)\<lparr>used := False, e_client := None\<rparr>]\<rparr>"
    by (simp add: ip_release_def)
  have idx: "idx < max_clients pool" "\<not> reserved pool idx"
    using held p(9)[of idx] by (auto simp: ip_leases_def split: if_splits)
  have same: "reserved pool' i = reserved pool i" "net_host pool' = net_host pool" for i
    by (simp_all add: reserved_def net_host_def pool')
  have "ip_pool_ok pool'" unfolding ip_pool_ok_def same using p idx by (auto simp: pool' nth_list_update)
  moreover have "ip_leases pool' = (ip_leases pool)(idx := None)"
    using idx p(4) by (auto simp: ip_leases_def pool' nth_list_update fun_eq_iff)
  moreover have "ip_usable pool' = ip_usable pool" by (simp add: ip_usable_def same) (simp add: pool')
  ultimately show ?thesis unfolding pool'_def by blast
qed

interpretation ipl: lease_table ip_pool_ok ip_leases ip_usable acquire_for release_entry
proof
  fix pool pool' c idx assume "ip_pool_ok pool" "acquire_for c pool = (Some idx, pool')"
  then show "ip_pool_ok pool' \<and> ip_usable pool' = ip_usable pool \<and> idx \<in> ip_usable pool \<and>
      ip_leases pool idx = None \<and> ip_leases pool' = (ip_leases pool)(idx \<mapsto> c)"
    using ip_acquire_Some[of pool c pool' idx] by (cases "ip_acquire pool (Some c)") simp
next
  fix pool pool' c assume "ip_pool_ok pool" "acquire_for c pool = (None, pool')"
  then show "pool' = pool \<and> ip_usable pool \<subseteq> dom (ip_leases pool)"
    using ip_acquire_None[of pool c pool'] by (cases "ip_acquire pool (Some c)") simp
next
  fix pool idx assume "ip_pool_ok pool" "ip_leases pool idx \<noteq> None"
  then show "ip_pool_ok (release_entry idx pool) \<and> ip_usable (release_entry idx pool) = ip_usable pool \<and>
    ip_leases (release_entry idx pool) = (ip_leases pool)(idx := None)"
    by (rule ip_release_held)
next
  fix pool assume ok: "ip_pool_ok pool"
  show "dom (ip_leases pool) \<subseteq> ip_usable pool"
    using ip_pool_okD(9)[OF ok] by (auto simp: ip_leases_def ip_usable_def split: if_splits)
next
  fix pool show "finite (ip_usable pool)" by (simp add: ip_usable_def)
qed

section \<open>Addresses of entries\<close>

text \<open>The pool of a tunnel with mask of \<^term>\<open>32 - k\<close> bits.\<close>

lemma ip_pool_geometry:
  assumes ok: "ip_pool_ok pool" and m: "netmask pool \<noteq> 0"
  obtains k where "k < 32" "ntohl (netmask pool) = NOT (Bit_Operations.mask k)" "max_clients pool = 2 ^ k"
    "net_host pool = ntohl (server_ip pool) AND NOT (Bit_Operations.mask k)"
    "unat (net_host pool) + 2 ^ k \<le> 2 ^ 32"
proof -
  note p = ip_pool_okD[OF ok]
  obtain k where k: "k \<le> 32" "ntohl (netmask pool) = NOT (Bit_Operations.mask k)"
    using mask_host_form[OF p(1)] by blast
  have "k \<noteq> 32"
  proof
    assume "k = 32"
    then have "ntohl (netmask pool) = 0" using k(2) by (simp add: mask_eq_exp_minus_1)
    moreover have "ntohl 0 = 0" by code_simp
    ultimately show False using m by (metis hton_inj(2))
  qed
  then have k32: "k < 32" using k(1) by simp
  have net: "net_host pool = ntohl (server_ip pool) AND NOT (Bit_Operations.mask k)"
    unfolding net_host_def p(2) htonl_and k(2) ..
  have "unat (net_host pool) = unat (ntohl (server_ip pool)) div 2 ^ k * 2 ^ k"
    unfolding net by (rule unat_and_not_mask)
  moreover have "unat (ntohl (server_ip pool)) div 2 ^ k < 2 ^ (32 - k)"
    using unsigned_less[of "ntohl (server_ip pool)", where ?'a = nat] k32
    by (simp add: less_mult_imp_div_less power_add[symmetric])
  then have "(unat (ntohl (server_ip pool)) div 2 ^ k + 1) * 2 ^ k \<le> 2 ^ (32 - k) * 2 ^ k"
    by (intro mult_right_mono) auto
  ultimately have "unat (net_host pool) + 2 ^ k \<le> 2 ^ 32"
    using k32 by (simp add: power_add[symmetric])
  moreover have "max_clients pool = 2 ^ k" unfolding p(3) k(2) by (rule capacity_mask[OF k32])
  ultimately show ?thesis using that k32 k(2) net by blast
qed

lemma no_clients_without_mask: "ip_pool_ok pool \<Longrightarrow> netmask pool = 0 \<Longrightarrow> max_clients pool = 0"
proof -
  assume "ip_pool_ok pool" "netmask pool = 0"
  then have "max_clients pool = unat (NOT (ntohl 0) + 1)" using ip_pool_okD(3)[of pool] by simp
  also have "\<dots> = 0" by code_simp
  finally show ?thesis .
qed

definition entry_addr :: "ip_pool_t \<Rightarrow> nat \<Rightarrow> in_addr" where
  "entry_addr pool i = htonl (net_host pool + of_nat i)"

text \<open>Hosts: the addresses of the subnet but the network, broadcast and server addresses.\<close>

definition subnet_hosts :: "in_addr \<Rightarrow> in_addr \<Rightarrow> in_addr set" where
  "subnet_hosts server m =
     {a. a AND m = server AND m \<and> a \<noteq> server AND m \<and> a \<noteq> (server AND m) OR NOT m \<and> a \<noteq> server}"

lemma unat_entry:
  assumes "unat (net :: u32) + 2 ^ k \<le> 2 ^ 32" "i < 2 ^ k"
  shows "unat (net + of_nat i) = unat net + i"
proof -
  have "(unat net + i) < 2 ^ 32" using assms by linarith
  moreover have "unat (of_nat i :: u32) = i" using assms by (simp add: unat_of_nat take_bit_nat_eq_self)
  ultimately show ?thesis using unat_add_lem[of net "of_nat i"] by simp
qed

lemma entry_addr_inj:
  assumes "ip_pool_ok pool" "i < max_clients pool" "j < max_clients pool" "entry_addr pool i = entry_addr pool j"
  shows "i = j"
proof (cases "netmask pool = 0")
  case True
  then show ?thesis using assms no_clients_without_mask by fastforce
next
  case False
  obtain k where k: "max_clients pool = 2 ^ k" "unat (net_host pool) + 2 ^ k \<le> 2 ^ 32"
    using ip_pool_geometry[OF assms(1) False] by blast
  have "net_host pool + of_nat i = net_host pool + of_nat j"
    using assms(4) by (simp add: entry_addr_def)
  then have "unat (net_host pool) + i = unat (net_host pool) + j"
    using unat_entry[OF k(2)] assms(2,3) k(1) by metis
  then show ?thesis by simp
qed

lemma host_bounds:
  assumes geo: "k < 32" "ntohl m = NOT (Bit_Operations.mask k)"
    and net: "net = ntohl s AND NOT (Bit_Operations.mask k)" "unat net + 2 ^ k \<le> 2 ^ 32"
  shows "a \<in> subnet_hosts s m \<longleftrightarrow>
    unat net < unat (ntohl a) \<and> unat (ntohl a) < unat net + (2 ^ k - 1) \<and> a \<noteq> s"
proof -
  have m: "m = htonl (NOT (Bit_Operations.mask k))" using geo(2) by (metis hton_hton(2))
  have sm: "s AND m = htonl net" unfolding net(1) htonl_and m by simp
  have am: "a AND m = s AND m \<longleftrightarrow> unat net \<le> unat (ntohl a) \<and> unat (ntohl a) < unat net + 2 ^ k"
  proof -
    have "a AND m = s AND m \<longleftrightarrow> ntohl (a AND m) = ntohl (s AND m)" by simp
    also have "\<dots> \<longleftrightarrow> ntohl a AND NOT (Bit_Operations.mask k) = ntohl s AND NOT (Bit_Operations.mask k)"
      unfolding htonl_and geo(2) ..
    finally show ?thesis using subnet_range[of "ntohl a" k "ntohl s"] by (simp add: net(1))
  qed
  have "a = s AND m \<longleftrightarrow> unat (ntohl a) = unat net"
    unfolding sm word_unat_eq_iff[symmetric] by (metis hton_hton(2))
  moreover have "a = (s AND m) OR NOT m \<longleftrightarrow> unat (ntohl a) = unat net + (2 ^ k - 1)"
  proof -
    have "NOT m = htonl (Bit_Operations.mask k)" unfolding m by (simp add: htonl_not[symmetric])
    moreover have "net AND Bit_Operations.mask k = 0" unfolding net(1) by (rule bit_eqI) (auto simp: bit_simps)
    then have "net + Bit_Operations.mask k = net OR Bit_Operations.mask k"
      by (intro disjunctive_add) (auto simp: bit_eq_iff bit_simps)
    ultimately have "(s AND m) OR NOT m = htonl (net + Bit_Operations.mask k)"
      unfolding sm by (simp only: htonl_or)
    moreover have "unat (net + Bit_Operations.mask k) = unat net + (2 ^ k - 1)"
    proof -
      have "(Bit_Operations.mask k :: u32) = of_nat (2 ^ k - 1)" by (simp add: mask_eq_exp_minus_1 of_nat_diff)
      then show ?thesis using unat_entry[OF net(2), of "2 ^ k - 1"] by simp
    qed
    ultimately show ?thesis by (metis hton_hton(2) word_unat_eq_iff)
  qed
  moreover have "unat net < unat net + 2 ^ k" by simp
  ultimately show ?thesis unfolding subnet_hosts_def using am by auto
qed

lemma usable_addresses:
  assumes ok: "ip_pool_ok pool" and m: "netmask pool \<noteq> 0"
  shows "entry_addr pool ` ip_usable pool = subnet_hosts (server_ip pool) (netmask pool)"
proof -
  obtain k where k: "k < 32" "ntohl (netmask pool) = NOT (Bit_Operations.mask k)" "max_clients pool = 2 ^ k"
    "net_host pool = ntohl (server_ip pool) AND NOT (Bit_Operations.mask k)"
    "unat (net_host pool) + 2 ^ k \<le> 2 ^ 32" using ip_pool_geometry[OF ok m] by blast
  note host = host_bounds[OF k(1,2,4,5)]
  show ?thesis
  proof
    show "entry_addr pool ` ip_usable pool \<subseteq> subnet_hosts (server_ip pool) (netmask pool)"
    proof clarify
      fix i assume "i \<in> ip_usable pool"
      then have i: "i < 2 ^ k" "i \<noteq> 0" "i \<noteq> 2 ^ k - 1" "net_host pool + of_nat i \<noteq> ntohl (server_ip pool)"
        by (auto simp: ip_usable_def reserved_def k(3))
      have "entry_addr pool i \<noteq> server_ip pool" using i(4) unfolding entry_addr_def by (metis hton_hton(2))
      then show "entry_addr pool i \<in> subnet_hosts (server_ip pool) (netmask pool)"
        unfolding host using unat_entry[OF k(5) i(1)] i by (simp add: entry_addr_def)
    qed
    show "subnet_hosts (server_ip pool) (netmask pool) \<subseteq> entry_addr pool ` ip_usable pool"
    proof
      fix a assume "a \<in> subnet_hosts (server_ip pool) (netmask pool)"
      then have a: "unat (net_host pool) < unat (ntohl a)" "unat (ntohl a) < unat (net_host pool) + (2 ^ k - 1)"
        "a \<noteq> server_ip pool" unfolding host by auto
      let ?i = "unat (ntohl a) - unat (net_host pool)"
      have i: "?i < 2 ^ k" "?i \<noteq> 0" "?i \<noteq> 2 ^ k - 1" using a by auto
      have "unat (net_host pool + of_nat ?i) = unat (ntohl a)" using unat_entry[OF k(5) i(1)] a(1) by simp
      then have addr: "net_host pool + of_nat ?i = ntohl a" by (simp only: word_unat_eq_iff)
      then have "a = entry_addr pool ?i" by (simp add: entry_addr_def)
      moreover have "?i \<in> ip_usable pool"
        unfolding ip_usable_def reserved_def k(3) addr using i a(3) by simp
      ultimately show "a \<in> entry_addr pool ` ip_usable pool" by blast
    qed
  qed
qed

text \<open>The constant-time search is a search of the leases by address.\<close>

lemma search_leases:
  assumes ok: "ip_pool_ok pool"
  shows "ip_client_search (Some pool) a = Some c \<longleftrightarrow>
    (\<exists>i<max_clients pool. entry_addr pool i = a \<and> ip_leases pool i = Some c)"
proof (cases "netmask pool = 0")
  case True
  then show ?thesis using no_clients_without_mask[OF ok] by (auto simp: ip_client_search_def Let_def word_less_nat_alt)
next
  case False
  then obtain k where k: "max_clients pool = 2 ^ k" "unat (net_host pool) + 2 ^ k \<le> 2 ^ 32"
    using ip_pool_geometry[OF ok] by blast
  note p = ip_pool_okD[OF ok]
  let ?net = "net_host pool"
  show ?thesis
  proof (cases "ntohl a < ?net \<or> unat ?net + max_clients pool \<le> unat (ntohl a)")
    case True
    have "entry_addr pool i \<noteq> a" if "i < max_clients pool" for i
    proof
      assume "entry_addr pool i = a"
      then have "unat (ntohl a) = unat ?net + i"
        using unat_entry[OF k(2), of i] that k(1) by (auto simp: entry_addr_def)
      then show False using True that by (auto simp: word_less_nat_alt)
    qed
    then show ?thesis using True by (auto simp: ip_client_search_def net_host_def Let_def)
  next
    case False
    let ?i = "unat (ntohl a - ?net)"
    have i: "?i = unat (ntohl a) - unat ?net" using False by (intro unat_sub) (simp add: not_less)
    then have lt: "?i < max_clients pool" using False by (auto simp: word_less_nat_alt)
    have addr: "entry_addr pool ?i = a" by (simp add: entry_addr_def)
    have "ip_client_search (Some pool) a =
        (if used (ip_entry pool ! ?i) \<and> e_ip (ip_entry pool ! ?i) = a then e_client (ip_entry pool ! ?i) else None)"
      using False by (simp add: ip_client_search_def net_host_def Let_def)
    also have "\<dots> = ip_leases pool ?i"
      using p(6,8)[OF lt] addr lt by (auto simp: ip_leases_def entry_addr_def)
    finally show ?thesis using lt addr entry_addr_inj[OF ok lt] by auto
  qed
qed

text \<open>An address that was just acquired.\<close>

lemma acquired_address:
  assumes ok: "ip_pool_ok pool" and a: "ip_acquire pool (Some c) = (pool', Some idx)"
  shows "e_ip (ip_entry pool' ! idx) = entry_addr pool' idx"
    "ip_client_search (Some pool) (entry_addr pool' idx) = None"
    "ip_client_search (Some pool') (entry_addr pool' idx) = Some c"
    "entry_addr pool' idx \<in> subnet_hosts (server_ip pool) (netmask pool)"
proof -
  have ok': "ip_pool_ok pool'" and idx: "idx \<in> ip_usable pool" "ip_leases pool idx = None"
    and leases: "ip_leases pool' = (ip_leases pool)(idx \<mapsto> c)" using ip_acquire_Some[OF ok a] by auto
  have same: "net_addr pool' = net_addr pool" "max_clients pool' = max_clients pool"
    using a by (auto simp: ip_acquire_def split: option.splits)
  then have addr: "entry_addr pool' i = entry_addr pool i" for i by (simp add: entry_addr_def net_host_def)
  have lt: "idx < max_clients pool" using idx by (simp add: ip_usable_def)
  show "e_ip (ip_entry pool' ! idx) = entry_addr pool' idx"
    using ip_pool_okD(6)[OF ok'] lt same by (simp add: entry_addr_def)
  show "ip_client_search (Some pool') (entry_addr pool' idx) = Some c"
    using search_leases[OF ok'] lt same leases by auto
  have "\<nexists>d. ip_client_search (Some pool) (entry_addr pool' idx) = Some d"
    using search_leases[OF ok] entry_addr_inj[OF ok] lt idx(2) by (metis addr option.distinct(1))
  then show "ip_client_search (Some pool) (entry_addr pool' idx) = None" by simp
  have "netmask pool \<noteq> 0" using no_clients_without_mask[OF ok] lt by auto
  then show "entry_addr pool' idx \<in> subnet_hosts (server_ip pool) (netmask pool)"
    using usable_addresses[OF ok] idx(1) addr by blast
qed

section \<open>Properties\<close>

lemma lease_run_frame:
  assumes "lease_run acquire_for release_entry pool ops = (pool', hs)"
  shows "server_ip pool' = server_ip pool \<and> netmask pool' = netmask pool \<and> net_addr pool' = net_addr pool \<and>
    max_clients pool' = max_clients pool"
proof -
  let ?frame = "\<lambda>s. server_ip s = server_ip pool \<and> netmask s = netmask pool \<and> net_addr s = net_addr pool \<and>
    max_clients s = max_clients pool"
  have step: "?frame (fst (lease_holder acquire_for release_entry sh op))" if "?frame (fst sh)" for sh op
    using that by (cases op; cases sh)
      (auto simp: ip_acquire_def ip_release_def split: option.splits)
  have "?frame (fst (foldl (lease_holder acquire_for release_entry) sh ops))" if "?frame (fst sh)" for sh
    using that
  proof (induction ops arbitrary: sh)
    case (Cons op ops)
    show ?case using Cons.IH[OF step[OF Cons.prems]] by simp
  qed simp
  from this[of "(pool, [])"] assms show ?thesis by (simp add: lease_run_def)
qed

text \<open>What a run of acquisitions and releases leaves: the entries held, with their addresses.\<close>

abbreviation held_addr :: "ip_pool_t \<Rightarrow> nat \<times> nat \<Rightarrow> in_addr" where
  "held_addr pool h \<equiv> e_ip (ip_entry pool ! fst h)"

lemma lease_run_held:
  assumes "ip_pool_create c1 c2 (Some tun) = Some pool" "lease_run acquire_for release_entry pool ops = (pool', hs)"
  shows "ip_pool_ok pool'" "distinct (map fst hs)" "fst ` set hs \<subseteq> ip_usable pool" "ip_leases pool' = map_of hs"
    "snd (ip_acquire pool' (Some c)) = None \<longleftrightarrow> fst ` set hs = ip_usable pool"
    "max_clients pool' = max_clients pool" "netmask pool' = t_mask tun" "entry_addr pool' = entry_addr pool"
    "h \<in> set hs \<Longrightarrow> fst h < max_clients pool'" "h \<in> set hs \<Longrightarrow> held_addr pool' h = entry_addr pool (fst h)"
    "inj_on (entry_addr pool) {i. i < max_clients pool'}"
proof -
  have init: "ip_pool_ok pool" "ip_leases pool = Map.empty" "netmask pool = t_mask tun"
    using ip_pool_create_ok[OF assms(1)] by auto
  note frame = lease_run_frame[OF assms(2)]
  show run: "ip_pool_ok pool'" "distinct (map fst hs)" "fst ` set hs \<subseteq> ip_usable pool"
    "ip_leases pool' = map_of hs" "snd (ip_acquire pool' (Some c)) = None \<longleftrightarrow> fst ` set hs = ip_usable pool"
    using ipl.run_safe[OF init(1,2) assms(2), of c] by auto
  show "max_clients pool' = max_clients pool" "netmask pool' = t_mask tun" using frame init(3) by simp_all
  show same: "entry_addr pool' = entry_addr pool" using frame by (simp add: entry_addr_def net_host_def fun_eq_iff)
  show lt: "fst h < max_clients pool'" if "h \<in> set hs" for h
    using that run(3) frame by (auto simp: ip_usable_def)
  show "held_addr pool' h = entry_addr pool (fst h)" if "h \<in> set hs" for h
    using ip_pool_okD(6)[OF run(1) lt[OF that]] by (simp add: entry_addr_def same[symmetric])
  show "inj_on (entry_addr pool) {i. i < max_clients pool'}"
    using entry_addr_inj[OF run(1)] by (auto simp: inj_on_def same)
qed

lemma search_held:
  assumes ok: "ip_pool_ok pool" "ip_leases pool = map_of hs" and d: "distinct (map fst hs)" "distinct (map (held_addr pool) hs)"
    and h: "\<And>h. h \<in> set hs \<Longrightarrow> fst h < max_clients pool" "\<And>h. h \<in> set hs \<Longrightarrow> held_addr pool h = entry_addr pool (fst h)"
  shows "ip_client_search (Some pool) a = map_of (map (\<lambda>h. (held_addr pool h, snd h)) hs) a"
proof -
  have d': "distinct (map fst (map (\<lambda>h. (held_addr pool h, snd h)) hs))" using d(2) by (simp add: comp_def)
  have "ip_client_search (Some pool) a = Some x \<longleftrightarrow> map_of (map (\<lambda>h. (held_addr pool h, snd h)) hs) a = Some x" for x
  proof -
    have "ip_client_search (Some pool) a = Some x \<longleftrightarrow> (\<exists>h\<in>set hs. held_addr pool h = a \<and> snd h = x)"
      unfolding search_leases[OF ok(1)] ok(2) map_of_eq_Some_iff[OF d(1)] using h by (metis fst_conv prod.collapse snd_conv)
    also have "\<dots> \<longleftrightarrow> map_of (map (\<lambda>h. (held_addr pool h, snd h)) hs) a = Some x"
      unfolding map_of_eq_Some_iff[OF d'] by (auto simp: image_iff)
    finally show ?thesis .
  qed
  moreover have "p = q" if "\<And>x. p = Some x \<longleftrightarrow> q = Some x" for p q :: "nat option" 
    using that[of "the p"] that[of "the q"] by (cases p; cases q) auto
  ultimately show ?thesis by blast
qed

text \<open>The addresses held are hosts of the subnet, and all of them exactly when no entry is left.\<close>

lemma held_hosts:
  assumes "ip_pool_create c1 c2 (Some tun) = Some pool" "lease_run acquire_for release_entry pool ops = (pool', hs)" "t_mask tun \<noteq> 0"
  shows "held_addr pool' ` set hs \<subseteq> subnet_hosts (t_ip tun) (t_mask tun)"
    "snd (ip_acquire pool' (Some c)) = None \<longleftrightarrow> held_addr pool' ` set hs = subnet_hosts (t_ip tun) (t_mask tun)"
proof -
  note run = lease_run_held[OF assms(1,2)]
  have img: "held_addr pool' ` set hs = entry_addr pool ` fst ` set hs" using run(10) by (auto simp: image_iff)
  have hosts: "subnet_hosts (t_ip tun) (t_mask tun) = entry_addr pool ` ip_usable pool"
    using usable_addresses[of pool] ip_pool_create_ok[OF assms(1)] assms(3) by auto
  show "held_addr pool' ` set hs \<subseteq> subnet_hosts (t_ip tun) (t_mask tun)" unfolding img hosts using run(3) by blast
  have "ip_usable pool \<subseteq> {i. i < max_clients pool'}" "fst ` set hs \<subseteq> {i. i < max_clients pool'}"
    using run(6,9) by (auto simp: ip_usable_def)
  then show "snd (ip_acquire pool' (Some c)) = None \<longleftrightarrow> held_addr pool' ` set hs = subnet_hosts (t_ip tun) (t_mask tun)"
    unfolding run(5) img hosts using inj_on_image_eq_iff[OF run(11), of "fst ` set hs" "ip_usable pool"] by simp
qed

lemma held_none:
  assumes "ip_pool_create c1 c2 (Some tun) = Some pool" "lease_run acquire_for release_entry pool ops = (pool', hs)" "t_mask tun = 0"
  shows "max_clients pool' = 0" "hs = []" "snd (ip_acquire pool' (Some c)) = None"
proof -
  note run = lease_run_held[OF assms(1,2)]
  show none: "max_clients pool' = 0" using no_clients_without_mask[OF run(1)] run(7) assms(3) by simp
  then show "hs = []" using run(9) by (cases hs) auto
  show "snd (ip_acquire pool' (Some c)) = None" using none by (simp add: ip_acquire_def)
qed

text \<open>
  C7. The address pool. Take the pool of any tunnel and let clients acquire and release
  addresses in any order, each releasing only what it holds. Then at every moment: no two
  clients hold the same address; every address held is a host address of the tunnel's subnet,
  never the network, the broadcast or the server's own address, and its text is right; the
  lookup that routes a packet finds, for every address whatsoever, exactly the client holding
  it, and nobody otherwise; and a further request fails if and only if every host address is
  held. With the mask /0 the capacity wraps to zero, nothing is ever handed out and every
  request fails.
\<close>

theorem ip_pool_leases:
  assumes "ip_pool_create c1 c2 (Some tun) = Some pool"
    and "lease_run acquire_for release_entry pool ops = (pool', hs)"
  shows "(let addr = (\<lambda>(e, c). e_ip (ip_entry pool' ! e)) in
      distinct (map addr hs) \<and>
      addr ` set hs \<subseteq> subnet_hosts (t_ip tun) (t_mask tun) \<and>
      (\<forall>(e, c) \<in> set hs. ip_str (ip_entry pool' ! e) = dotted (addr (e, c))) \<and>
      (\<forall>a. ip_client_search (Some pool') a = map_of (map (\<lambda>h. (addr h, snd h)) hs) a) \<and>
      (t_mask tun \<noteq> 0 \<longrightarrow>
        (snd (ip_acquire pool' (Some c)) = None \<longleftrightarrow> addr ` set hs = subnet_hosts (t_ip tun) (t_mask tun))) \<and>
      (t_mask tun = 0 \<longrightarrow> max_clients pool' = 0 \<and> hs = [] \<and> snd (ip_acquire pool' (Some c)) = None))"
proof -
  note run = lease_run_held[OF assms]
  have addr: "(\<lambda>(e :: nat, c :: nat). e_ip (ip_entry pool' ! e)) = held_addr pool'" by (simp add: fun_eq_iff)
  have "map (held_addr pool') hs = map (entry_addr pool) (map fst hs)" using run(10) by simp
  moreover have "set (map fst hs) \<subseteq> {i. i < max_clients pool'}" using run(9) by fastforce
  ultimately have d: "distinct (map (held_addr pool') hs)"
    using run(2) inj_on_subset[OF run(11)] by (metis distinct_map)
  have "ip_str (ip_entry pool' ! fst h) = dotted (held_addr pool' h)" if "h \<in> set hs" for h
    using ip_pool_okD(7)[OF run(1)] run(9)[OF that] by simp
  then have str: "\<forall>(e, c)\<in>set hs. ip_str (ip_entry pool' ! e) = dotted (held_addr pool' (e, c))" by auto
  have search: "ip_client_search (Some pool') a = map_of (map (\<lambda>h. (held_addr pool' h, snd h)) hs) a" for a
    by (rule search_held[OF run(1,4,2) d run(9)]) (use run(8,10) in simp_all)
  have "held_addr pool' ` set hs \<subseteq> subnet_hosts (t_ip tun) (t_mask tun)"
    using held_hosts(1)[OF assms] held_none(2)[OF assms] by (cases "t_mask tun = 0") auto
  then show ?thesis unfolding Let_def addr using d str search held_hosts(2)[OF assms] held_none[OF assms] by blast
qed

definition demo_tun :: "in_addr \<Rightarrow> in_addr \<Rightarrow> tun_iface" where
  "demo_tun ip m = \<lparr>tun_fd = 3, sts_flags = TUN_STATE_READY, ifname = ''tun0'', t_ip = ip, t_mask = m,
     t_prefix = 29, t_net = ip AND m, t_dns1 = 0, t_dns2 = 0, t_mtu = 1280,
     t_api = Some TUN_BACKEND_NETLINK_SERVER, priv_data = None\<rparr>"

theorem ip_pool_leases_witness:
  "\<exists>pool pool' hs. ip_pool_create True True (Some (demo_tun 0x0100000A 0xF8FFFFFF)) = Some pool \<and>
     lease_run acquire_for release_entry pool [Acquire 7, Acquire 8, Release 0, Acquire 9] = (pool', hs) \<and>
     hs = [(3, 8), (4, 9)] \<and>
     ip_client_search (Some pool') 0x0400000A = Some 9 \<and> ip_client_search (Some pool') 0x0200000A = None"
proof -
  let ?tun = "demo_tun 0x0100000A 0xF8FFFFFF"
  let ?ops = "[Acquire 7, Acquire 8, Release 0, Acquire 9]"
  have run_it: "case ip_pool_create True True (Some ?tun) of None \<Rightarrow> False
    | Some pool \<Rightarrow> (case lease_run acquire_for release_entry pool ?ops of (pool', hs) \<Rightarrow>
        hs = [(3, 8), (4, 9)] \<and> e_ip (ip_entry pool' ! 3) = 0x0300000A \<and> e_ip (ip_entry pool' ! 4) = 0x0400000A)"
    by code_simp
  then obtain pool where pool: "ip_pool_create True True (Some ?tun) = Some pool"
    by (cases "ip_pool_create True True (Some ?tun)") auto
  obtain pool' hs where run: "lease_run acquire_for release_entry pool ?ops = (pool', hs)"
    by (metis prod.exhaust)
  have hs: "hs = [(3, 8), (4, 9)]"
    and ips: "e_ip (ip_entry pool' ! 3) = 0x0300000A" "e_ip (ip_entry pool' ! 4) = 0x0400000A"
    using run_it pool run by auto
  have "ip_client_search (Some pool') a =
      map_of (map (\<lambda>h. ((\<lambda>(e, c). e_ip (ip_entry pool' ! e)) h, snd h)) hs) a" for a
    using ip_pool_leases[OF pool run] unfolding Let_def by blast
  then have "ip_client_search (Some pool') a = map_of [(0x0300000A, 8), (0x0400000A, 9)] a" for a
    unfolding hs by (simp add: ips)
  then have "ip_client_search (Some pool') 0x0400000A = Some 9 \<and> ip_client_search (Some pool') 0x0200000A = None"
    by simp
  then show ?thesis using pool run hs by blast
qed

text \<open>
  C31. Round robin. A request is answered with the first free entry in the order that starts at
  the cursor and wraps around at the end of the subnet, and the cursor moves behind it. So an
  address that was just released is the last one to be handed out again: the next request gets
  it only when no other address is free.
\<close>

lemma turn_order: "c < n \<Longrightarrow> map (\<lambda>j. (c + j) mod n) [0..<n] = [c..<n] @ [0..<c]" for n :: nat
  by (rule nth_equalityI) (auto simp: nth_append mod_if)

lemma find_last: "List.find P (xs @ [x]) = Some x \<Longrightarrow> x \<notin> set xs \<Longrightarrow> \<forall>y\<in>set xs. \<not> P y"
  by (induction xs) (auto split: if_splits)

lemma ip_acquire_order:
  assumes "0 < max_clients pool \<Longrightarrow> next_idx pool < max_clients pool"
  shows "snd (ip_acquire pool (Some c)) =
      List.find (\<lambda>i. \<not> used (ip_entry pool ! i)) (if max_clients pool = 0 then []
        else [next_idx pool..<max_clients pool] @ [0..<next_idx pool])"
  using assms turn_order[of "next_idx pool" "max_clients pool"]
  by (auto simp: ip_acquire_def ip_scan_find split: option.splits)



end
