(* ===== verification/Client_List.thy ===== *)
theory Client_List
  imports Mem_Pool Ip_Pool
begin

text \<open>
  The server's table of clients, \<^verbatim>\<open>server/src/engine/client.c\<close>. Client structures are
  blocks of the client pool, so a client is its payload address; what is stored there is a
  function of the address. The table is an array of client pointers with one slot per address of
  the tunnel's subnet. Every operation holds the lock of the list where the code does.
\<close>

section \<open>Data\<close>

record client_t =
  ConnectionHandle :: "nat option"
  c_uid :: u64
  slot_idx :: int
  c_entry :: "nat option"

text \<open>The part of \<^verbatim>\<open>session_t\<close> the client operations use.\<close>

record session_t =
  client_list :: "nat option list"
  client_mem :: "nat \<Rightarrow> client_t"
  client_pool :: nat
  s_mem :: pmem
  s_ips :: ip_pool_t
  client_cnt :: u64

definition upd_client :: "nat \<Rightarrow> (client_t \<Rightarrow> client_t) \<Rightarrow> session_t \<Rightarrow> session_t" where
  "upd_client c f s = s\<lparr>client_mem := (client_mem s)(c := f (client_mem s c))\<rparr>"

lemma upd_client_sel [simp]:
  "client_list (upd_client c f s) = client_list s" "client_mem (upd_client c f s) = (client_mem s)(c := f (client_mem s c))"
  "client_pool (upd_client c f s) = client_pool s" "s_mem (upd_client c f s) = s_mem s"
  "s_ips (upd_client c f s) = s_ips s" "client_cnt (upd_client c f s) = client_cnt s"
  by (simp_all add: upd_client_def)

section \<open>Operations\<close>

text \<open>The first free slot; when the pool has no block the search ends without a client.\<close>

definition list_add_client :: "pool_os \<Rightarrow> nat \<Rightarrow> session_t \<Rightarrow> session_t \<times> nat option cres" where
  "list_add_client os handle s =
     (case List.find (\<lambda>idx. client_list s ! idx = None) [0..<max_clients (s_ips s)] of
        None \<Rightarrow> (s, Ok None)
      | Some idx \<Rightarrow>
     (case pool_try_get os (Some (client_pool s)) (s_mem s) of
        (m, Ok client) \<Rightarrow>
          let s1 = upd_client client (\<lambda>c. c\<lparr>slot_idx := int idx, ConnectionHandle := Some handle, c_entry := None\<rparr>)
                     (s\<lparr>s_mem := m\<rparr>)
          in (s1\<lparr>client_list := (client_list s1)[idx := Some client]\<rparr>, Ok (Some client))
      | (m, Err e) \<Rightarrow> (s\<lparr>s_mem := m\<rparr>, Ok None)
      | (m, _) \<Rightarrow> (s\<lparr>s_mem := m\<rparr>, Abort)))"

definition initialize_client_state :: "nat \<Rightarrow> session_t \<Rightarrow> session_t \<times> int" where
  "initialize_client_state client s =
     (case ip_acquire (s_ips s) (Some client) of
        (ips, None) \<Rightarrow> (upd_client client (c_entry_update (\<lambda>_. None)) (s\<lparr>s_ips := ips\<rparr>), -1)
      | (ips, Some entry) \<Rightarrow>
          let s1 = upd_client client (\<lambda>c. c\<lparr>c_entry := Some entry, c_uid := client_cnt s\<rparr>) (s\<lparr>s_ips := ips\<rparr>)
          in (s1\<lparr>client_cnt := client_cnt s + 1\<rparr>, 0))"

definition restore_client_state :: "nat \<Rightarrow> u64 \<Rightarrow> session_t \<Rightarrow> session_t \<times> int" where
  "restore_client_state client uid s = (upd_client client (\<lambda>c. c\<lparr>c_uid := uid, c_entry := None\<rparr>) s, 0)"

text \<open>
  Removal, in the order of the code: the slot index is zeroed before it is used. The signal is
  the one \<^verbatim>\<open>pool_put\<close> sends.
\<close>

definition list_remove_client ::
  "mutex_os \<Rightarrow> int \<Rightarrow> session_t option \<Rightarrow> nat option \<Rightarrow> session_t option \<times> int cres" where
  "list_remove_client os signal_rc sp cp =
     (case sp of None \<Rightarrow> (sp, Ok (- EINVAL))
      | Some s \<Rightarrow>
     (case cp of None \<Rightarrow> (sp, Ok (- EINVAL))
      | Some client \<Rightarrow>
        if slot_idx (client_mem s client) < 0 \<or> int (max_clients (s_ips s)) < slot_idx (client_mem s client)
        then (sp, Ok (- ERANGE))
        else
          let s1 = upd_client client (\<lambda>c. c\<lparr>slot_idx := 0, c_uid := 0, c_entry := None\<rparr>) s;
              s2 = s1\<lparr>client_list := (client_list s1)[nat (slot_idx (client_mem s1 client)) := None]\<rparr>
          in (case pool_put os signal_rc (Some client) (s_mem s2) of
                (m, Ok _) \<Rightarrow> (Some (s2\<lparr>s_mem := m\<rparr>), Ok 0)
              | (m, _) \<Rightarrow> (Some (s2\<lparr>s_mem := m\<rparr>), Abort))))"

definition list_find_client_by_uid :: "session_t option \<Rightarrow> u64 \<Rightarrow> nat option" where
  "list_find_client_by_uid sp uid =
     (case sp of None \<Rightarrow> None
      | Some s \<Rightarrow>
        if uid = 0 then None
        else
          (case List.find (\<lambda>i. case client_list s ! i of None \<Rightarrow> False | Some c \<Rightarrow> c_uid (client_mem s c) = uid)
                  [0..<max_clients (s_ips s)] of
             None \<Rightarrow> None
           | Some i \<Rightarrow> client_list s ! i))"

section \<open>Well-formed tables\<close>

text \<open>One slot per address, and every id handed out so far below the counter.\<close>

definition clients_wf :: "session_t \<Rightarrow> bool" where
  "clients_wf s \<longleftrightarrow>
     length (client_list s) = max_clients (s_ips s) \<and> 0 < client_cnt s \<and>
     (\<forall>c. Some c \<in> set (client_list s) \<longrightarrow> c_uid (client_mem s c) < client_cnt s)"

text \<open>The connections of the server: each adds a client, may complete its handshake, and is
  removed when it shuts down.\<close>

datatype client_op = Connect pool_os nat | Handshake nat | Disconnect nat

fun client_do :: "client_op \<Rightarrow> session_t \<Rightarrow> session_t" where
  "client_do (Connect os h) s = fst (list_add_client os h s)"
| "client_do (Handshake c) s = fst (initialize_client_state c s)"
| "client_do (Disconnect c) s = the (fst (list_remove_client mutex_ok 0 (Some s) (Some c)))"

lemma list_add_client_list:
  assumes "list_add_client os h s = (s', r)"
  shows "s_ips s' = s_ips s \<and> client_cnt s' = client_cnt s \<and>
    (client_list s' = client_list s \<or>
     (\<exists>idx c. idx < max_clients (s_ips s) \<and> client_list s ! idx = None \<and> r = Ok (Some c) \<and>
        client_list s' = (client_list s)[idx := Some c]))"
  using assms by (auto simp: list_add_client_def Let_def find_Some_iff split: option.splits prod.splits cres.splits)

lemma list_add_client_Some:
  assumes "list_add_client os h s = (s', Ok (Some c))"
  obtains idx where "idx < max_clients (s_ips s)" "client_list s ! idx = None" "client_list s' = (client_list s)[idx := Some c]"
    "s_ips s' = s_ips s" "client_cnt s' = client_cnt s"
  using assms by (auto simp: list_add_client_def Let_def find_Some_iff split: option.splits prod.splits cres.splits)

lemma ip_acquire_max: "max_clients (fst (ip_acquire pool c)) = max_clients pool"
  by (auto simp: ip_acquire_def split: option.splits)

lemma initialize_client_list:
  "client_list (fst (initialize_client_state c s)) = client_list s \<and>
   max_clients (s_ips (fst (initialize_client_state c s))) = max_clients (s_ips s)"
  using ip_acquire_max[of "s_ips s" "Some c"]
  by (auto simp: initialize_client_state_def Let_def split: prod.splits option.splits)

lemma list_remove_client_list:
  "\<exists>s'. fst (list_remove_client os rc (Some s) (Some c)) = Some s' \<and> s_ips s' = s_ips s \<and>
     (client_list s' = client_list s \<or> client_list s' = (client_list s)[0 := None])"
  by (auto simp: list_remove_client_def Let_def split: prod.splits cres.splits)

section \<open>Properties\<close>

text \<open>The client found, if any, is listed under that id.\<close>

lemma list_find_Some:
  assumes "list_find_client_by_uid (Some s) uid = Some c" "length (client_list s) = max_clients (s_ips s)"
  shows "uid \<noteq> 0 \<and> Some c \<in> set (client_list s) \<and> c_uid (client_mem s c) = uid"
  using assms by (auto simp: list_find_client_by_uid_def find_Some_iff split: if_splits option.splits)
    (metis nth_mem)

lemma list_find_unique:
  assumes "length (client_list s) = max_clients (s_ips s)" "Some c \<in> set (client_list s)"
    and "c_uid (client_mem s c) = uid" "uid \<noteq> 0"
    and "\<And>d. Some d \<in> set (client_list s) \<Longrightarrow> c_uid (client_mem s d) = uid \<Longrightarrow> d = c"
  shows "list_find_client_by_uid (Some s) uid = Some c"
proof -
  let ?P = "\<lambda>i. case client_list s ! i of None \<Rightarrow> False | Some c \<Rightarrow> c_uid (client_mem s c) = uid"
  obtain i where i: "i < max_clients (s_ips s)" "client_list s ! i = Some c"
    using assms(1,2) by (auto simp: in_set_conv_nth)
  then have "List.find ?P [0..<max_clients (s_ips s)] \<noteq> None"
    using assms(3) by (auto simp: find_None_iff)
  then obtain j where j: "List.find ?P [0..<max_clients (s_ips s)] = Some j" by blast
  then have "j < max_clients (s_ips s)" "?P j" by (auto simp: find_Some_iff)
  then have "client_list s ! j = Some c"
    using assms(1,5) by (auto split: option.splits intro: nth_mem) (metis nth_mem)
  then show ?thesis using j assms(4) by (simp add: list_find_client_by_uid_def)
qed

text \<open>A client that has only connected has whatever id its memory held: the table without it.\<close>

definition others_wf :: "nat \<Rightarrow> session_t \<Rightarrow> bool" where
  "others_wf c s \<longleftrightarrow>
     length (client_list s) = max_clients (s_ips s) \<and> 0 < client_cnt s \<and>
     (\<forall>d. Some d \<in> set (client_list s) \<longrightarrow> d \<noteq> c \<longrightarrow> c_uid (client_mem s d) < client_cnt s)"

lemma others_wfI: "clients_wf s \<Longrightarrow> others_wf c s"
  by (simp add: clients_wf_def others_wf_def)

lemma handshake_found:
  assumes wf: "others_wf c s" and listed: "Some c \<in> set (client_list s)" and room: "client_cnt s + 1 \<noteq> 0"
    and init: "initialize_client_state c s = (s', 0)"
  obtains e ips where "ip_acquire (s_ips s) (Some c) = (ips, Some e)"
    "s' = (upd_client c (\<lambda>x. x\<lparr>c_entry := Some e, c_uid := client_cnt s\<rparr>) (s\<lparr>s_ips := ips\<rparr>))\<lparr>client_cnt := client_cnt s + 1\<rparr>"
    "max_clients ips = max_clients (s_ips s)" "list_find_client_by_uid (Some s') (client_cnt s) = Some c" "clients_wf s'"
proof -
  let ?n = "client_cnt s"
  obtain e ips where a: "ip_acquire (s_ips s) (Some c) = (ips, Some e)"
    and s': "s' = (upd_client c (\<lambda>x. x\<lparr>c_entry := Some e, c_uid := ?n\<rparr>) (s\<lparr>s_ips := ips\<rparr>))\<lparr>client_cnt := ?n + 1\<rparr>"
    using init by (auto simp: initialize_client_state_def Let_def split: prod.splits option.splits)
  have max: "max_clients ips = max_clients (s_ips s)" using ip_acquire_max[of "s_ips s" "Some c"] a by simp
  have len: "length (client_list s') = max_clients (s_ips s')" and n0: "?n \<noteq> 0"
    and below: "\<And>d. Some d \<in> set (client_list s) \<Longrightarrow> d \<noteq> c \<Longrightarrow> c_uid (client_mem s d) < ?n"
    using wf max by (auto simp: others_wf_def s')
  have lt: "?n < ?n + 1" using room unatSuc[of ?n] by (simp add: word_less_nat_alt add.commute)
  have found: "list_find_client_by_uid (Some s') ?n = Some c"
    using listed n0 by (intro list_find_unique[OF len]) (auto simp: s' split: if_splits dest: below)
  have "clients_wf s'"
    unfolding clients_wf_def using len lt n0 room
    by (auto simp: s' word_gt_0 intro: order.strict_trans[OF below lt])
  then show ?thesis using that a s' max found by blast
qed


definition demo_session :: session_t where
  "demo_session =
     \<lparr>client_list = Some 116 # replicate 7 None,
      client_mem = (\<lambda>_. \<lparr>ConnectionHandle = None, c_uid = 0, slot_idx = 0, c_entry = None\<rparr>),
      client_pool = 50,
      s_mem = \<lparr>m_pools = Map.empty, m_blocks = Map.empty\<rparr>,
      s_ips = the (ip_pool_create True True (Some (demo_tun 0x0100000A 0xF8FFFFFF))),
      client_cnt = 1\<rparr>"


text \<open>
  C35. Slots are not given back. Removing a client zeroes its slot index and then clears the slot
  of that index, so it always clears slot 0: a client in a later slot stays listed after its
  structure has gone back to the pool, and the client in slot 0, if there is one, is no longer
  found by its id. In every run of connects, handshakes and disconnects a slot other than the
  first keeps its pointer forever once it has one; when all of them are taken a new client can
  only ever be put in slot 0.
\<close>

lemma client_do_slot:
  assumes "0 < i" "client_list s ! i = Some c"
  shows "client_list (client_do op s) ! i = Some c"
proof (cases op)
  case (Connect os h)
  obtain s' r where a: "list_add_client os h s = (s', r)" by (metis prod.exhaust)
  from list_add_client_list[OF a] assms(2) show ?thesis
    by (auto simp: Connect a nth_list_update)
      (metis list_update_beyond not_le nth_list_update_neq option.distinct(1))+
next
  case (Handshake d)
  then show ?thesis using initialize_client_list[of d s] assms(2) by simp
next
  case (Disconnect d)
  then show ?thesis using list_remove_client_list[of mutex_ok 0 s d] assms by auto
qed

lemma client_run_slot:
  "0 < i \<Longrightarrow> client_list s ! i = Some c \<Longrightarrow> client_list (fold client_do ops s) ! i = Some c"
  by (induction ops arbitrary: s) (auto simp: client_do_slot)



end
