(* ===== verification/Quic_Stream.thy ===== *)
theory Quic_Stream
  imports Pkt_Ctrl
begin

text \<open>
  Frames out of a byte stream: the RECEIVE event of the stream callbacks of
  \<^verbatim>\<open>server/src/engine/quic.c\<close> and \<^verbatim>\<open>client/src/engine/quic.c\<close>. The
  transport hands over the bytes in a list of buffers of any sizes; the loop copies one frame
  after the other out of them and reports how many bytes it took. What is done with a frame is an
  argument of the loops.
\<close>

section \<open>Copying out of a list of buffers\<close>

text \<open>
  The loop of \<^verbatim>\<open>copy_quic_buffers\<close>; the first argument holds the bytes copied so
  far. Buffer lengths are 32-bit, and the cast of the offset loses nothing as it is below the
  length of the buffer.
\<close>

fun copy_loop :: "bytes \<Rightarrow> bytes list \<Rightarrow> nat \<Rightarrow> nat \<Rightarrow> bytes" where
  "copy_loop copied [] offset to_copy = copied"
| "copy_loop copied (b # bs) offset to_copy =
     (if to_copy \<le> length copied then copied
      else if length b \<le> offset then copy_loop copied bs (offset - length b) to_copy
      else
        let chunk = (if to_copy - length copied < length b - offset then to_copy - length copied
                     else length b - offset)
        in copy_loop (copied @ take chunk (drop offset b)) bs 0 to_copy)"

definition copy_quic_buffers :: "bytes list \<Rightarrow> nat \<Rightarrow> nat \<Rightarrow> bytes" where
  "copy_quic_buffers bufs offset to_copy = copy_loop [] bufs offset to_copy"

text \<open>The reference: a slice of the concatenation.\<close>

lemma copy_loop_slice:
  "length copied \<le> to_copy \<Longrightarrow>
   copy_loop copied bufs offset to_copy = copied @ take (to_copy - length copied) (drop offset (concat bufs))"
proof (induction copied bufs offset to_copy rule: copy_loop.induct)
  case (1 copied offset to_copy)
  then show ?case by simp
next
  case (2 copied b bs offset to_copy)
  show ?case
  proof (cases "to_copy \<le> length copied")
    case True
    then show ?thesis using 2(3) by simp
  next
    case short: False
    show ?thesis
    proof (cases "length b \<le> offset")
      case True
      then show ?thesis using 2(1)[OF short True 2(3)] short by simp
    next
      case False
      define chunk where "chunk = (if to_copy - length copied < length b - offset then to_copy - length copied
                     else length b - offset)"
      have le: "length (copied @ take chunk (drop offset b)) \<le> to_copy" using short by (auto simp: chunk_def)
      have "copy_loop copied (b # bs) offset to_copy =
          (copied @ take chunk (drop offset b)) @
            take (to_copy - length (copied @ take chunk (drop offset b))) (drop 0 (concat bs))"
        using 2(2)[OF short False chunk_def le] short False by (simp add: chunk_def Let_def)
      then show ?thesis using short False by (auto simp: chunk_def)
    qed
  qed
qed

lemma copy_quic_buffers_slice: "copy_quic_buffers bufs offset n = take n (drop offset (concat bufs))"
  by (simp add: copy_quic_buffers_def copy_loop_slice)

section \<open>The receive loops\<close>

text \<open>The frame copied over a zeroed structure.\<close>

definition frame_at :: "bytes list \<Rightarrow> nat \<Rightarrow> pkt_ctrl_t" where
  "frame_at bufs consumed = pkt_of_bytes (zero_pad PKTCTRLSIZ (copy_quic_buffers bufs consumed PKTCTRLSIZ))"

text \<open>The server goes through all whole frames, whatever becomes of each.\<close>

function server_recv_loop ::
  "(pkt_ctrl_t \<Rightarrow> 's \<Rightarrow> 's) \<Rightarrow> bytes list \<Rightarrow> nat \<Rightarrow> nat \<Rightarrow> 's \<Rightarrow> 's \<times> nat" where
  "server_recv_loop handle bufs total_bytes consumed s =
     (if PKTCTRLSIZ \<le> total_bytes - consumed
      then server_recv_loop handle bufs total_bytes (consumed + PKTCTRLSIZ) (handle (frame_at bufs consumed) s)
      else (s, consumed))"
  by pat_completeness auto
termination by (relation "measure (\<lambda>(_, _, total_bytes, consumed, _). total_bytes - consumed)") auto

declare server_recv_loop.simps [simp del]

text \<open>The client stops at a frame it could not act on: the event is aborted.\<close>

datatype quic_status = QUIC_STATUS_SUCCESS | QUIC_STATUS_PROTOCOL_ERROR | QUIC_STATUS_ABORTED
  | QUIC_STATUS_OUT_OF_MEMORY | QUIC_STATUS_CONNECTION_REFUSED
  | QUIC_STATUS_PENDING | QUIC_STATUS_CONTINUE | QUIC_STATUS_OTHER nat

text \<open>On Linux the statuses above zero are the failures; pending and continue are negative. The last
  constructor stands for the other failures.\<close>

fun quic_failed :: "quic_status \<Rightarrow> bool" where
  "quic_failed st \<longleftrightarrow> st \<notin> {QUIC_STATUS_SUCCESS, QUIC_STATUS_PENDING, QUIC_STATUS_CONTINUE}"

function client_recv_loop ::
  "(pkt_ctrl_t \<Rightarrow> 's \<Rightarrow> 's \<times> int) \<Rightarrow> bytes list \<Rightarrow> nat \<Rightarrow> nat \<Rightarrow> 's \<Rightarrow> 's \<times> nat option" where
  "client_recv_loop handle bufs total_bytes consumed s =
     (if PKTCTRLSIZ \<le> total_bytes - consumed
      then case handle (frame_at bufs consumed) s of (s', rc) \<Rightarrow>
             if rc \<noteq> 0 then (s', None)
             else client_recv_loop handle bufs total_bytes (consumed + PKTCTRLSIZ) s'
      else (s, Some consumed))"
  by pat_completeness auto
termination by (relation "measure (\<lambda>(_, _, total_bytes, consumed, _). total_bytes - consumed)") auto

declare client_recv_loop.simps [simp del]

text \<open>The handlers of the event: the new value of \<^verbatim>\<open>TotalBufferLength\<close> and the status.
  An aborted event leaves the length as it was.\<close>

definition server_stream_receive ::
  "(pkt_ctrl_t \<Rightarrow> 's \<Rightarrow> 's) \<Rightarrow> bytes list \<Rightarrow> nat \<Rightarrow> 's \<Rightarrow> 's \<times> nat \<times> quic_status" where
  "server_stream_receive handle bufs total_bytes s =
     (case server_recv_loop handle bufs total_bytes 0 s of (s', consumed) \<Rightarrow> (s', consumed, QUIC_STATUS_SUCCESS))"

definition client_stream_receive ::
  "(pkt_ctrl_t \<Rightarrow> 's \<Rightarrow> 's \<times> int) \<Rightarrow> bytes list \<Rightarrow> nat \<Rightarrow> 's \<Rightarrow> 's \<times> nat \<times> quic_status" where
  "client_stream_receive handle bufs total_bytes s =
     (if total_bytes = 0 then (s, total_bytes, QUIC_STATUS_PROTOCOL_ERROR)
      else case client_recv_loop handle bufs total_bytes 0 s of
             (s', None) \<Rightarrow> (s', total_bytes, QUIC_STATUS_ABORTED)
           | (s', Some consumed) \<Rightarrow> (s', consumed, QUIC_STATUS_SUCCESS))"

text \<open>What the handler of frames keeps, receiving keeps.\<close>

lemma client_recv_loop_keeps:
  assumes "\<And>p s. P s \<Longrightarrow> P (fst (handle p s))" "P s"
  shows "P (fst (client_recv_loop handle bufs n k s))"
  using assms
proof (induction handle bufs n k s rule: client_recv_loop.induct)
  case (1 handle bufs n k s)
  obtain s' rc where h: "handle (frame_at bufs k) s = (s', rc)" by (metis prod.exhaust)
  then have "P s'" using "1.prems"(1)[OF "1.prems"(2), of "frame_at bufs k"] by simp
  then show ?case using 1 h by (subst client_recv_loop.simps) auto
qed

lemma client_stream_receive_keeps:
  assumes "\<And>p s. P s \<Longrightarrow> P (fst (handle p s))" "P s"
  shows "P (fst (client_stream_receive handle bufs n s))"
  using client_recv_loop_keeps[of P handle s bufs n 0] assms
  by (auto simp: client_stream_receive_def split: prod.splits option.splits)

section \<open>Frames of a stream\<close>

text \<open>The reference: cut the bytes at multiples of the frame size.\<close>

function frames :: "bytes \<Rightarrow> pkt_ctrl_t list" where
  "frames bs = (if PKTCTRLSIZ \<le> length bs then pkt_of_bytes (take PKTCTRLSIZ bs) # frames (drop PKTCTRLSIZ bs) else [])"
  by pat_completeness auto
termination by (relation "measure length") auto

declare frames.simps [simp del]

definition whole :: "bytes \<Rightarrow> nat" where
  "whole bs = PKTCTRLSIZ * (length bs div PKTCTRLSIZ)"

lemma frames_short: "length bs < PKTCTRLSIZ \<Longrightarrow> frames bs = [] \<and> whole bs = 0"
  by (subst frames.simps) (simp add: whole_def)

lemma frames_long:
  "PKTCTRLSIZ \<le> length bs \<Longrightarrow>
   frames bs = pkt_of_bytes (take PKTCTRLSIZ bs) # frames (drop PKTCTRLSIZ bs) \<and>
   whole bs = PKTCTRLSIZ + whole (drop PKTCTRLSIZ bs)"
proof -
  assume le: "PKTCTRLSIZ \<le> length bs"
  then have "length bs div PKTCTRLSIZ = Suc ((length bs - PKTCTRLSIZ) div PKTCTRLSIZ)" by (simp add: le_div_geq)
  then have "whole bs = PKTCTRLSIZ + whole (drop PKTCTRLSIZ bs)" by (simp add: whole_def)
  then show ?thesis using le by (subst frames.simps) simp
qed

lemma whole_le: "whole bs \<le> length bs"
  by (simp add: whole_def)

text \<open>Framing does not depend on where the stream is cut, as long as the rest is kept.\<close>

lemma frames_append:
  "frames (xs @ ys) = frames xs @ frames (drop (whole xs) xs @ ys)" 
  "drop (whole (xs @ ys)) (xs @ ys) =
     drop (whole (drop (whole xs) xs @ ys)) (drop (whole xs) xs @ ys)"
proof (induction xs rule: frames.induct)
  case (1 xs)
  {
    case 1
    then show ?case
    proof (cases "PKTCTRLSIZ \<le> length xs")
      case True
      then show ?thesis using frames_long[of xs] frames_long[of "xs @ ys"] "1.IH"(1)[OF True]
        by (simp add: add.commute)
    qed (simp add: frames_short)
  next
    case 2
    then show ?case
    proof (cases "PKTCTRLSIZ \<le> length xs")
      case True
      then have cut: "drop PKTCTRLSIZ xs @ ys = drop PKTCTRLSIZ (xs @ ys)" by simp
      have "whole (xs @ ys) = PKTCTRLSIZ + whole (drop PKTCTRLSIZ xs @ ys)"
        using True frames_long[of "xs @ ys"] by simp
      then have "drop (whole (xs @ ys)) (xs @ ys) =
          drop (whole (drop PKTCTRLSIZ xs @ ys)) (drop PKTCTRLSIZ xs @ ys)"
        unfolding cut drop_drop by (simp only: add.commute)
      then show ?thesis using frames_long[of xs] "1.IH"(2)[OF True] True by (simp add: add.commute)
    qed (simp add: frames_short)
  }
qed

lemma frame_at_take:
  "PKTCTRLSIZ \<le> length (concat bufs) - consumed \<Longrightarrow>
   frame_at bufs consumed = pkt_of_bytes (take PKTCTRLSIZ (drop consumed (concat bufs)))"
  by (simp add: frame_at_def copy_quic_buffers_slice zero_pad_def)

lemma server_recv_loop_frames:
  assumes "total_bytes = length (concat bufs)" "consumed \<le> total_bytes"
  shows "server_recv_loop handle bufs total_bytes consumed s =
    (fold handle (frames (drop consumed (concat bufs))) s, consumed + whole (drop consumed (concat bufs)))"
  using assms
proof (induction handle bufs total_bytes consumed s rule: server_recv_loop.induct)
  case (1 handle bufs total_bytes consumed s)
  let ?rest = "drop consumed (concat bufs)"
  show ?case
  proof (cases "PKTCTRLSIZ \<le> total_bytes - consumed")
    case True
    then have "PKTCTRLSIZ \<le> length ?rest" using "1.prems"(1) by simp
    note long = frames_long[OF this]
    have "consumed + PKTCTRLSIZ \<le> total_bytes" using True "1.prems"(2) by simp
    from "1.IH"[OF True "1.prems"(1) this] show ?thesis
      using True long frame_at_take[of bufs consumed] "1.prems"(1)
      by (subst server_recv_loop.simps) (simp add: add.commute add.assoc)
  next
    case False
    then show ?thesis using frames_short[of ?rest] "1.prems"(1)
      by (subst server_recv_loop.simps) simp
  qed
qed

text \<open>The client's frames up to the first failure.\<close>

fun until_failure :: "(pkt_ctrl_t \<Rightarrow> 's \<Rightarrow> 's \<times> int) \<Rightarrow> pkt_ctrl_t list \<Rightarrow> 's \<Rightarrow> 's \<times> bool" where
  "until_failure handle [] s = (s, True)"
| "until_failure handle (p # ps) s =
     (case handle p s of (s', rc) \<Rightarrow> if rc \<noteq> 0 then (s', False) else until_failure handle ps s')"

lemma client_recv_loop_frames:
  assumes "total_bytes = length (concat bufs)" "consumed \<le> total_bytes"
  shows "client_recv_loop handle bufs total_bytes consumed s =
    (case until_failure handle (frames (drop consumed (concat bufs))) s of
       (s', ok) \<Rightarrow> (s', if ok then Some (consumed + whole (drop consumed (concat bufs))) else None))"
  using assms
proof (induction handle bufs total_bytes consumed s rule: client_recv_loop.induct)
  case (1 handle bufs total_bytes consumed s)
  let ?rest = "drop consumed (concat bufs)"
  show ?case
  proof (cases "PKTCTRLSIZ \<le> total_bytes - consumed")
    case True
    then have "PKTCTRLSIZ \<le> length ?rest" using "1.prems"(1) by simp
    note long = frames_long[OF this]
    have le: "consumed + PKTCTRLSIZ \<le> total_bytes" using True "1.prems"(2) by simp
    obtain s' rc where h: "handle (frame_at bufs consumed) s = (s', rc)" by (metis prod.exhaust)
    show ?thesis
    proof (cases "rc = 0")
      case True
      note ok = this
      have "client_recv_loop handle bufs total_bytes (consumed + PKTCTRLSIZ) s' =
          (case until_failure handle (frames (drop (consumed + PKTCTRLSIZ) (concat bufs))) s' of
             (s', ok) \<Rightarrow> (s', if ok then Some (consumed + PKTCTRLSIZ + whole (drop (consumed + PKTCTRLSIZ) (concat bufs)))
                              else None))"
        using "1.IH"[OF \<open>PKTCTRLSIZ \<le> total_bytes - consumed\<close> h[symmetric]] ok "1.prems"(1) le by simp
      then show ?thesis
        using \<open>PKTCTRLSIZ \<le> total_bytes - consumed\<close> long[THEN conjunct1] long[THEN conjunct2] h ok
          frame_at_take[of bufs consumed] "1.prems"(1)
        by (subst client_recv_loop.simps) (simp add: add.commute split: prod.split)
    next
      case False
      then show ?thesis
        using True long h frame_at_take[of bufs consumed] "1.prems"(1) by (subst client_recv_loop.simps) simp
    qed
  next
    case False
    then show ?thesis using frames_short[of ?rest] "1.prems"(1)
      by (subst client_recv_loop.simps) simp
  qed
qed

section \<open>A stream of events\<close>

text \<open>
  What the transport does: it keeps the bytes that were not taken, puts newly arrived ones behind
  them, and presents them again cut into buffers in some way. Whether it goes on presenting after
  an event in which not everything was taken is up to the transport, the parameter
  \<^term>\<open>resume\<close>: MsQuic suspends a stream whose handler took only a part and answered with
  success, until the application enables it again or unless it answered with the status to
  continue.
\<close>

type_synonym arrival = "bytes \<times> (bytes \<Rightarrow> bytes list)"

definition cuts_ok :: "arrival list \<Rightarrow> bool" where
  "cuts_ok evs \<longleftrightarrow> (\<forall>(seg, chop) \<in> set evs. \<forall>bs. concat (chop bs) = bs)"

fun server_stream_run ::
  "bool \<Rightarrow> (pkt_ctrl_t \<Rightarrow> 's \<Rightarrow> 's) \<Rightarrow> arrival list \<Rightarrow> bytes \<Rightarrow> 's \<Rightarrow> 's \<times> bytes" where
  "server_stream_run resume handle [] pending s = (s, pending)"
| "server_stream_run resume handle ((seg, chop) # evs) pending s =
     (let data = pending @ seg in
      case server_stream_receive handle (chop data) (length data) s of (s', consumed, _) \<Rightarrow>
        if consumed < length data \<and> \<not> resume then (s', drop consumed data @ concat (map fst evs))
        else server_stream_run resume handle evs (drop consumed data) s')"

lemma cuts_ok_Cons [simp]: "cuts_ok ((seg, chop) # evs) \<longleftrightarrow> (\<forall>bs. concat (chop bs) = bs) \<and> cuts_ok evs"
  by (simp add: cuts_ok_def)

lemma server_stream_receive_frames:
  "concat bufs = data \<Longrightarrow>
   server_stream_receive handle bufs (length data) s = (fold handle (frames data) s, whole data, QUIC_STATUS_SUCCESS)"
  using server_recv_loop_frames[of "length data" bufs 0 handle s] by (simp add: server_stream_receive_def)

text \<open>A stream that goes on: only the bytes matter.\<close>

lemma server_stream_run_resume:
  assumes "cuts_ok evs" "evs \<noteq> [] \<or> length pending < PKTCTRLSIZ"
    and "bs = pending @ concat (map fst evs)"
  shows "server_stream_run True handle evs pending s = (fold handle (frames bs) s, drop (whole bs) bs)"
  using assms
proof (induction evs arbitrary: pending s bs)
  case Nil
  then show ?case using frames_short[of pending] by simp
next
  case (Cons ev evs)
  obtain seg chop where ev: "ev = (seg, chop)" by (cases ev)
  let ?data = "pending @ seg"
  have chop: "concat (chop ?data) = ?data" "cuts_ok evs" using Cons.prems(1) by (auto simp: ev)
  have short: "length (drop (whole ?data) ?data) < PKTCTRLSIZ"
    by (simp add: whole_def minus_mult_div_eq_mod)
  have "server_stream_run True handle (ev # evs) pending s =
      server_stream_run True handle evs (drop (whole ?data) ?data) (fold handle (frames ?data) s)"
    using server_stream_receive_frames[OF chop(1), of handle s] by (simp add: ev Let_def)
  also have "\<dots> = (fold handle (frames (drop (whole ?data) ?data @ concat (map fst evs))) (fold handle (frames ?data) s),
      let r = drop (whole ?data) ?data @ concat (map fst evs) in drop (whole r) r)"
    using Cons.IH[OF chop(2) disjI2[OF short] refl] by (simp add: Let_def)
  finally show ?case
    using frames_append[of ?data "concat (map fst evs)"] Cons.prems(3) by (simp add: ev Let_def)
qed

text \<open>A stream that is suspended: an event with a rest is the last one.\<close>

lemma server_stream_run_whole:
  assumes "cuts_ok evs" "\<forall>(seg, chop) \<in> set evs. length seg mod PKTCTRLSIZ = 0"
  shows "server_stream_run resume handle evs [] s = (fold handle (frames (concat (map fst evs))) s, [])"
  using assms
proof (induction evs arbitrary: s)
  case Nil
  then show ?case using frames_short[of "[]"] by simp
next
  case (Cons ev evs)
  obtain seg chop where ev: "ev = (seg, chop)" by (cases ev)
  have chop: "concat (chop seg) = seg" "cuts_ok evs" "whole seg = length seg"
    using Cons.prems by (auto simp: ev whole_def minus_mod_eq_mult_div[symmetric])
  then show ?case
    using server_stream_receive_frames[OF chop(1), of handle s] Cons.IH Cons.prems(2)
      frames_append[of seg "concat (map fst evs)"] by (simp add: ev Let_def)
qed

text \<open>One event of the client.\<close>

lemma frames_single: "length bs = PKTCTRLSIZ \<Longrightarrow> frames bs = [pkt_of_bytes bs] \<and> whole bs = PKTCTRLSIZ"
  using frames_long[of bs] frames_short[of "drop PKTCTRLSIZ bs"] by simp

lemma client_stream_receive_frames:
  assumes "concat bufs = data" "data \<noteq> []"
  shows "client_stream_receive handle bufs (length data) s =
    (case until_failure handle (frames data) s of
       (s', ok) \<Rightarrow> if ok then (s', whole data, QUIC_STATUS_SUCCESS) else (s', length data, QUIC_STATUS_ABORTED))"
  using client_recv_loop_frames[of "length data" bufs 0 handle s] assms
  by (simp add: client_stream_receive_def split: prod.split)

section \<open>Properties\<close>


lemma fold_count: "fold (\<lambda>_. Suc) xs n = n + length xs"
  by (induction xs arbitrary: n) auto


end
