(* ===== verification/Data_Path.thy ===== *)
theory Data_Path
  imports Mem_Pool Pkt_Data Client_List Quic_Stream "HOL-Library.Multiset"
begin

text \<open>
  The data path: packets between the transport and the tunnel device. Datagrams that arrive are
  copied into blocks of a pool and queued by the connection callbacks
  (\<^verbatim>\<open>server/src/engine/quic.c\<close>, \<^verbatim>\<open>client/src/engine/quic.c\<close>),
  and one thread takes them off the queue, writes them to the device and returns the blocks; a
  second thread reads the device and hands the packets to the transport, which gives each block
  back through an event (\<^verbatim>\<open>threads.c\<close> of both programs).
  Pool and queue are those of \<^verbatim>\<open>Mem_Pool\<close> and
  \<^verbatim>\<open>Blocking_Queue\<close>; a packet buffer is the payload address of its block. What the
  system calls and the transport answer are arguments.
\<close>

section \<open>State\<close>

text \<open>\<^verbatim>\<open>buf.Buffer\<close> points into a packet buffer: it is the address of that buffer.\<close>

record pkt_data_t =
  buf_Buffer :: "nat option"
  buf_Length :: u32
  pd_data :: bytes

record dpath =
  d_mem :: pmem
  d_queue :: "nat queue_t"
  d_pkt :: "nat \<Rightarrow> pkt_data_t"
  d_writes :: "(bytes \<times> bool) list"

section \<open>Receiving a datagram\<close>

definition datagram_store :: "nat \<Rightarrow> bytes \<Rightarrow> dpath \<Rightarrow> dpath" where
  "datagram_store pkt dgram s =
     s\<lparr>d_pkt := (d_pkt s)(pkt := \<lparr>buf_Buffer = Some pkt, buf_Length = of_nat (length dgram),
                                  pd_data = dgram @ drop (length dgram) (pd_data (d_pkt s pkt))\<rparr>)\<rparr>"

text \<open>The copy has no length check: a datagram longer than the buffer runs over it.\<close>

definition datagram_get :: "pool_os \<Rightarrow> nat \<Rightarrow> bytes \<Rightarrow> dpath \<Rightarrow> dpath \<times> nat option cres" where
  "datagram_get os pid dgram s =
     (case pool_try_get os (Some pid) (d_mem s) of
        (m, Ok pkt) \<Rightarrow>
          if DATAPKTBUF < length dgram then (s\<lparr>d_mem := m\<rparr>, Abort)
          else (datagram_store pkt dgram (s\<lparr>d_mem := m\<rparr>), Ok (Some pkt))
      | (m, Err e) \<Rightarrow> (s\<lparr>d_mem := m\<rparr>, Ok None)
      | (m, _) \<Rightarrow> (s\<lparr>d_mem := m\<rparr>, Abort))"

definition datagram_push :: "mutex_os \<Rightarrow> nat \<Rightarrow> dpath \<Rightarrow> dpath \<times> int cres" where
  "datagram_push mos pkt s =
     (case queue_try_push mos (Some (d_queue s)) (Some pkt) of
        (None, r) \<Rightarrow> (s, r)
      | (Some q, r) \<Rightarrow> (s\<lparr>d_queue := q\<rparr>, r))"

text \<open>The whole event; the result of the push is not looked at.\<close>

definition server_datagram_received ::
  "pool_os \<Rightarrow> mutex_os \<Rightarrow> nat \<Rightarrow> bytes \<Rightarrow> dpath \<Rightarrow> dpath \<times> quic_status cres" where
  "server_datagram_received os mos pid dgram s =
     (if length dgram = 0 then (s, Ok QUIC_STATUS_SUCCESS)
      else case datagram_get os pid dgram s of
        (s1, Ok None) \<Rightarrow> (s1, Ok QUIC_STATUS_SUCCESS)
      | (s1, Ok (Some pkt)) \<Rightarrow>
          (case datagram_push mos pkt s1 of
             (s2, Abort) \<Rightarrow> (s2, Abort)
           | (s2, _) \<Rightarrow> (s2, Ok QUIC_STATUS_SUCCESS))
      | (s1, _) \<Rightarrow> (s1, Abort))"

definition client_datagram_received ::
  "pool_os \<Rightarrow> mutex_os \<Rightarrow> nat \<Rightarrow> bytes option \<Rightarrow> dpath \<Rightarrow> dpath \<times> quic_status cres" where
  "client_datagram_received os mos pid buffer s =
     (case buffer of None \<Rightarrow> (s, Ok QUIC_STATUS_SUCCESS)
      | Some dgram \<Rightarrow>
        if length dgram = 0 then (s, Ok QUIC_STATUS_SUCCESS)
        else case datagram_get os pid dgram s of
          (s1, Ok None) \<Rightarrow> (s1, Ok QUIC_STATUS_SUCCESS)
        | (s1, Ok (Some pkt)) \<Rightarrow>
            (case datagram_push mos pkt s1 of
               (s2, Abort) \<Rightarrow> (s2, Abort)
             | (s2, _) \<Rightarrow> (s2, Ok QUIC_STATUS_SUCCESS))
        | (s1, _) \<Rightarrow> (s1, Abort))"

section \<open>Writing to the device\<close>

definition d_put :: "nat \<Rightarrow> dpath \<Rightarrow> dpath \<times> unit cres" where
  "d_put pkt s = (case pool_put mutex_ok 0 (Some pkt) (d_mem s) of (m, r) \<Rightarrow> (s\<lparr>d_mem := m\<rparr>, r))"

text \<open>
  What the receive threads do with a packet: check its header, trace it, write it, put it back. The
  flag is the outcome of \<^verbatim>\<open>write\<close>; the system call reads as many bytes as the length
  says. The server traces a packet only when its source is a client's.
\<close>

definition recv_finish :: "bool \<Rightarrow> (in_addr \<Rightarrow> bool) \<Rightarrow> nat \<Rightarrow> dpath \<Rightarrow> dpath \<times> unit cres" where
  "recv_finish write_ok traced pkt s =
     (case buf_Buffer (d_pkt s pkt) of None \<Rightarrow> (s, Abort)
      | Some a \<Rightarrow>
        let buf = pd_data (d_pkt s a); len = unat (buf_Length (d_pkt s pkt)) in
     (case pkt_data_iphdr (Some buf) (int len) True of
        Ok (src, dest) \<Rightarrow>
          if traced src \<and> pkt_data_print (Some buf) len = Abort then (s, Abort)
          else if length buf < len then (s, Abort)
          else d_put pkt (s\<lparr>d_writes := d_writes s @ [(take len buf, write_ok)]\<rparr>)
      | Err e \<Rightarrow> d_put pkt s
      | _ \<Rightarrow> (s, Abort)))"

datatype loop_next = Continue | Leave

text \<open>One pass of the loop of \<^verbatim>\<open>thread_pkt_data_recv\<close>: a null pointer ends it, be it
  the sentinel or a failed wait.\<close>

definition recv_take :: "mutex_os \<Rightarrow> bool \<Rightarrow> dpath \<Rightarrow> dpath \<times> nat option cres" where
  "recv_take mos intr s =
     (case queue_wait_pop mos intr (Some (d_queue s)) of
        (qp, r) \<Rightarrow>
          (case qp of None \<Rightarrow> s | Some q \<Rightarrow> s\<lparr>d_queue := q\<rparr>,
           case r of Err e \<Rightarrow> Ok None | _ \<Rightarrow> r))"

definition recv_iter ::
  "mutex_os \<Rightarrow> bool \<Rightarrow> bool \<Rightarrow> (in_addr \<Rightarrow> bool) \<Rightarrow> dpath \<Rightarrow> dpath \<times> loop_next cres" where
  "recv_iter mos intr write_ok traced s =
     (case recv_take mos intr s of
        (s1, Ok None) \<Rightarrow> (s1, Ok Leave)
      | (s1, Ok (Some pkt)) \<Rightarrow>
          (case recv_finish write_ok traced pkt s1 of
             (s2, Ok _) \<Rightarrow> (s2, Ok Continue)
           | (s2, _) \<Rightarrow> (s2, Abort))
      | (s1, Block) \<Rightarrow> (s1, Block)
      | (s1, _) \<Rightarrow> (s1, Abort))"

definition server_recv_iter ::
  "mutex_os \<Rightarrow> bool \<Rightarrow> bool \<Rightarrow> ip_pool_t \<Rightarrow> dpath \<Rightarrow> dpath \<times> loop_next cres" where
  "server_recv_iter mos intr write_ok ips s =
     recv_iter mos intr write_ok (\<lambda>src. ip_client_search (Some ips) src \<noteq> None) s"

definition client_recv_iter :: "mutex_os \<Rightarrow> bool \<Rightarrow> bool \<Rightarrow> dpath \<Rightarrow> dpath \<times> loop_next cres" where
  "client_recv_iter mos intr write_ok s = recv_iter mos intr write_ok (\<lambda>src. True) s"

section \<open>Callbacks and the thread, interleaved\<close>

text \<open>
  Any number of callbacks, one per connection, run beside the thread that empties the queue. The
  system keeps which blocks the callbacks are about to push (with their datagrams), which one the
  thread holds, which ones a full queue refused, and the datagrams the queue has accepted, in order.
\<close>

record rsys =
  r_d :: dpath
  r_fill :: "(nat \<times> bytes) list"
  r_cur :: "nat option"
  r_lost :: "nat list"
  r_acc :: "bytes list"

inductive rstep :: "nat \<Rightarrow> rsys \<Rightarrow> rsys \<Rightarrow> bool" for pid where
  rs_get: "dgram \<noteq> [] \<Longrightarrow> pool_env_ok pid os (d_mem (r_d s)) \<Longrightarrow>
     datagram_get os pid dgram (r_d s) = (d, Ok (Some pkt)) \<Longrightarrow>
     rstep pid s (s\<lparr>r_d := d, r_fill := (pkt, dgram) # r_fill s\<rparr>)"
| rs_drop: "pool_env_ok pid os (d_mem (r_d s)) \<Longrightarrow> datagram_get os pid dgram (r_d s) = (d, Ok None) \<Longrightarrow>
     rstep pid s (s\<lparr>r_d := d\<rparr>)"
| rs_push: "r_fill s = xs @ (pkt, dgram) # ys \<Longrightarrow> datagram_push mutex_ok pkt (r_d s) = (d, Ok rc) \<Longrightarrow>
     rstep pid s (s\<lparr>r_d := d, r_fill := xs @ ys, r_acc := r_acc s @ [dgram]\<rparr>)"
| rs_full: "r_fill s = xs @ (pkt, dgram) # ys \<Longrightarrow> datagram_push mutex_ok pkt (r_d s) = (d, Err e) \<Longrightarrow>
     rstep pid s (s\<lparr>r_d := d, r_fill := xs @ ys, r_lost := pkt # r_lost s\<rparr>)"
| rs_take: "r_cur s = None \<Longrightarrow> recv_take mutex_ok False (r_d s) = (d, Ok (Some pkt)) \<Longrightarrow>
     rstep pid s (s\<lparr>r_d := d, r_cur := Some pkt\<rparr>)"
| rs_finish: "r_cur s = Some pkt \<Longrightarrow> recv_finish write_ok traced pkt (r_d s) = (d, Ok ()) \<Longrightarrow>
     rstep pid s (s\<lparr>r_d := d, r_cur := None\<rparr>)"

inductive rreach :: "nat \<Rightarrow> rsys \<Rightarrow> bool" for pid where
  rr_start: "pool_init (Some pid) 0 0 bs cap m0 = (m, Ok pid) \<Longrightarrow> cap \<le> SIZE_MAX \<Longrightarrow>
     queue_init qos n = Ok q \<Longrightarrow> (\<And>v. length (pd_data (pkts v)) = DATAPKTBUF) \<Longrightarrow>
     rreach pid \<lparr>r_d = \<lparr>d_mem = m, d_queue = q, d_pkt = pkts, d_writes = []\<rparr>, r_fill = [], r_cur = None,
                 r_lost = [], r_acc = []\<rparr>"
| rr_next: "rreach pid s \<Longrightarrow> rstep pid s t \<Longrightarrow> rreach pid t"

text \<open>Who owns which block, and what a block holds.\<close>

definition queued :: "dpath \<Rightarrow> nat list" where
  "queued d = map the (queue_items (d_queue d))"

definition r_next :: "rsys \<Rightarrow> nat list" where
  "r_next s = (case r_cur s of None \<Rightarrow> [] | Some pkt \<Rightarrow> [pkt]) @ queued (r_d s)"

definition r_blocks :: "rsys \<Rightarrow> nat list" where
  "r_blocks s = map fst (r_fill s) @ r_next s @ r_lost s"

definition contains :: "dpath \<Rightarrow> nat \<Rightarrow> bytes \<Rightarrow> bool" where
  "contains d pkt dgram \<longleftrightarrow>
     buf_Buffer (d_pkt d pkt) = Some pkt \<and> unat (buf_Length (d_pkt d pkt)) = length dgram \<and>
     take (length dgram) (pd_data (d_pkt d pkt)) = dgram"

text \<open>
  The invariant: the queue is in order and holds no null pointer, the pool lends exactly the blocks
  in somebody's hands, each once, and the datagrams accepted are those done with, followed by the
  contents of what is on its way.
\<close>

definition rsys_ok :: "nat \<Rightarrow> rsys \<Rightarrow> bool" where
  "rsys_ok pid s \<longleftrightarrow>
     queue_wf (d_queue (r_d s)) \<and> None \<notin> set (queue_items (d_queue (r_d s))) \<and>
     (\<forall>v. length (pd_data (d_pkt (r_d s) v)) = DATAPKTBUF) \<and>
     distinct (r_blocks s) \<and> pool_holds pid (d_mem (r_d s)) (set (r_blocks s)) \<and>
     (\<forall>(pkt, dgram)\<in>set (r_fill s). contains (r_d s) pkt dgram) \<and>
     (\<exists>gone rest. r_acc s = gone @ rest \<and> map fst (d_writes (r_d s)) = filter ipv4_packet gone \<and>
        list_all2 (contains (r_d s)) (r_next s) rest)"

lemma rsys_okD:
  assumes "rsys_ok pid s"
  obtains gone rest where "queue_wf (d_queue (r_d s))" "None \<notin> set (queue_items (d_queue (r_d s)))"
    "\<And>v. length (pd_data (d_pkt (r_d s) v)) = DATAPKTBUF" "distinct (r_blocks s)"
    "pool_holds pid (d_mem (r_d s)) (set (r_blocks s))"
    "\<And>pkt dgram. (pkt, dgram) \<in> set (r_fill s) \<Longrightarrow> contains (r_d s) pkt dgram"
    "r_acc s = gone @ rest" "map fst (d_writes (r_d s)) = filter ipv4_packet gone"
    "list_all2 (contains (r_d s)) (r_next s) rest"
  using assms unfolding rsys_ok_def by blast

text \<open>Each piece of the handlers on a well-formed state.\<close>

lemma datagram_get_ok:
  assumes "pool_holds pid (d_mem d) P" "pool_env_ok pid os (d_mem d)" "datagram_get os pid dgram d = (d', Ok (Some pkt))"
    "\<And>v. length (pd_data (d_pkt d v)) = DATAPKTBUF"
  shows "pkt \<notin> P \<and> pool_holds pid (d_mem d') (insert pkt P) \<and> d_queue d' = d_queue d \<and> d_writes d' = d_writes d \<and>
    (\<forall>v. v \<noteq> pkt \<longrightarrow> d_pkt d' v = d_pkt d v) \<and> contains d' pkt dgram \<and> (\<forall>v. length (pd_data (d_pkt d' v)) = DATAPKTBUF)"
proof -
  have "length dgram \<le> DATAPKTBUF" "\<exists>m. pool_try_get os (Some pid) (d_mem d) = (m, Ok pkt) \<and>
      d' = datagram_store pkt dgram (d\<lparr>d_mem := m\<rparr>)"
    using assms(3) by (auto simp: datagram_get_def split: prod.splits cres.splits if_splits)
  then show ?thesis using pool_try_get_spec[OF assms(1,2)] assms(4)
    by (auto simp: datagram_store_def contains_def unsigned_of_nat take_bit_nat_eq_self)
qed

lemma datagram_get_none:
  assumes "pool_holds pid (d_mem d) P" "pool_env_ok pid os (d_mem d)" "datagram_get os pid dgram d = (d', Ok None)"
  shows "d' = d"
  using assms(3) pool_try_get_spec[OF assms(1,2)]
  by (auto simp: datagram_get_def split: prod.splits cres.splits if_splits)

lemma datagram_push_ok:
  assumes "queue_wf (d_queue d)"
  shows "if length (queue_items (d_queue d)) < q_size (d_queue d)
    then \<exists>q. datagram_push mutex_ok pkt d = (d\<lparr>d_queue := q\<rparr>, Ok 0) \<and> queue_wf q \<and>
      queue_items q = queue_items (d_queue d) @ [Some pkt]
    else datagram_push mutex_ok pkt d = (d, Err EAGAIN)"
  using queue_try_push_spec[OF assms, of "Some pkt"]
  by (auto simp: datagram_push_def simp del: length_queue_items) blast

lemma recv_take_ok:
  assumes "queue_wf (d_queue d)"
  shows "case queue_items (d_queue d) of
      [] \<Rightarrow> recv_take mutex_ok False d = (d, Block)
    | x # xs \<Rightarrow> \<exists>q. recv_take mutex_ok False d = (d\<lparr>d_queue := q\<rparr>, Ok x) \<and> queue_wf q \<and> queue_items q = xs"
  using queue_try_pop_spec[OF assms]
  by (auto simp: recv_take_def queue_wait_pop_eq split: list.splits)

lemma pool_put_held:
  assumes "pool_holds pid m P" "pkt \<in> P"
  shows "\<exists>m'. pool_put mutex_ok 0 (Some pkt) m = (m', Ok ()) \<and> pool_holds pid m' (P - {pkt})"
proof -
  obtain m' where "pool_put_step pkt m = Some m'" "pool_holds pid m' (P - {pkt})"
    using mp.put_held[OF assms] by blast
  then show ?thesis by (auto simp: pool_put_step_def split: prod.splits cres.splits)
qed

lemma recv_finish_ok:
  assumes "pool_holds pid (d_mem d) P" "pkt \<in> P" "contains d pkt dgram" "\<And>v. length (pd_data (d_pkt d v)) = DATAPKTBUF"
  shows "\<exists>m. recv_finish write_ok traced pkt d =
      (d\<lparr>d_mem := m, d_writes := d_writes d @ (if ipv4_packet dgram then [(dgram, write_ok)] else [])\<rparr>, Ok ()) \<and>
    pool_holds pid m (P - {pkt})"
proof -
  let ?buf = "pd_data (d_pkt d pkt)"
  have c: "buf_Buffer (d_pkt d pkt) = Some pkt" "unat (buf_Length (d_pkt d pkt)) = length dgram"
    "take (length dgram) ?buf = dgram" using assms(3) by (auto simp: contains_def)
  have le: "length dgram \<le> length ?buf" by (metis c(3) length_take min.cobounded1)
  obtain m where m: "pool_put mutex_ok 0 (Some pkt) (d_mem d) = (m, Ok ())" "pool_holds pid m (P - {pkt})"
    using pool_put_held[OF assms(1,2)] by blast
  then have put: "d_put pkt (d\<lparr>d_writes := w\<rparr>) = (d\<lparr>d_mem := m, d_writes := w\<rparr>, Ok ())"
    "d_put pkt d = (d\<lparr>d_mem := m, d_writes := d_writes d\<rparr>, Ok ())" for w
    by (simp_all add: d_put_def)
  have pr: "pkt_data_print (Some ?buf) (length dgram) \<noteq> Abort" using pkt_data_print_total[OF le] by auto
  show ?thesis
    unfolding recv_finish_def Let_def c option.case pkt_data_iphdr_eq[OF le]
    using le pr m put by (intro exI[of _ m]) (cases "ipv4_packet dgram", simp_all add: c(3))
qed

text \<open>Every step keeps the invariant.\<close>

lemma contains_frame: "(\<And>v. v \<in> set vs \<Longrightarrow> d_pkt d' v = d_pkt d v) \<Longrightarrow>
  list_all2 (contains d) vs rest \<Longrightarrow> list_all2 (contains d') vs rest"
  by (induction vs arbitrary: rest) (auto simp: list_all2_Cons1 contains_def)

lemma contains_mem [simp]:
  "contains (d\<lparr>d_queue := q\<rparr>) = contains d" "contains (d\<lparr>d_mem := m\<rparr>) = contains d"
  "contains (d\<lparr>d_writes := w\<rparr>) = contains d"
  by (simp_all add: contains_def fun_eq_iff)

lemma rsys_get:
  assumes s: "rsys_ok pid s" and step: "pool_env_ok pid os (d_mem (r_d s))" "datagram_get os pid dgram (r_d s) = (d, Ok (Some pkt))"
  shows "rsys_ok pid (s\<lparr>r_d := d, r_fill := (pkt, dgram) # r_fill s\<rparr>)"
proof -
  from s obtain gone rest where ok: "\<And>v. length (pd_data (d_pkt (r_d s) v)) = DATAPKTBUF"
    "pool_holds pid (d_mem (r_d s)) (set (r_blocks s))"
    "\<And>pkt dgram. (pkt, dgram) \<in> set (r_fill s) \<Longrightarrow> contains (r_d s) pkt dgram"
    "r_acc s = gone @ rest" "map fst (d_writes (r_d s)) = filter ipv4_packet gone"
    "list_all2 (contains (r_d s)) (r_next s) rest" by (rule rsys_okD) blast
  from datagram_get_ok[OF ok(2) step ok(1)]
  have d: "pkt \<notin> set (r_blocks s)" "pool_holds pid (d_mem d) (insert pkt (set (r_blocks s)))" "d_queue d = d_queue (r_d s)"
    "d_writes d = d_writes (r_d s)" "\<And>v. v \<noteq> pkt \<Longrightarrow> d_pkt d v = d_pkt (r_d s) v" "contains d pkt dgram"
    "\<And>v. length (pd_data (d_pkt d v)) = DATAPKTBUF" by auto
  let ?t = "s\<lparr>r_d := d, r_fill := (pkt, dgram) # r_fill s\<rparr>"
  have nx: "r_next ?t = r_next s" "r_blocks ?t = pkt # r_blocks s"
    using d(3) by (simp_all add: r_next_def queued_def r_blocks_def)
  have old: "d_pkt d v = d_pkt (r_d s) v" if "v \<in> set (r_blocks s)" for v using that d(1,5) by metis
  have fill: "contains d v b" if "(v, b) \<in> set (r_fill s)" for v b
  proof -
    have "v \<in> set (r_blocks s)" using that by (force simp: r_blocks_def)
    then show ?thesis using ok(3)[OF that] old by (simp add: contains_def)
  qed
  have rest: "list_all2 (contains d) (r_next s) rest"
    by (rule contains_frame[OF _ ok(6)]) (simp add: old r_blocks_def)
  show ?thesis using s[unfolded rsys_ok_def] unfolding rsys_ok_def nx using ok d fill rest by auto
qed

lemma rsys_push:
  assumes s: "rsys_ok pid s" and step: "r_fill s = xs @ (pkt, dgram) # ys" "datagram_push mutex_ok pkt (r_d s) = (d, Ok rc)"
  shows "rsys_ok pid (s\<lparr>r_d := d, r_fill := xs @ ys, r_acc := r_acc s @ [dgram]\<rparr>)"
proof -
  from s obtain gone rest where ok: "queue_wf (d_queue (r_d s))" "contains (r_d s) pkt dgram"
    "r_acc s = gone @ rest" "map fst (d_writes (r_d s)) = filter ipv4_packet gone"
    "list_all2 (contains (r_d s)) (r_next s) rest" by (rule rsys_okD) (use step(1) in auto)
  obtain q where q: "d = (r_d s)\<lparr>d_queue := q\<rparr>" "queue_wf q" "queue_items q = queue_items (d_queue (r_d s)) @ [Some pkt]"
    using datagram_push_ok[OF ok(1), of pkt] step(2) by (auto simp del: length_queue_items split: if_splits)
  let ?t = "s\<lparr>r_d := d, r_fill := xs @ ys, r_acc := r_acc s @ [dgram]\<rparr>"
  have nx: "r_next ?t = r_next s @ [pkt]" using q by (simp add: r_next_def queued_def)
  have bl: "mset (r_blocks ?t) = mset (r_blocks s)" using step(1) unfolding r_blocks_def nx by simp
  have ex: "\<exists>g r. r_acc s @ [dgram] = g @ r \<and> map fst (d_writes (r_d s)) = filter ipv4_packet g \<and>
      list_all2 (contains (r_d s)) (r_next s @ [pkt]) r"
    by (rule exI[of _ gone], rule exI[of _ "rest @ [dgram]"]) (use ok in \<open>simp add: list_all2_appendI\<close>)
  show ?thesis using s[unfolded rsys_ok_def] unfolding rsys_ok_def nx mset_eq_setD[OF bl] mset_eq_imp_distinct_iff[OF bl]
    using ex q step(1) by simp
qed

lemma rsys_full:
  assumes s: "rsys_ok pid s" and step: "r_fill s = xs @ (pkt, dgram) # ys" "datagram_push mutex_ok pkt (r_d s) = (d, Err e)"
  shows "rsys_ok pid (s\<lparr>r_d := d, r_fill := xs @ ys, r_lost := pkt # r_lost s\<rparr>)"
proof -
  have "queue_wf (d_queue (r_d s))" using s by (simp add: rsys_ok_def)
  then have d: "d = r_d s"
    using datagram_push_ok[of "r_d s" pkt] step(2) by (auto simp del: length_queue_items split: if_splits)
  let ?t = "s\<lparr>r_d := d, r_fill := xs @ ys, r_lost := pkt # r_lost s\<rparr>"
  have nx: "r_next ?t = r_next s" using d by (simp add: r_next_def)
  have bl: "mset (r_blocks ?t) = mset (r_blocks s)" using step(1) unfolding r_blocks_def nx by simp
  show ?thesis using s step(1) d unfolding rsys_ok_def nx mset_eq_setD[OF bl] mset_eq_imp_distinct_iff[OF bl] by auto
qed

lemma rsys_take:
  assumes s: "rsys_ok pid s" and step: "r_cur s = None" "recv_take mutex_ok False (r_d s) = (d, Ok (Some pkt))"
  shows "rsys_ok pid (s\<lparr>r_d := d, r_cur := Some pkt\<rparr>)"
proof -
  have ok: "queue_wf (d_queue (r_d s))" "None \<notin> set (queue_items (d_queue (r_d s)))"
    using s by (simp_all add: rsys_ok_def)
  obtain xs q where q: "d = (r_d s)\<lparr>d_queue := q\<rparr>" "queue_wf q" "queue_items (d_queue (r_d s)) = Some pkt # xs"
    "queue_items q = xs"
    using recv_take_ok[OF ok(1)] step(2) by (auto split: list.splits)
  let ?t = "s\<lparr>r_d := d, r_cur := Some pkt\<rparr>"
  have nx: "r_next ?t = r_next s" "r_blocks ?t = r_blocks s"
    using q step(1) by (auto simp: r_next_def queued_def r_blocks_def)
  show ?thesis using s q ok(2) unfolding rsys_ok_def nx by auto
qed

lemma rsys_finish:
  assumes s: "rsys_ok pid s" and step: "r_cur s = Some pkt" "recv_finish write_ok traced pkt (r_d s) = (d, Ok ())"
  shows "rsys_ok pid (s\<lparr>r_d := d, r_cur := None\<rparr>)"
proof -
  from s obtain gone rest where ok: "\<And>v. length (pd_data (d_pkt (r_d s) v)) = DATAPKTBUF" "distinct (r_blocks s)"
    "pool_holds pid (d_mem (r_d s)) (set (r_blocks s))"
    "r_acc s = gone @ rest" "map fst (d_writes (r_d s)) = filter ipv4_packet gone"
    "list_all2 (contains (r_d s)) (r_next s) rest" by (rule rsys_okD) blast
  let ?t = "s\<lparr>r_d := d, r_cur := None\<rparr>"
  have cur: "r_next s = pkt # queued (r_d s)" using step(1) by (simp add: r_next_def)
  then obtain b rest' where b: "rest = b # rest'" "contains (r_d s) pkt b"
    "list_all2 (contains (r_d s)) (queued (r_d s)) rest'" using ok(6) by (auto simp: list_all2_Cons1)
  have "pkt \<in> set (r_blocks s)" using cur by (simp add: r_blocks_def)
  then obtain m where m: "d = (r_d s)\<lparr>d_mem := m,
        d_writes := d_writes (r_d s) @ (if ipv4_packet b then [(b, write_ok)] else [])\<rparr>"
    "pool_holds pid m (set (r_blocks s) - {pkt})"
    using recv_finish_ok[OF ok(3) _ b(2) ok(1), of write_ok traced] step(2) by auto
  have nx: "r_next ?t = queued (r_d s)" using m(1) by (simp add: r_next_def queued_def)
  have bl: "set (r_blocks ?t) = set (r_blocks s) - {pkt}" "distinct (r_blocks ?t)"
    using ok(2) unfolding r_blocks_def nx cur by auto
  have ex: "\<exists>g r. r_acc s = g @ r \<and> map fst (d_writes d) = filter ipv4_packet g \<and>
      list_all2 (contains (r_d s)) (queued (r_d s)) r"
    by (rule exI[of _ "gone @ [b]"], rule exI[of _ rest']) (use ok b m(1) in simp)
  show ?thesis using s[unfolded rsys_ok_def] unfolding rsys_ok_def bl nx
    using ex m bl(2) by simp
qed

lemma rstep_ok: "rstep pid s t \<Longrightarrow> rsys_ok pid s \<Longrightarrow> rsys_ok pid t"
proof (induction rule: rstep.induct)
  case (rs_drop os s dgram d)
  then have "d = r_d s" using datagram_get_none by (meson rsys_okD)
  then show ?case using rs_drop by simp
qed (simp_all add: rsys_get rsys_push rsys_full rsys_take rsys_finish)

lemma rreach_ok: "rreach pid s \<Longrightarrow> rsys_ok pid s"
proof (induction rule: rreach.induct)
  case (rr_start bs cap m0 m qos n q pkts)
  have "pool_holds pid m {}" using pool_init_inv[OF rr_start(1,2)] by (auto simp: pool_holds_def)
  then show ?case using queue_init_wf[OF rr_start(3)] rr_start(4)
    by (simp add: rsys_ok_def r_blocks_def r_next_def queued_def)
next
  case (rr_next s t)
  then show ?case using rstep_ok by blast
qed

text \<open>What the device is given of a buffer.\<close>

definition buffer_bytes :: "dpath \<Rightarrow> nat \<Rightarrow> bytes" where
  "buffer_bytes d pkt = take (unat (buf_Length (d_pkt d pkt))) (pd_data (d_pkt d pkt))"

lemma contains_bytes: "list_all2 (contains d) vs rest \<Longrightarrow> rest = map (buffer_bytes d) vs"
  by (induction vs arbitrary: rest) (auto simp: list_all2_Cons1 contains_def buffer_bytes_def)

lemma recv_accounts:
  assumes "rreach pid s"
  shows "\<exists>gone. r_acc s = gone @ map (buffer_bytes (r_d s)) (r_next s) \<and> map fst (d_writes (r_d s)) = filter ipv4_packet gone"
  using rreach_ok[OF assms] contains_bytes by (metis rsys_okD)

text \<open>The length of a datagram is the transport's business; one that is too long breaks the heap.\<close>

lemma datagram_overrun:
  assumes "pool_try_get os (Some pid) (d_mem s) = (m, Ok pkt)" "DATAPKTBUF < length dgram"
  shows "snd (server_datagram_received os mos pid dgram s) = Abort"
    "snd (client_datagram_received os mos pid (Some dgram) s) = Abort"
  using assms by (auto simp: server_datagram_received_def client_datagram_received_def datagram_get_def)


text \<open>One packet through the path: received, queued, taken.\<close>

definition demo_packet :: bytes where
  "demo_packet = [0x45] @ replicate 11 0 @ [10, 0, 0, 2, 10, 0, 0, 1]"

definition demo_dpath :: dpath where
  "demo_dpath = \<lparr>d_mem = pmem_fresh 0, d_queue = queue_demo,
     d_pkt = (\<lambda>v. \<lparr>buf_Buffer = None, buf_Length = 0, pd_data = replicate DATAPKTBUF 0\<rparr>), d_writes = []\<rparr>"

definition demo_got :: dpath where
  "demo_got = fst (datagram_get (pool_os_ok (Some 64)) 7 demo_packet demo_dpath)"

definition queue_demo1 :: "nat queue_t" where
  "queue_demo1 = queue_demo\<lparr>q_ptr := Some [Some 80, None], q_tail := 1, q_pending := 1, push_semaphore := 1, pop_semaphore := 1\<rparr>"

definition demo_taken :: dpath where
  "demo_taken = demo_got\<lparr>d_queue := queue_demo\<lparr>q_head := 1, q_tail := 1\<rparr>\<rparr>"

lemma queue_demo_steps:
  "queue_try_push mutex_ok (Some queue_demo) (Some 80) = (Some queue_demo1, Ok 0)"
  "queue_wait_pop mutex_ok False (Some queue_demo1) = (Some (queue_demo\<lparr>q_head := 1, q_tail := 1\<rparr>), Ok (Some 80))"
  by (simp_all add: queue_try_push_def queue_wait_pop_def queue_push_locked_def queue_pop_locked_def queue_store_def
      queue_take_def sem_trywait_def sem_wait_def sem_post_def mutex_ok_def queue_demo_def queue_demo1_def Let_def
      size_dec_eq)

definition demo_rsys :: rsys where
  "demo_rsys = \<lparr>r_d = demo_taken, r_fill = [], r_cur = Some 80, r_lost = [], r_acc = [demo_packet]\<rparr>"

lemma demo_rreach_start: "rreach 7 \<lparr>r_d = demo_dpath, r_fill = [], r_cur = None, r_lost = [], r_acc = []\<rparr>"
proof -
  have q: "queue_init queue_os_ok 2 = Ok queue_demo" by (simp add: queue_init_def queue_os_ok_def queue_demo_def numeral_2_eq_2)
  show ?thesis unfolding demo_dpath_def by (rule rr_start[OF pmem_fresh_init _ q]) simp_all
qed

lemma demo_rreach: "rreach 7 demo_rsys"
proof -
  note 0 = demo_rreach_start
  have g: "datagram_get (pool_os_ok (Some 64)) 7 demo_packet demo_dpath = (demo_got, Ok (Some 80))"
    unfolding demo_got_def by (simp add: datagram_get_def demo_dpath_def demo_packet_def pool_eval)
  have "d_queue demo_got = queue_demo"
    by (simp add: demo_got_def datagram_get_def datagram_store_def demo_dpath_def demo_packet_def pool_eval)
  then have p: "datagram_push mutex_ok 80 demo_got = (demo_got\<lparr>d_queue := queue_demo1\<rparr>, Ok 0)"
    by (simp add: datagram_push_def queue_demo_steps)
  have t: "recv_take mutex_ok False (demo_got\<lparr>d_queue := queue_demo1\<rparr>) = (demo_taken, Ok (Some 80))"
    by (simp add: recv_take_def queue_demo_steps demo_taken_def)
  have env: "pool_env_ok 7 (pool_os_ok (Some 64)) (d_mem demo_dpath)"
    by (simp add: pool_env_ok_def pool_os_ok_def demo_dpath_def pmem_fresh_def)
  have 1: "rreach 7 \<lparr>r_d = demo_got, r_fill = [(80, demo_packet)], r_cur = None, r_lost = [], r_acc = []\<rparr>"
    using rr_next[OF 0 rs_get[of demo_packet 7 "pool_os_ok (Some 64)"]] env g by (simp add: demo_packet_def)
  have 2: "rreach 7 \<lparr>r_d = demo_got\<lparr>d_queue := queue_demo1\<rparr>, r_fill = [], r_cur = None, r_lost = [],
      r_acc = [demo_packet]\<rparr>"
    using rr_next[OF 1 rs_push[of _ "[]" 80 demo_packet "[]"]] p by simp
  show ?thesis using rr_next[OF 2 rs_take] t by (simp add: demo_rsys_def)
qed


end
