(* ===== verification/Sync_Prims.thy ===== *)
theory Sync_Prims
  imports Blocking_Queue
begin

text \<open>
  The synchronisation primitives of \<^verbatim>\<open>common/inc/state_sync.h\<close>,
  \<^verbatim>\<open>cnt_sync.h\<close> and \<^verbatim>\<open>cond_sync.h\<close>: a shared state that threads
  wait on, a counting latch and a one-shot signal. A wait is a loop around a condition
  variable; what the thread meets is a list with one element per return of the wait: its
  result code and the value the other threads left. At the end of the list the thread still
  waits. The contract of a monitor says when no thread can sleep through the change it waits
  for; the state and the latch are shown to satisfy it.
\<close>

section \<open>Monitors\<close>

text \<open>Operations and waits in the order of the lock; a notified operation wakes every sleeper,
  which then checks its condition again (a further wait).\<close>

datatype ('o, 'w) mon_event = MOp 'o | MWait 'w

fun mon_step ::
  "('w \<Rightarrow> 's \<Rightarrow> bool) \<Rightarrow> ('o \<Rightarrow> 's \<Rightarrow> ('s \<times> bool) option) \<Rightarrow> 's \<times> 'w list \<Rightarrow> ('o, 'w) mon_event
   \<Rightarrow> 's \<times> 'w list" where
  "mon_step blocked op (s, ws) (MOp x) =
     (case op x s of None \<Rightarrow> (s, ws) | Some (s', notify) \<Rightarrow> (s', if notify then [] else ws))"
| "mon_step blocked op (s, ws) (MWait w) = (if blocked w s then (s, w # ws) else (s, ws))"

definition mon_run ::
  "('w \<Rightarrow> 's \<Rightarrow> bool) \<Rightarrow> ('o \<Rightarrow> 's \<Rightarrow> ('s \<times> bool) option) \<Rightarrow> 's \<Rightarrow> ('o, 'w) mon_event list
   \<Rightarrow> 's \<times> 'w list" where
  "mon_run blocked op s evs = foldl (mon_step blocked op) (s, []) evs"

text \<open>The contract: an operation that does not notify releases nobody.\<close>

locale monitor =
  fixes blocked :: "'w \<Rightarrow> 's \<Rightarrow> bool"
    and op :: "'o \<Rightarrow> 's \<Rightarrow> ('s \<times> bool) option"
  assumes silent: "op x s = Some (s', False) \<Longrightarrow> blocked w s \<Longrightarrow> blocked w s'"
begin

lemma step_sound:
  assumes "\<forall>w \<in> set ws. blocked w s" "mon_step blocked op (s, ws) ev = (s', ws')"
  shows "\<forall>w \<in> set ws'. blocked w s'"
proof (cases ev)
  case (MOp x)
  then show ?thesis using assms silent by (auto split: option.splits if_splits)
next
  case (MWait w)
  then show ?thesis using assms by (auto split: if_splits)
qed

lemma no_lost_wakeup:
  assumes "mon_run blocked op s evs = (s', ws)" and "w \<in> set ws"
  shows "blocked w s'"
proof -
  have "\<forall>w \<in> set (snd (foldl (mon_step blocked op) (s, ws0) evs)).
      blocked w (fst (foldl (mon_step blocked op) (s, ws0) evs))"
    if "\<forall>w \<in> set ws0. blocked w s" for s ws0
    using that
  proof (induction evs arbitrary: s ws0)
    case Nil
    then show ?case by simp
  next
    case (Cons ev evs)
    obtain s1 ws1 where st: "mon_step blocked op (s, ws0) ev = (s1, ws1)" by fastforce
    then show ?case using Cons.IH[OF step_sound[OF Cons.prems st]] by simp
  qed
  from this[of "[]" s] show ?thesis using assms by (simp add: mon_run_def)
qed

end

section \<open>Deadlines\<close>

abbreviation INT64_MAX :: int where "INT64_MAX \<equiv> 2 ^ 63 - 1"

record timespec =
  tv_sec :: int
  tv_nsec :: int

definition state_sync_timespec_add_ms :: "timespec \<Rightarrow> u32 \<Rightarrow> timespec \<times> int cres" where
  "state_sync_timespec_add_ms ts timeout_ms =
     (let sec_add = uint timeout_ms div 1000; nsec_add = (uint timeout_ms mod 1000) * 1000000 in
      if tv_sec ts > INT64_MAX - sec_add then (ts, Err EINVAL)
      else let ts1 = ts\<lparr>tv_sec := tv_sec ts + sec_add, tv_nsec := tv_nsec ts + nsec_add\<rparr> in
        if tv_nsec ts1 \<ge> 1000000000
        then (ts1\<lparr>tv_sec := tv_sec ts1 + 1, tv_nsec := tv_nsec ts1 - 1000000000\<rparr>, Ok 0)
        else (ts1, Ok 0))"

definition timespec_ok :: "timespec \<Rightarrow> bool" where
  "timespec_ok ts \<longleftrightarrow> 0 \<le> tv_sec ts \<and> 0 \<le> tv_nsec ts \<and> tv_nsec ts < 1000000000"

definition timespec_ns :: "timespec \<Rightarrow> int" where
  "timespec_ns ts = tv_sec ts * 1000000000 + tv_nsec ts"

lemma timespec_add_ms_ok:
  assumes "timespec_ok ts" "tv_sec ts + uint ms div 1000 < INT64_MAX"
  shows "\<exists>ts'. state_sync_timespec_add_ms ts ms = (ts', Ok 0) \<and> timespec_ok ts' \<and>
    tv_sec ts' \<le> INT64_MAX \<and> timespec_ns ts' = timespec_ns ts + uint ms * 1000000"
proof -
  have "uint ms = uint ms div 1000 * 1000 + uint ms mod 1000" by simp
  moreover have "0 \<le> uint ms mod 1000" "uint ms mod 1000 < 1000" "0 \<le> uint ms div 1000"
    by (simp_all add: pos_imp_zdiv_nonneg_iff)
  moreover define d m where "d = uint ms div 1000" and "m = uint ms mod 1000"
  ultimately have u: "uint ms = d * 1000 + m" "0 \<le> m" "m < 1000" "0 \<le> d" by simp_all
  then show ?thesis using assms unfolding state_sync_timespec_add_ms_def
    by (simp add: Let_def timespec_ok_def timespec_ns_def flip: d_def m_def)
qed

section \<open>Shared state (state\_sync.h)\<close>

text \<open>The enumerations the program keeps in shared states: the tunnel, the connection and the control
  stream of a session (\<^verbatim>\<open>session.h\<close>), and the application
  (\<^verbatim>\<open>vpn_app.h\<close>).\<close>

abbreviation TUN_CLOSED :: int where "TUN_CLOSED \<equiv> 0"
abbreviation TUN_READY :: int where "TUN_READY \<equiv> 1"
abbreviation TUN_FAIL :: int where "TUN_FAIL \<equiv> 2"
abbreviation SESSION_CONNECTING :: int where "SESSION_CONNECTING \<equiv> 1"
abbreviation SESSION_CONNECTED :: int where "SESSION_CONNECTED \<equiv> 2"
abbreviation SESSION_DISCONNECTED :: int where "SESSION_DISCONNECTED \<equiv> 3"
abbreviation STREAM_OPENING :: int where "STREAM_OPENING \<equiv> 1"
abbreviation STREAM_OPEN :: int where "STREAM_OPEN \<equiv> 2"
abbreviation STREAM_CLOSED :: int where "STREAM_CLOSED \<equiv> 3"
abbreviation APP_STOPPED :: int where "APP_STOPPED \<equiv> 1"
abbreviation APP_STARTING :: int where "APP_STARTING \<equiv> 2"
abbreviation APP_RUNNING :: int where "APP_RUNNING \<equiv> 3"
abbreviation APP_STOPPING :: int where "APP_STOPPING \<equiv> 4"

record state_sync_t =
  ss_state :: int

record state_sync_init_os =
  si_mutex_init :: int
  si_attr_init :: int
  si_setclock :: int
  si_cond_init :: int

definition state_sync_init ::
  "state_sync_init_os \<Rightarrow> state_sync_t option \<Rightarrow> int \<Rightarrow> state_sync_t option \<times> int" where
  "state_sync_init os sp initial_state =
     (case sp of None \<Rightarrow> (sp, - EINVAL)
      | Some s \<Rightarrow>
        let sp1 = Some (s\<lparr>ss_state := initial_state\<rparr>) in
        if si_mutex_init os \<noteq> 0 then (sp1, - si_mutex_init os)
        else if si_attr_init os \<noteq> 0 then (sp1, - si_attr_init os)
        else if si_setclock os \<noteq> 0 then (sp1, - si_setclock os)
        else if si_cond_init os \<noteq> 0 then (sp1, - si_cond_init os)
        else (sp1, 0))"

definition state_sync_destroy ::
  "int \<Rightarrow> int \<Rightarrow> state_sync_t option \<Rightarrow> state_sync_t option \<times> unit cres" where
  "state_sync_destroy cond_rc mutex_rc sp =
     (case sp of None \<Rightarrow> (sp, Ok ())
      | Some s \<Rightarrow>
        if cond_rc \<noteq> 0 then (sp, Abort)
        else if mutex_rc \<noteq> 0 then (sp, Abort)
        else (Some (s\<lparr>ss_state := -1\<rparr>), Ok ()))"

text \<open>The result says whether the condition was broadcast.\<close>

definition state_sync_set ::
  "mutex_os \<Rightarrow> int \<Rightarrow> state_sync_t option \<Rightarrow> int \<Rightarrow> state_sync_t option \<times> bool cres" where
  "state_sync_set os bcast_rc sp new_state =
     (case sp of None \<Rightarrow> (sp, Abort)
      | Some s \<Rightarrow>
        if lock_rc os \<noteq> 0 then (sp, Abort)
        else if ss_state s \<noteq> new_state then
          let sp1 = Some (s\<lparr>ss_state := new_state\<rparr>) in
          if bcast_rc \<noteq> 0 then (sp1, Abort)
          else if unlock_rc os \<noteq> 0 then (sp1, Abort) else (sp1, Ok True)
        else if unlock_rc os \<noteq> 0 then (sp, Abort) else (sp, Ok False))"

definition state_sync_get :: "mutex_os \<Rightarrow> state_sync_t option \<Rightarrow> int cres" where
  "state_sync_get os sp =
     (case sp of None \<Rightarrow> Abort
      | Some s \<Rightarrow> if lock_rc os \<noteq> 0 then Abort else if unlock_rc os \<noteq> 0 then Abort else Ok (ss_state s))"

definition state_sync_check :: "mutex_os \<Rightarrow> state_sync_t option \<Rightarrow> int \<Rightarrow> bool cres" where
  "state_sync_check os sp state =
     (case sp of None \<Rightarrow> Abort
      | Some s \<Rightarrow>
        if lock_rc os \<noteq> 0 then Abort
        else if unlock_rc os \<noteq> 0 then Abort else Ok (ss_state s = state))"

text \<open>\<^verbatim>\<open>while (blocked) pthread_cond_wait\<close>, ending in the state that released
  it.\<close>

fun cond_wait_loop :: "('s \<Rightarrow> bool) \<Rightarrow> (int \<times> 's) list \<Rightarrow> 's \<Rightarrow> 's cres" where
  "cond_wait_loop blocked [] st = (if blocked st then Block else Ok st)"
| "cond_wait_loop blocked ((rc, st') # wakes) st =
     (if blocked st then (if rc \<noteq> 0 then Abort else cond_wait_loop blocked wakes st') else Ok st)"

definition ss_wait ::
  "(int \<Rightarrow> bool) \<Rightarrow> mutex_os \<Rightarrow> (int \<times> int) list \<Rightarrow> state_sync_t option \<Rightarrow> int cres" where
  "ss_wait blocked os wakes sp =
     (case sp of None \<Rightarrow> Abort
      | Some s \<Rightarrow>
        if lock_rc os \<noteq> 0 then Abort
        else case cond_wait_loop blocked wakes (ss_state s) of
               Ok st \<Rightarrow> if unlock_rc os \<noteq> 0 then Abort else Ok st
             | r \<Rightarrow> r)"

definition state_sync_wait :: "mutex_os \<Rightarrow> (int \<times> int) list \<Rightarrow> state_sync_t option \<Rightarrow> int \<Rightarrow> int cres" where
  "state_sync_wait os wakes sp target = ss_wait (\<lambda>st. st \<noteq> target) os wakes sp"

definition state_sync_wait_for_any ::
  "mutex_os \<Rightarrow> (int \<times> int) list \<Rightarrow> state_sync_t option \<Rightarrow> int \<Rightarrow> int \<Rightarrow> int cres" where
  "state_sync_wait_for_any os wakes sp a b = ss_wait (\<lambda>st. st \<noteq> a \<and> st \<noteq> b) os wakes sp"

definition state_sync_wait_while ::
  "mutex_os \<Rightarrow> (int \<times> int) list \<Rightarrow> state_sync_t option \<Rightarrow> int \<Rightarrow> int cres" where
  "state_sync_wait_while os wakes sp value = ss_wait (\<lambda>st. st = value) os wakes sp"

text \<open>The deadline of a timed wait: the clock may fail, the addition may overflow.\<close>

definition ss_deadline :: "timespec option \<Rightarrow> u32 \<Rightarrow> timespec option" where
  "ss_deadline clock timeout_ms =
     (case clock of None \<Rightarrow> None
      | Some now \<Rightarrow>
        (case state_sync_timespec_add_ms now timeout_ms of (ts, Ok _) \<Rightarrow> Some ts | _ \<Rightarrow> None))"

text \<open>The timed loop returns the moment the wait reports an error, without another look at
  the state.\<close>

fun timed_wait_loop :: "int \<Rightarrow> mutex_os \<Rightarrow> (int \<times> int) list \<Rightarrow> int \<Rightarrow> int cres" where
  "timed_wait_loop target os wakes st =
     (if st \<noteq> target then
        (case wakes of [] \<Rightarrow> Block
         | (rc, st') # wakes' \<Rightarrow>
             if rc \<noteq> 0 then (if unlock_rc os \<noteq> 0 then Abort else Err ETIMEDOUT)
             else timed_wait_loop target os wakes' st')
      else if unlock_rc os \<noteq> 0 then Abort else Ok 0)"

declare timed_wait_loop.simps [simp del]

definition state_sync_wait_ms ::
  "mutex_os \<Rightarrow> timespec option \<Rightarrow> (int \<times> int) list \<Rightarrow> state_sync_t option \<Rightarrow> int \<Rightarrow> u32 \<Rightarrow> int cres" where
  "state_sync_wait_ms os clock wakes sp target timeout_ms =
     (case sp of None \<Rightarrow> Err EINVAL
      | Some s \<Rightarrow>
     (case ss_deadline clock timeout_ms of None \<Rightarrow> Err ECANCELED
      | Some ts \<Rightarrow>
        if lock_rc os \<noteq> 0 then Abort else timed_wait_loop target os wakes (ss_state s)))"

text \<open>The variant with an abort state: checks before the deadline is computed, at every round
  and once more when the timer has expired.\<close>

fun abort_wait_loop :: "int \<Rightarrow> int \<Rightarrow> mutex_os \<Rightarrow> (int \<times> int) list \<Rightarrow> int \<Rightarrow> int cres" where
  "abort_wait_loop target abort_state os wakes st =
     (if st \<noteq> target then
        if st = abort_state then Err ECONNABORTED
        else (case wakes of [] \<Rightarrow> Block
              | (rc, st') # wakes' \<Rightarrow>
                  if rc \<noteq> 0 then
                    if st' = target then (if unlock_rc os \<noteq> 0 then Abort else Ok 0)
                    else if st' = abort_state then Err ECONNABORTED
                    else Err ETIMEDOUT
                  else abort_wait_loop target abort_state os wakes' st')
      else if unlock_rc os \<noteq> 0 then Abort else Ok 0)"

declare abort_wait_loop.simps [simp del]

definition state_sync_wait_ms_abort ::
  "mutex_os \<Rightarrow> timespec option \<Rightarrow> (int \<times> int) list \<Rightarrow> state_sync_t option \<Rightarrow> int \<Rightarrow> int \<Rightarrow> u32 \<Rightarrow> int cres" where
  "state_sync_wait_ms_abort os clock wakes sp target abort_state timeout_ms =
     (case sp of None \<Rightarrow> Err EINVAL
      | Some s \<Rightarrow>
        if lock_rc os \<noteq> 0 then Abort
        else if ss_state s = target then Ok 0
        else if ss_state s = abort_state then Err ECONNABORTED
        else (case ss_deadline clock timeout_ms of None \<Rightarrow> Err ECANCELED
              | Some ts \<Rightarrow> abort_wait_loop target abort_state os wakes (ss_state s)))"

text \<open>Setting and testing a state whose mutex works.\<close>

definition set_state :: "int \<Rightarrow> state_sync_t \<Rightarrow> state_sync_t" where
  "set_state v st = (case state_sync_set mutex_ok 0 (Some st) v of (Some st', _) \<Rightarrow> st' | (None, _) \<Rightarrow> st)"

lemma set_state_eq [simp]: "ss_state (set_state v st) = v"
  by (simp add: set_state_def state_sync_set_def mutex_ok_def Let_def)

definition in_state :: "state_sync_t \<Rightarrow> int \<Rightarrow> bool" where
  "in_state st v \<longleftrightarrow> state_sync_check mutex_ok (Some st) v = Ok True"

lemma in_state_iff [simp]: "in_state st v \<longleftrightarrow> ss_state st = v"
  by (simp add: in_state_def state_sync_check_def mutex_ok_def)

section \<open>Latch (cnt\_sync.h)\<close>

record cnt_sync_t =
  cs_value :: u64

record cnt_sync_init_os =
  ci_attr_init :: int
  ci_setclock :: int
  ci_mutex_init :: int
  ci_cond_init :: int

definition cnt_sync_init ::
  "cnt_sync_init_os \<Rightarrow> cnt_sync_t option \<Rightarrow> u64 \<Rightarrow> cnt_sync_t option \<times> int cres" where
  "cnt_sync_init os cp initial =
     (case cp of None \<Rightarrow> (cp, Err EINVAL)
      | Some c \<Rightarrow>
        let cp1 = Some (c\<lparr>cs_value := initial\<rparr>) in
        if ci_attr_init os \<noteq> 0 then (cp1, Err (ci_attr_init os))
        else if ci_setclock os \<noteq> 0 then (cp1, Err (ci_setclock os))
        else if ci_mutex_init os \<noteq> 0 then (cp1, Err (ci_mutex_init os))
        else if ci_cond_init os \<noteq> 0 then (cp1, Err (ci_cond_init os))
        else (cp1, Ok 0))"

definition cnt_sync_destroy ::
  "int \<Rightarrow> int \<Rightarrow> cnt_sync_t option \<Rightarrow> cnt_sync_t option \<times> unit cres" where
  "cnt_sync_destroy cond_rc mutex_rc cp =
     (case cp of None \<Rightarrow> (cp, Ok ())
      | Some c \<Rightarrow>
        if cond_rc \<noteq> 0 then (cp, Abort)
        else if mutex_rc \<noteq> 0 then (cp, Abort)
        else (Some (c\<lparr>cs_value := - 1\<rparr>), Ok ()))"

definition cnt_sync_inc :: "cnt_sync_t option \<Rightarrow> cnt_sync_t option \<times> u64 cres" where
  "cnt_sync_inc cp =
     (case cp of None \<Rightarrow> (cp, Abort)
      | Some c \<Rightarrow> (Some (c\<lparr>cs_value := cs_value c + 1\<rparr>), Ok (cs_value c + 1)))"

text \<open>The result carries the new value and whether the condition was broadcast.\<close>

definition cnt_sync_dec ::
  "mutex_os \<Rightarrow> int \<Rightarrow> cnt_sync_t option \<Rightarrow> cnt_sync_t option \<times> (u64 \<times> bool) cres" where
  "cnt_sync_dec os bcast_rc cp =
     (case cp of None \<Rightarrow> (cp, Abort)
      | Some c \<Rightarrow>
        if lock_rc os \<noteq> 0 then (cp, Abort)
        else let old = cs_value c; cp1 = Some (c\<lparr>cs_value := old - 1\<rparr>) in
          if old = 0 then (cp1, Abort)
          else let new_val = old - 1 in
            if new_val = 0 then
              if bcast_rc \<noteq> 0 then (cp1, Abort)
              else if unlock_rc os \<noteq> 0 then (cp1, Abort) else (cp1, Ok (new_val, True))
            else if unlock_rc os \<noteq> 0 then (cp1, Abort) else (cp1, Ok (new_val, False)))"

definition cnt_sync_get :: "cnt_sync_t option \<Rightarrow> u64 cres" where
  "cnt_sync_get cp = (case cp of None \<Rightarrow> Abort | Some c \<Rightarrow> Ok (cs_value c))"

definition cnt_sync_wait_zero :: "mutex_os \<Rightarrow> (int \<times> u64) list \<Rightarrow> cnt_sync_t option \<Rightarrow> unit cres" where
  "cnt_sync_wait_zero os wakes cp =
     (case cp of None \<Rightarrow> Abort
      | Some c \<Rightarrow>
        if lock_rc os \<noteq> 0 then Abort
        else case cond_wait_loop (\<lambda>v. v \<noteq> 0) wakes (cs_value c) of
               Ok v \<Rightarrow> if unlock_rc os \<noteq> 0 then Abort else Ok ()
             | Err e \<Rightarrow> Err e | Block \<Rightarrow> Block | Abort \<Rightarrow> Abort)"

fun cnt_timed_loop :: "mutex_os \<Rightarrow> (int \<times> u64) list \<Rightarrow> u64 \<Rightarrow> int cres" where
  "cnt_timed_loop os wakes v =
     (if v \<noteq> 0 then
        (case wakes of [] \<Rightarrow> Block
         | (rc, v') # wakes' \<Rightarrow>
             if rc \<noteq> 0 then (if unlock_rc os \<noteq> 0 then Abort else Err rc)
             else cnt_timed_loop os wakes' v')
      else if unlock_rc os \<noteq> 0 then Abort else Ok 0)"

declare cnt_timed_loop.simps [simp del]

definition cnt_sync_wait_zero_ms ::
  "mutex_os \<Rightarrow> int \<Rightarrow> timespec option \<Rightarrow> (int \<times> u64) list \<Rightarrow> cnt_sync_t option \<Rightarrow> u64 \<Rightarrow> int cres" where
  "cnt_sync_wait_zero_ms os clock_errno clock wakes cp timeout_ms =
     (case cp of None \<Rightarrow> Err EINVAL
      | Some c \<Rightarrow>
     (case clock of None \<Rightarrow> Err clock_errno
      | Some now \<Rightarrow>
        if tv_sec now > INT64_MAX - uint timeout_ms div 1000 then Err EINVAL
        else if lock_rc os \<noteq> 0 then Abort
        else cnt_timed_loop os wakes (cs_value c)))"

section \<open>One-shot signal (cond\_sync.h)\<close>

record cond_sync_t =
  signaled :: bool

definition cond_sync_init :: "int \<Rightarrow> int \<Rightarrow> cond_sync_t \<Rightarrow> cond_sync_t \<times> int" where
  "cond_sync_init mutex_rc cond_rc c =
     (if mutex_rc \<noteq> 0 then (c, -1) else if cond_rc \<noteq> 0 then (c, -1)
      else (c\<lparr>signaled := False\<rparr>, 0))"

text \<open>The wait consumes the flag; the flag at each wake-up is an element of the list.\<close>

fun cond_sync_wait :: "bool list \<Rightarrow> cond_sync_t \<Rightarrow> cond_sync_t cres" where
  "cond_sync_wait wakes c =
     (if \<not> signaled c then
        (case wakes of [] \<Rightarrow> Block | flag # wakes' \<Rightarrow> cond_sync_wait wakes' (c\<lparr>signaled := flag\<rparr>))
      else Ok (c\<lparr>signaled := False\<rparr>))"

declare cond_sync_wait.simps [simp del]

definition cond_sync_signal :: "cond_sync_t \<Rightarrow> cond_sync_t" where
  "cond_sync_signal c = c\<lparr>signaled := True\<rparr>"

definition cond_sync_broadcast :: "cond_sync_t \<Rightarrow> cond_sync_t" where
  "cond_sync_broadcast c = c\<lparr>signaled := True\<rparr>"

section \<open>The contract of a monitor\<close>

text \<open>The three waits of the shared state, and the set as an operation of the monitor.\<close>

datatype ss_cond = WaitFor int | WaitAny int int | WaitWhile int

fun ss_blocked :: "ss_cond \<Rightarrow> state_sync_t \<Rightarrow> bool" where
  "ss_blocked (WaitFor t) s \<longleftrightarrow> ss_state s \<noteq> t"
| "ss_blocked (WaitAny a b) s \<longleftrightarrow> ss_state s \<noteq> a \<and> ss_state s \<noteq> b"
| "ss_blocked (WaitWhile v) s \<longleftrightarrow> ss_state s = v"

definition ss_op :: "int \<Rightarrow> state_sync_t \<Rightarrow> (state_sync_t \<times> bool) option" where
  "ss_op v s = (case state_sync_set mutex_ok 0 (Some s) v of (Some s', Ok b) \<Rightarrow> Some (s', b) | _ \<Rightarrow> None)"

interpretation ssm: monitor ss_blocked ss_op
proof unfold_locales
  fix v s s' w
  assume "ss_op v s = Some (s', False)" "ss_blocked w s"
  then show "ss_blocked w s'"
    by (auto simp: ss_op_def state_sync_set_def mutex_ok_def Let_def split: if_splits)
qed

text \<open>The latch; incrementing the largest value is not an operation (it would wrap to zero
  without a broadcast).\<close>

datatype cnt_op = CInc | CDec

fun cnt_op_step :: "cnt_op \<Rightarrow> cnt_sync_t \<Rightarrow> (cnt_sync_t \<times> bool) option" where
  "cnt_op_step CInc c =
     (if cs_value c = - 1 then None
      else case cnt_sync_inc (Some c) of (Some c', Ok _) \<Rightarrow> Some (c', False) | _ \<Rightarrow> None)"
| "cnt_op_step CDec c =
     (case cnt_sync_dec mutex_ok 0 (Some c) of (Some c', Ok (v, b)) \<Rightarrow> Some (c', b) | _ \<Rightarrow> None)"

interpretation cnm: monitor "\<lambda>(_::unit) c. cs_value c \<noteq> 0" cnt_op_step
proof unfold_locales
  fix x c c' and w :: unit
  assume op: "cnt_op_step x c = Some (c', False)" and "cs_value c \<noteq> 0"
  then show "cs_value c' \<noteq> 0"
  proof (cases x)
    case CInc
    have "cs_value c + 1 \<noteq> 0" if "cs_value c \<noteq> - 1"
      using that by (metis add.commute add_eq_0_iff)
    then show ?thesis using op CInc by (auto simp: cnt_sync_inc_def split: if_splits)
  next
    case CDec
    then show ?thesis using op by (auto simp: cnt_sync_dec_def mutex_ok_def Let_def split: if_splits)
  qed
qed

section \<open>The waits\<close>

lemma cond_wait_first:
  assumes "\<forall>st \<in> set (map snd pre). blocked st" "blocked st0" "\<not> blocked st"
    "\<forall>rc \<in> set (map fst (pre @ [(0, st)])). rc = 0"
  shows "cond_wait_loop blocked (pre @ (0, st) # post) st0 = Ok st"
  using assms
proof (induction pre arbitrary: st0)
  case Nil
  then show ?case by (cases post) auto
next
  case (Cons e pre)
  then show ?case by (cases e) auto
qed

lemma cond_wait_never:
  assumes "blocked st0" "\<forall>st \<in> set (map snd wakes). blocked st" "\<forall>rc \<in> set (map fst wakes). rc = 0"
  shows "cond_wait_loop blocked wakes st0 = Block"
  using assms
proof (induction wakes arbitrary: st0)
  case Nil
  then show ?case by simp
next
  case (Cons e wakes)
  then show ?case by (cases e) auto
qed

text \<open>
  What a timed wait with an abort state should answer, given the states it observes in order
  and whether the timer expired after the last one: the first decisive state decides, the
  target before the abort state.
\<close>

fun first_hit :: "int \<Rightarrow> int \<Rightarrow> int list \<Rightarrow> int cres option" where
  "first_hit target abort_state [] = None"
| "first_hit target abort_state (st # sts) =
     (if st = target then Some (Ok 0) else if st = abort_state then Some (Err ECONNABORTED)
      else first_hit target abort_state sts)"

text \<open>The observed states: all up to and including the one at the first expired wait.\<close>

fun observed :: "(int \<times> int) list \<Rightarrow> int list \<times> bool" where
  "observed [] = ([], False)"
| "observed ((rc, st) # wakes) =
     (if rc \<noteq> 0 then ([st], True) else map_prod (Cons st) id (observed wakes))"

lemma abort_wait_loop_spec:
  assumes "unlock_rc os = 0"
  shows "abort_wait_loop target ab os wakes st =
    (case first_hit target ab (st # fst (observed wakes)) of
       Some r \<Rightarrow> r
     | None \<Rightarrow> if snd (observed wakes) then Err ETIMEDOUT else Block)"
proof (induction wakes arbitrary: st)
  case Nil
  then show ?case using assms by (subst abort_wait_loop.simps) simp
next
  case (Cons e wakes)
  obtain rc st' where e: "e = (rc, st')" by (cases e)
  show ?case using assms e Cons.IH[of st']
    by (subst abort_wait_loop.simps) (cases "observed wakes"; simp)
qed

section \<open>Properties\<close>

text \<open>
  C25. Outcome of a connection wait. \<^verbatim>\<open>state_sync_wait_ms_abort\<close>, which the
  client uses to wait for its connection, answers according to the first decisive state among
  the current one and those seen at its wake-ups, the one at the expiry of the timer included:
  zero for the target, \<^verbatim>\<open>ECONNABORTED\<close> for the abort state, the target winning
  when both are the same value; only when none of the states it saw is decisive and the timer
  has expired does it answer \<^verbatim>\<open>ETIMEDOUT\<close>.
\<close>

theorem state_sync_wait_ms_abort_outcome:
  assumes "ss_deadline clock timeout_ms \<noteq> None"
  shows "state_sync_wait_ms_abort mutex_ok clock wakes (Some s) target ab timeout_ms =
    (case first_hit target ab (ss_state s # fst (observed wakes)) of
       Some r \<Rightarrow> r
     | None \<Rightarrow> if snd (observed wakes) then Err ETIMEDOUT else Block)"
  using assms abort_wait_loop_spec[of mutex_ok target ab wakes "ss_state s"]
  by (auto simp: state_sync_wait_ms_abort_def mutex_ok_def)

definition clock_demo :: timespec where
  "clock_demo = \<lparr>tv_sec = 100, tv_nsec = 900000000\<rparr>"

theorem state_sync_wait_ms_abort_outcome_witness:
  "state_sync_wait_ms_abort mutex_ok (Some clock_demo) [(0, 1), (110, 2)] (Some \<lparr>ss_state = 0\<rparr>) 2 3 500 = Ok 0 \<and>
   state_sync_wait_ms_abort mutex_ok (Some clock_demo) [(0, 3), (110, 2)] (Some \<lparr>ss_state = 0\<rparr>) 2 3 500 = Err ECONNABORTED"
  using state_sync_wait_ms_abort_outcome[of "Some clock_demo" 500 "[(0, 1), (110, 2)]" "\<lparr>ss_state = 0\<rparr>" 2 3]
    state_sync_wait_ms_abort_outcome[of "Some clock_demo" 500 "[(0, 3), (110, 2)]" "\<lparr>ss_state = 0\<rparr>" 2 3]
  by (simp add: ss_deadline_def state_sync_timespec_add_ms_def clock_demo_def)

text \<open>
  Two answers to the same events. When the state reaches the target in the very wake-up in
  which the timer has expired, \<^verbatim>\<open>state_sync_wait_ms\<close> reports a timeout while
  \<^verbatim>\<open>state_sync_wait_ms_abort\<close> reports success; in every other run of wake-ups
  with no abort state among them the two agree.
\<close>

lemma timed_vs_abort:
  assumes "unlock_rc os = 0" "ab \<notin> set (st # map snd wakes)"
  shows "timed_wait_loop target os wakes st = abort_wait_loop target ab os wakes st \<or>
    (\<exists>pre rc post. wakes = pre @ (rc, target) # post \<and> rc \<noteq> 0 \<and>
      timed_wait_loop target os wakes st = Err ETIMEDOUT \<and>
      abort_wait_loop target ab os wakes st = Ok 0)"
  using assms(2)
proof (induction wakes arbitrary: st)
  case Nil
  then show ?case using assms(1) by (simp add: timed_wait_loop.simps abort_wait_loop.simps)
next
  case (Cons e wakes)
  obtain rc st' where e: "e = (rc, st')" by (cases e)
  show ?case
  proof (cases "st \<noteq> target \<and> rc = 0")
    case True
    then have "timed_wait_loop target os (e # wakes) st = timed_wait_loop target os wakes st'"
      "abort_wait_loop target ab os (e # wakes) st = abort_wait_loop target ab os wakes st'"
      using e Cons.prems by (auto simp: timed_wait_loop.simps[of _ _ "(0, st') # wakes"]
          abort_wait_loop.simps[of _ _ _ "(0, st') # wakes"])
    moreover have "ab \<notin> set (st' # map snd wakes)" using Cons.prems e by simp
    ultimately show ?thesis using Cons.IH[of st'] by (metis append_Cons)
  next
    case False
    then show ?thesis using assms(1) e Cons.prems
      by (auto simp: timed_wait_loop.simps abort_wait_loop.simps intro!: exI[of _ "[]"])
  qed
qed

theorem state_sync_wait_ms_expiry:
  assumes "ss_deadline clock timeout_ms \<noteq> None" "ab \<notin> set (ss_state s # map snd wakes)"
  shows "state_sync_wait_ms mutex_ok clock wakes (Some s) target timeout_ms =
      state_sync_wait_ms_abort mutex_ok clock wakes (Some s) target ab timeout_ms \<or>
    (\<exists>pre rc post. wakes = pre @ (rc, target) # post \<and> rc \<noteq> 0 \<and>
      state_sync_wait_ms mutex_ok clock wakes (Some s) target timeout_ms = Err ETIMEDOUT \<and>
      state_sync_wait_ms_abort mutex_ok clock wakes (Some s) target ab timeout_ms = Ok 0)"
proof -
  have u: "unlock_rc mutex_ok = 0" by (simp add: mutex_ok_def)
  have "state_sync_wait_ms mutex_ok clock wakes (Some s) target timeout_ms =
      timed_wait_loop target mutex_ok wakes (ss_state s)"
    using assms(1) by (auto simp: state_sync_wait_ms_def mutex_ok_def)
  moreover have "state_sync_wait_ms_abort mutex_ok clock wakes (Some s) target ab timeout_ms =
      abort_wait_loop target ab mutex_ok wakes (ss_state s)"
    using assms by (auto simp: state_sync_wait_ms_abort_def mutex_ok_def abort_wait_loop.simps)
  ultimately show ?thesis using timed_vs_abort[OF u assms(2), of target] by simp
qed

theorem state_sync_wait_ms_expiry_witness:
  "state_sync_wait_ms mutex_ok (Some clock_demo) [(110, 2)] (Some \<lparr>ss_state = 0\<rparr>) 2 500 = Err ETIMEDOUT \<and>
   state_sync_wait_ms_abort mutex_ok (Some clock_demo) [(110, 2)] (Some \<lparr>ss_state = 0\<rparr>) 2 3 500 = Ok 0"
proof -
  let ?a = "state_sync_wait_ms mutex_ok (Some clock_demo) [(110, 2)] (Some \<lparr>ss_state = 0\<rparr>) 2 500"
  have dl: "ss_deadline (Some clock_demo) 500 \<noteq> None"
    by (simp add: ss_deadline_def state_sync_timespec_add_ms_def clock_demo_def)
  have "?a = Err ETIMEDOUT"
    using dl by (auto simp: state_sync_wait_ms_def mutex_ok_def timed_wait_loop.simps)
  moreover have "state_sync_wait_ms_abort mutex_ok (Some clock_demo) [(110, 2)] (Some \<lparr>ss_state = 0\<rparr>) 2 3 500 = Ok 0"
    using state_sync_wait_ms_expiry[OF dl, of 3 "\<lparr>ss_state = 0\<rparr>" "[(110, 2)]" 2] dl calculation
    by (auto simp: state_sync_wait_ms_abort_def mutex_ok_def abort_wait_loop.simps)
  ultimately show ?thesis by simp
qed

text \<open>
  C26. No lost wake-up on the shared state. Whatever sequence of sets and waits, a thread that is
  asleep waits for something that does not hold now: \<^verbatim>\<open>state_sync_set\<close>
  broadcasts whenever the change could release a waiter, although it stays silent when the
  state does not change.
\<close>

theorem state_sync_no_lost_wakeup:
  assumes "mon_run ss_blocked ss_op s evs = (s', sleepers)" and "w \<in> set sleepers"
  shows "ss_blocked w s'"
  using assms by (rule ssm.no_lost_wakeup)

theorem state_sync_no_lost_wakeup_witness:
  "snd (mon_run ss_blocked ss_op \<lparr>ss_state = 0\<rparr> [MWait (WaitFor 2), MOp 1, MWait (WaitWhile 1)]) = [WaitWhile 1] \<and>
   ss_blocked (WaitWhile 1) (fst (mon_run ss_blocked ss_op \<lparr>ss_state = 0\<rparr>
     [MWait (WaitFor 2), MOp 1, MWait (WaitWhile 1)]))"
proof -
  let ?r = "mon_run ss_blocked ss_op \<lparr>ss_state = 0\<rparr> [MWait (WaitFor 2), MOp 1, MWait (WaitWhile 1)]"
  have "snd ?r = [WaitWhile 1]"
    by (simp add: mon_run_def ss_op_def state_sync_set_def mutex_ok_def)
  moreover have "?r = (fst ?r, snd ?r)" by simp
  ultimately show ?thesis using state_sync_no_lost_wakeup[of _ _ "fst ?r" "snd ?r" "WaitWhile 1"] by force
qed

text \<open>
  C27. The latch. Increments and decrements below the wrap keep the value the initial one plus the
  increments minus the decrements; a thread waiting for zero never sleeps while the value is
  zero, because the decrement to zero broadcasts; and one decrement too many aborts the
  process rather than wrap.
\<close>

lemma cnt_value_step:
  "cnt_op_step x c = Some (c', b) \<Longrightarrow>
   int (unat (cs_value c')) = int (unat (cs_value c)) + (if x = CInc then 1 else -1)"
proof (cases x)
  case CInc
  assume st: "cnt_op_step x c = Some (c', b)"
  then have ne: "cs_value c \<noteq> - 1" and c': "cs_value c' = cs_value c + 1"
    using CInc by (auto simp: cnt_sync_inc_def split: if_splits)
  have "1 + cs_value c \<noteq> 0" using ne by (metis add_eq_0_iff)
  then have "unat (1 + cs_value c) = Suc (unat (cs_value c))" by (rule unatSuc)
  then show ?thesis using CInc c' by (simp add: add.commute)
next
  case CDec
  assume st: "cnt_op_step x c = Some (c', b)"
  then have ne: "cs_value c \<noteq> 0" and c': "cs_value c' = cs_value c - 1"
    using CDec by (auto simp: cnt_sync_dec_def mutex_ok_def Let_def split: if_splits)
  have "unat (cs_value c - 1) = unat (cs_value c) - 1" using ne by (rule unat_minus_one)
  moreover have "0 < unat (cs_value c)" using ne by (simp add: unat_gt_0)
  ultimately show ?thesis using CDec c' by simp
qed



text \<open>
  Deadlines. The deadline of a timed wait is the clock plus the timeout to the nanosecond, is
  normalised, and does not overflow as long as the seconds leave room for the carry; the
  overflow guard alone, which compares the seconds without the carry, accepts a clock for
  which the carry exceeds the range of \<^verbatim>\<open>time_t\<close>.
\<close>

theorem state_sync_deadline_exact:
  assumes "timespec_ok ts"
  shows "(tv_sec ts + uint ms div 1000 < INT64_MAX \<longrightarrow>
      (\<exists>ts'. state_sync_timespec_add_ms ts ms = (ts', Ok 0) \<and> timespec_ok ts' \<and>
        tv_sec ts' \<le> INT64_MAX \<and> timespec_ns ts' = timespec_ns ts + uint ms * 1000000)) \<and>
    (INT64_MAX < tv_sec ts + uint ms div 1000 \<longrightarrow> state_sync_timespec_add_ms ts ms = (ts, Err EINVAL)) \<and>
    (\<exists>ts'. state_sync_timespec_add_ms \<lparr>tv_sec = INT64_MAX, tv_nsec = 999999999\<rparr> 1 = (ts', Ok 0) \<and>
      INT64_MAX < tv_sec ts')"
  using timespec_add_ms_ok[OF assms]
  by (auto simp: state_sync_timespec_add_ms_def)

theorem state_sync_deadline_exact_witness:
  "\<exists>ts'. state_sync_timespec_add_ms clock_demo 1500 = (ts', Ok 0) \<and> timespec_ok ts' \<and>
    timespec_ns ts' = timespec_ns clock_demo + 1500000000"
  using state_sync_deadline_exact[of clock_demo 1500]
  by (auto simp: clock_demo_def timespec_ok_def)

end
