(* ===== verification/Data_Send.thy ===== *)
theory Data_Send
  imports Data_Path Sync_Prims
begin

text \<open>
  The sending half of the data path: \<^verbatim>\<open>thread_pkt_data_send\<close> of both programs
  (\<^verbatim>\<open>threads.c\<close>), which read packets off the tunnel device and hand them to the
  transport, and the event through which the transport returns the buffers. The loops of all four
  threads are here too.
\<close>

section \<open>State\<close>

text \<open>
  Besides the pool and the buffers, the datagrams handed over (connection and bytes), and the
  buffers the transport has and will return.
\<close>

record spath =
  sp_mem :: pmem
  sp_pkt :: "nat \<Rightarrow> pkt_data_t"
  sp_sent :: "(nat option \<times> bytes) list"
  sp_flight :: "nat list"

text \<open>What one pass of a sending thread meets: the wait for the two descriptors, the pool's waits and
  allocations, the read, and what the transport answers.\<close>

datatype poll_result = PollErr int | PollReady bool bool

record send_env =
  se_poll :: poll_result
  se_waits :: "(int \<times> (pmem \<Rightarrow> pmem)) list"
  se_pool :: pool_os
  se_read :: "int + bytes"
  se_msquic :: bool
  se_api :: bool
  se_send :: bool

definition sp_put :: "nat \<Rightarrow> loop_next \<Rightarrow> spath \<Rightarrow> spath \<times> loop_next cres" where
  "sp_put pkt nxt s =
     (case pool_put mutex_ok 0 (Some pkt) (sp_mem s) of
        (m, Ok _) \<Rightarrow> (s\<lparr>sp_mem := m\<rparr>, Ok nxt) | (m, _) \<Rightarrow> (s\<lparr>sp_mem := m\<rparr>, Abort))"

text \<open>The bytes \<^verbatim>\<open>read\<close> placed in the buffer, at most its size.\<close>

definition sp_fill :: "nat \<Rightarrow> bytes \<Rightarrow> spath \<Rightarrow> spath" where
  "sp_fill pkt d s =
     s\<lparr>sp_pkt := (sp_pkt s)(pkt := (sp_pkt s pkt)\<lparr>pd_data := d @ drop (length d) (pd_data (sp_pkt s pkt))\<rparr>)\<rparr>"

text \<open>The call of \<^verbatim>\<open>DatagramSend\<close>: the transport sends what the descriptor in the buffer
  says; after a failure the buffer goes back at once.\<close>

definition sp_send :: "bool \<Rightarrow> nat option \<Rightarrow> nat \<Rightarrow> nat \<Rightarrow> spath \<Rightarrow> spath \<times> loop_next cres" where
  "sp_send ok handle pkt len s =
     (let s1 = s\<lparr>sp_pkt := (sp_pkt s)(pkt := (sp_pkt s pkt)\<lparr>buf_Buffer := Some pkt, buf_Length := of_nat len\<rparr>)\<rparr> in
      if \<not> ok then sp_put pkt Continue s1
      else (s1\<lparr>sp_sent := sp_sent s1 @
                 [(handle, take (unat (buf_Length (sp_pkt s1 pkt))) (pd_data (sp_pkt s1 pkt)))],
               sp_flight := pkt # sp_flight s1\<rparr>, Ok Continue))"

section \<open>The sending threads\<close>

text \<open>
  The server finds the client by the destination address. A pool that returns no buffer is a null
  pointer that is used; a context that is not there keeps the buffer out of the pool.
\<close>

definition server_send_pkt ::
  "send_env \<Rightarrow> ip_pool_t \<Rightarrow> (nat \<Rightarrow> client_t) \<Rightarrow> nat \<Rightarrow> spath \<Rightarrow> spath \<times> loop_next cres" where
  "server_send_pkt env ips clients pkt s =
     (case se_read env of
        Inl e \<Rightarrow> sp_put pkt Leave s
      | Inr bs \<Rightarrow>
        let d = take DATAPKTBUF bs; s1 = sp_fill pkt d s; buf = pd_data (sp_pkt s1 pkt) in
        (case pkt_data_iphdr (Some buf) (int (length d)) True of
           Ok (src_addr, dest_addr) \<Rightarrow>
           (case ip_client_search (Some ips) dest_addr of
              None \<Rightarrow> sp_put pkt Continue s1
            | Some client \<Rightarrow>
              if pkt_data_print (Some buf) (length d) = Abort then (s1, Abort)
              else if \<not> se_msquic env then (s1, Ok Continue)
              else if \<not> se_api env then (s1, Ok Continue)
              else sp_send (se_send env) (ConnectionHandle (clients client)) pkt (length d) s1)
         | Err e \<Rightarrow> sp_put pkt Continue s1
         | _ \<Rightarrow> (s1, Abort)))"

text \<open>The client sends everything it reads to its one connection, once it is connected.\<close>

definition client_send_pkt ::
  "send_env \<Rightarrow> state_sync_t \<Rightarrow> nat option \<Rightarrow> nat \<Rightarrow> spath \<Rightarrow> spath \<times> loop_next cres" where
  "client_send_pkt env con_state handle pkt s =
     (case se_read env of
        Inl e \<Rightarrow> (s, Ok Continue)
      | Inr bs \<Rightarrow>
        let d = take DATAPKTBUF bs; s1 = sp_fill pkt d s; buf = pd_data (sp_pkt s1 pkt) in
        if pkt_data_print (Some buf) (length d) = Abort then (s1, Abort)
        else case state_sync_check mutex_ok (Some con_state) SESSION_CONNECTED of
          Ok connected \<Rightarrow>
            if \<not> connected then sp_put pkt Continue s1
            else if \<not> se_msquic env then (s1, Ok Continue)
            else if \<not> se_api env then (s1, Ok Continue)
            else sp_send (se_send env) handle pkt (length d) s1
        | _ \<Rightarrow> (s1, Abort))"

text \<open>One pass: the shutdown event is looked at before the device.\<close>

definition send_iter ::
  "send_env \<Rightarrow> nat \<Rightarrow> (nat \<Rightarrow> spath \<Rightarrow> spath \<times> loop_next cres) \<Rightarrow> spath \<Rightarrow> spath \<times> loop_next cres" where
  "send_iter env pid body s =
     (case se_poll env of
        PollErr e \<Rightarrow> (s, Ok (if e = EINTR then Continue else Leave))
      | PollReady tun shutdown \<Rightarrow>
        if shutdown then (s, Ok Leave)
        else if \<not> tun then (s, Ok Continue)
        else case pool_wait_get (se_waits env) (se_pool env) (Some pid) (sp_mem s) of
          (m, Ok pkt) \<Rightarrow> body pkt (s\<lparr>sp_mem := m\<rparr>)
        | (m, Block) \<Rightarrow> (s\<lparr>sp_mem := m\<rparr>, Block)
        | (m, _) \<Rightarrow> (s\<lparr>sp_mem := m\<rparr>, Abort))"

definition server_send_iter ::
  "send_env \<Rightarrow> nat \<Rightarrow> ip_pool_t \<Rightarrow> (nat \<Rightarrow> client_t) \<Rightarrow> spath \<Rightarrow> spath \<times> loop_next cres" where
  "server_send_iter env pid ips clients s = send_iter env pid (server_send_pkt env ips clients) s"

definition client_send_iter ::
  "send_env \<Rightarrow> nat \<Rightarrow> state_sync_t \<Rightarrow> nat option \<Rightarrow> spath \<Rightarrow> spath \<times> loop_next cres" where
  "client_send_iter env pid con_state handle s = send_iter env pid (client_send_pkt env con_state handle) s"

text \<open>
  The loops. A script gives for each pass the running flag as it is read and what the pass meets; at
  its end the thread is still running. A thread started before the device is ready returns at once.
\<close>

fun thread_loop :: "('e \<Rightarrow> 's \<Rightarrow> 's \<times> loop_next cres) \<Rightarrow> (bool \<times> 'e) list \<Rightarrow> 's \<Rightarrow> 's \<times> unit cres" where
  "thread_loop pass [] s = (s, Block)"
| "thread_loop pass ((running, env) # script) s =
     (if \<not> running then (s, Ok ())
      else case pass env s of
        (s', Ok Continue) \<Rightarrow> thread_loop pass script s'
      | (s', Ok Leave) \<Rightarrow> (s', Ok ())
      | (s', Err e) \<Rightarrow> (s', Err e)
      | (s', Block) \<Rightarrow> (s', Block)
      | (s', Abort) \<Rightarrow> (s', Abort))"

definition pkt_thread ::
  "state_sync_t \<Rightarrow> ('e \<Rightarrow> 's \<Rightarrow> 's \<times> loop_next cres) \<Rightarrow> (bool \<times> 'e) list \<Rightarrow> 's \<Rightarrow> 's \<times> unit cres" where
  "pkt_thread tun_state pass script s =
     (case state_sync_check mutex_ok (Some tun_state) TUN_READY of
        Ok ready \<Rightarrow> if \<not> ready then (s, Ok ()) else thread_loop pass script s
      | _ \<Rightarrow> (s, Abort))"

definition server_pkt_data_send ::
  "state_sync_t \<Rightarrow> nat \<Rightarrow> (nat \<Rightarrow> client_t) \<Rightarrow> (bool \<times> send_env \<times> ip_pool_t) list \<Rightarrow> spath \<Rightarrow> spath \<times> unit cres" where
  "server_pkt_data_send tun_state pid clients =
     pkt_thread tun_state (\<lambda>(env, ips) s. server_send_iter env pid ips clients s)"

definition client_pkt_data_send ::
  "state_sync_t \<Rightarrow> nat \<Rightarrow> nat option \<Rightarrow> (bool \<times> send_env \<times> state_sync_t) list \<Rightarrow> spath \<Rightarrow> spath \<times> unit cres" where
  "client_pkt_data_send tun_state pid handle =
     pkt_thread tun_state (\<lambda>(env, con_state) s. client_send_iter env pid con_state handle s)"

definition server_pkt_data_recv ::
  "state_sync_t \<Rightarrow> (bool \<times> bool \<times> bool \<times> ip_pool_t) list \<Rightarrow> dpath \<Rightarrow> dpath \<times> unit cres" where
  "server_pkt_data_recv tun_state =
     pkt_thread tun_state (\<lambda>(intr, write_ok, ips) s. server_recv_iter mutex_ok intr write_ok ips s)"

definition client_pkt_data_recv ::
  "state_sync_t \<Rightarrow> (bool \<times> bool \<times> bool) list \<Rightarrow> dpath \<Rightarrow> dpath \<times> unit cres" where
  "client_pkt_data_recv tun_state =
     pkt_thread tun_state (\<lambda>(intr, write_ok) s. client_recv_iter mutex_ok intr write_ok s)"

section \<open>Buffers returned by the transport\<close>

datatype datagram_send_state =
    QUIC_DATAGRAM_SEND_UNKNOWN | QUIC_DATAGRAM_SEND_SENT | QUIC_DATAGRAM_SEND_LOST_SUSPECT
  | QUIC_DATAGRAM_SEND_LOST_DISCARDED | QUIC_DATAGRAM_SEND_ACKNOWLEDGED
  | QUIC_DATAGRAM_SEND_ACKNOWLEDGED_SPURIOUS | QUIC_DATAGRAM_SEND_CANCELED

definition returns_buffer :: "datagram_send_state \<Rightarrow> bool" where
  "returns_buffer st \<longleftrightarrow> st = QUIC_DATAGRAM_SEND_SENT \<or> st = QUIC_DATAGRAM_SEND_CANCELED"

definition datagram_send_state_changed ::
  "nat option \<Rightarrow> datagram_send_state \<Rightarrow> spath \<Rightarrow> spath \<times> quic_status cres" where
  "datagram_send_state_changed pkt st s =
     (case pkt of None \<Rightarrow> (s, Ok QUIC_STATUS_SUCCESS)
      | Some p \<Rightarrow>
        if \<not> returns_buffer st then (s, Ok QUIC_STATUS_SUCCESS)
        else case pool_put mutex_ok 0 pkt (sp_mem s) of
          (m, Ok _) \<Rightarrow> (s\<lparr>sp_mem := m, sp_flight := remove1 p (sp_flight s)\<rparr>, Ok QUIC_STATUS_SUCCESS)
        | (m, _) \<Rightarrow> (s\<lparr>sp_mem := m\<rparr>, Abort))"

section \<open>Runs of a sending thread\<close>

text \<open>What a pass should send. The server: the packet read, when it is IPv4 and some client holds its
  destination, to the connection of that client. The client: the packet read, while its connection is up.\<close>

definition dest_addr :: "bytes \<Rightarrow> in_addr" where
  "dest_addr d = of_le_bytes (field 16 4 d)"

definition server_route :: "send_env \<Rightarrow> ip_pool_t \<Rightarrow> (nat \<Rightarrow> client_t) \<Rightarrow> (nat option \<times> bytes) list" where
  "server_route env ips clients =
     (case (se_poll env, se_read env) of
        (PollReady True False, Inr bs) \<Rightarrow>
          let d = take DATAPKTBUF bs in
          if ipv4_packet d \<and> se_send env then
            (case ip_client_search (Some ips) (dest_addr d) of
               None \<Rightarrow> [] | Some c \<Rightarrow> [(ConnectionHandle (clients c), d)])
          else []
      | _ \<Rightarrow> [])"

definition client_route :: "send_env \<Rightarrow> state_sync_t \<Rightarrow> nat option \<Rightarrow> (nat option \<times> bytes) list" where
  "client_route env con_state handle =
     (case (se_poll env, se_read env) of
        (PollReady True False, Inr bs) \<Rightarrow>
          if ss_state con_state = SESSION_CONNECTED \<and> se_send env then [(handle, take DATAPKTBUF bs)] else []
      | _ \<Rightarrow> [])"

text \<open>
  The thread's passes and the transport's events in any order; what a pass meets besides the packet, the addresses
  and clients of the server or the connection of the client, may change from pass to pass and is recorded with it. The pool
  is the program's, without a limit; the allocator finds memory, and the
  transport reports each buffer it has as sent or canceled once.
\<close>

definition send_env_ok :: "nat \<Rightarrow> send_env \<Rightarrow> pmem \<Rightarrow> bool" where
  "send_env_ok pid env m \<longleftrightarrow>
     pool_env_ok pid (se_pool env) m \<and> os_alloc (se_pool env) \<noteq> None \<and> se_msquic env \<and> se_api env"

type_synonym 'c send_body = "send_env \<Rightarrow> 'c \<Rightarrow> nat \<Rightarrow> spath \<Rightarrow> spath \<times> loop_next cres"

inductive sreach :: "'c send_body \<Rightarrow> nat \<Rightarrow> spath \<Rightarrow> (send_env \<times> 'c) list \<Rightarrow> bool" for body pid where
  sr_start: "pool_init (Some pid) 0 0 bs 0 m0 = (m, Ok pid) \<Longrightarrow> (\<And>v. length (pd_data (pkts v)) = DATAPKTBUF) \<Longrightarrow>
     sreach body pid \<lparr>sp_mem = m, sp_pkt = pkts, sp_sent = [], sp_flight = []\<rparr> []"
| sr_pass: "sreach body pid s tr \<Longrightarrow> send_env_ok pid env (sp_mem s) \<Longrightarrow>
     send_iter env pid (body env c) s = (s', r) \<Longrightarrow> sreach body pid s' (tr @ [(env, c)])"
| sr_event: "sreach body pid s tr \<Longrightarrow> pkt \<in> set (sp_flight s) \<Longrightarrow>
     datagram_send_state_changed (Some pkt) st s = (s', r) \<Longrightarrow> sreach body pid s' tr"

text \<open>The buffers out of the pool are those the transport has and those in \<open>K\<close>, which are lost.\<close>

definition spath_ok :: "nat \<Rightarrow> nat set \<Rightarrow> spath \<Rightarrow> bool" where
  "spath_ok pid K s \<longleftrightarrow>
     (\<forall>v. length (pd_data (sp_pkt s v)) = DATAPKTBUF) \<and> distinct (sp_flight s) \<and> set (sp_flight s) \<inter> K = {} \<and>
     pool_holds pid (sp_mem s) (set (sp_flight s) \<union> K) \<and> pool_limit pid (sp_mem s) = 0"

text \<open>Between the get and what becomes of the buffer.\<close>

definition taken :: "nat \<Rightarrow> nat set \<Rightarrow> nat \<Rightarrow> spath \<Rightarrow> bool" where
  "taken pid K pkt s \<longleftrightarrow>
     pool_holds pid (sp_mem s) (insert pkt (set (sp_flight s) \<union> K)) \<and> pkt \<notin> set (sp_flight s) \<union> K \<and>
     set (sp_flight s) \<inter> K = {} \<and> pool_limit pid (sp_mem s) = 0 \<and> distinct (sp_flight s) \<and>
     (\<forall>v. length (pd_data (sp_pkt s v)) = DATAPKTBUF)"

lemma pool_put_held_limit:
  assumes "pool_holds pid m P" "pkt \<in> P"
  shows "\<exists>m'. pool_put mutex_ok 0 (Some pkt) m = (m', Ok ()) \<and> pool_holds pid m' (P - {pkt}) \<and>
    pool_limit pid m' = pool_limit pid m"
proof -
  obtain m' where "pool_put_step pkt m = Some m'" "pool_holds pid m' (P - {pkt})" "pool_limit pid m' = pool_limit pid m"
    using mp.put_held[OF assms] by blast
  then show ?thesis by (auto simp: pool_put_step_def split: prod.splits cres.splits)
qed

text \<open>A get that need not wait.\<close>

lemma pool_wait_get_unlimited:
  assumes "pool_holds pid m P" "pool_limit pid m = 0" "pool_env_ok pid os m" "os_alloc os \<noteq> None"
  shows "\<exists>m' pkt. pool_wait_get waits os (Some pid) m = (m', Ok pkt) \<and> pkt \<notin> P \<and>
    pool_holds pid m' (insert pkt P) \<and> pool_limit pid m' = 0"
proof -
  obtain U where "pool_inv pid 0 U m" using assms(1) by (auto simp: pool_holds_def)
  then have "snd (pool_reserve pid m) \<noteq> Exhausted"
    by (cases rule: pool_reserve_cases) (use assms(2) in auto)
  then have "pool_wait_get waits os (Some pid) m = pool_try_get os (Some pid) m"
    by (cases "pool_reserve pid m") (auto simp: pool_wait_get_def pool_try_get_def pool_wait_loop.simps[of waits] split: reserve.split)
  then show ?thesis using pool_try_get_spec[OF assms(1,3)] assms(2,4)
    by (cases "pool_try_get os (Some pid) m"; cases "snd (pool_try_get os (Some pid) m)") auto
qed

lemma taken_put:
  assumes "taken pid K pkt s"
  shows "\<exists>s'. sp_put pkt nxt s = (s', Ok nxt) \<and> spath_ok pid K s' \<and> sp_sent s' = sp_sent s"
proof -
  have "insert pkt (set (sp_flight s) \<union> K) - {pkt} = set (sp_flight s) \<union> K" using assms by (auto simp: taken_def)
  then obtain m where "pool_put mutex_ok 0 (Some pkt) (sp_mem s) = (m, Ok ())" "pool_holds pid m (set (sp_flight s) \<union> K)"
    "pool_limit pid m = 0"
    using pool_put_held_limit[of pid "sp_mem s" "insert pkt (set (sp_flight s) \<union> K)" pkt] assms by (auto simp: taken_def)
  then show ?thesis using assms by (auto simp: sp_put_def spath_ok_def taken_def)
qed

lemma taken_lost: "taken pid K pkt s \<Longrightarrow> spath_ok pid (insert pkt K) s"
  by (auto simp: taken_def spath_ok_def)

lemma sp_fill_taken:
  assumes "taken pid K pkt s" "length d \<le> DATAPKTBUF"
  shows "taken pid K pkt (sp_fill pkt d s) \<and> take (length d) (pd_data (sp_pkt (sp_fill pkt d s) pkt)) = d \<and>
    sp_sent (sp_fill pkt d s) = sp_sent s"
  using assms by (auto simp: taken_def sp_fill_def)

lemma taken_send:
  assumes t: "taken pid K pkt s" and d: "take (length d) (pd_data (sp_pkt s pkt)) = d" "length d \<le> DATAPKTBUF"
  shows "\<exists>s'. sp_send ok handle pkt (length d) s = (s', Ok Continue) \<and> spath_ok pid K s' \<and>
    sp_sent s' = sp_sent s @ (if ok then [(handle, d)] else [])"
proof (cases ok)
  case True
  have "unat (of_nat (length d) :: u32) = length d" using d(2) by (simp add: unsigned_of_nat take_bit_nat_eq_self)
  then show ?thesis using True t d by (auto simp: sp_send_def spath_ok_def taken_def Let_def)
next
  case False
  let ?s1 = "s\<lparr>sp_pkt := (sp_pkt s)(pkt := (sp_pkt s pkt)\<lparr>buf_Buffer := Some pkt, buf_Length := of_nat (length d)\<rparr>)\<rparr>"
  have "taken pid K pkt ?s1" using t by (auto simp: taken_def)
  from taken_put[OF this, of Continue] show ?thesis using False by (auto simp: sp_send_def Let_def)
qed

lemma send_state_ok:
  assumes "spath_ok pid K s" "pkt \<in> set (sp_flight s)"
  shows "\<exists>s'. datagram_send_state_changed (Some pkt) st s = (s', Ok QUIC_STATUS_SUCCESS) \<and> spath_ok pid K s' \<and>
    sp_sent s' = sp_sent s \<and> sp_flight s' = (if returns_buffer st then remove1 pkt (sp_flight s) else sp_flight s)"
proof -
  have "pkt \<notin> K" using assms by (auto simp: spath_ok_def)
  then have "set (sp_flight s) \<union> K - {pkt} = (set (sp_flight s) - {pkt}) \<union> K" by auto
  then obtain m where "pool_put mutex_ok 0 (Some pkt) (sp_mem s) = (m, Ok ())"
    "pool_holds pid m ((set (sp_flight s) - {pkt}) \<union> K)" "pool_limit pid m = 0"
    using pool_put_held_limit[of pid "sp_mem s" "set (sp_flight s) \<union> K" pkt] assms by (auto simp: spath_ok_def)
  then show ?thesis using assms by (auto simp: datagram_send_state_changed_def spath_ok_def)
qed

section \<open>What a sending thread promises\<close>

text \<open>
  Both programs put their own handling of a packet into the same loop. It takes a buffer with it and ends
  with the buffer at the transport, back in the pool or, when the pass \<open>leaks\<close>, lost; it hands over what \<open>route\<close>
  says. Then so does the whole thread, for any interleaving with the transport.
\<close>

definition lossy :: "(send_env \<Rightarrow> bool) \<Rightarrow> (send_env \<times> 'c) list \<Rightarrow> nat" where
  "lossy leaks tr = length (filter (\<lambda>(env, c). se_poll env = PollReady True False \<and> leaks env) tr)"

locale sending_thread =
  fixes body :: "'c send_body" and route :: "send_env \<Rightarrow> 'c \<Rightarrow> (nat option \<times> bytes) list" and leaks :: "send_env \<Rightarrow> bool"
  assumes body_ok: "taken pid K pkt s \<Longrightarrow> se_msquic env \<Longrightarrow> se_api env \<Longrightarrow> se_poll env = PollReady True False \<Longrightarrow>
      \<exists>s' nxt. body env c pkt s = (s', Ok nxt) \<and> spath_ok pid (if leaks env then insert pkt K else K) s' \<and>
        sp_sent s' = sp_sent s @ route env c"
    and route_idle: "se_poll env \<noteq> PollReady True False \<Longrightarrow> route env c = []"
begin

lemma iter_ok:
  assumes s: "spath_ok pid K s" "send_env_ok pid env (sp_mem s)" and K: "finite K"
  shows "\<exists>s' nxt K'. send_iter env pid (body env c) s = (s', Ok nxt) \<and> spath_ok pid K' s' \<and> finite K' \<and>
    card K' = card K + lossy leaks [(env, c)] \<and> sp_sent s' = sp_sent s @ route env c"
proof (cases "se_poll env = PollReady True False")
  case True
  obtain m pkt where g: "pool_wait_get (se_waits env) (se_pool env) (Some pid) (sp_mem s) = (m, Ok pkt)"
    "pkt \<notin> set (sp_flight s) \<union> K" "pool_holds pid m (insert pkt (set (sp_flight s) \<union> K))" "pool_limit pid m = 0"
    using pool_wait_get_unlimited[of pid "sp_mem s" "set (sp_flight s) \<union> K" "se_pool env" "se_waits env"] s
    by (auto simp: spath_ok_def send_env_ok_def)
  then have "taken pid K pkt (s\<lparr>sp_mem := m\<rparr>)" using s(1) by (simp add: taken_def spath_ok_def)
  then obtain s' nxt where b: "body env c pkt (s\<lparr>sp_mem := m\<rparr>) = (s', Ok nxt)"
    "spath_ok pid (if leaks env then insert pkt K else K) s'" "sp_sent s' = sp_sent s @ route env c"
    using body_ok[of pid K pkt "s\<lparr>sp_mem := m\<rparr>" env c] True s(2) by (auto simp: send_env_ok_def)
  have "card (if leaks env then insert pkt K else K) = card K + lossy leaks [(env, c)]"
    using g(2) K True by (simp add: lossy_def)
  then show ?thesis using b g(1) True K
    by (intro exI[of _ s'] exI[of _ nxt] exI[of _ "if leaks env then insert pkt K else K"]) (simp add: send_iter_def)
next
  case False
  then have "\<exists>nxt. send_iter env pid (body env c) s = (s, Ok nxt)" by (cases "se_poll env") (auto simp: send_iter_def)
  moreover have "lossy leaks [(env, c)] = 0" using False by (auto simp: lossy_def)
  ultimately show ?thesis using s(1) K route_idle[OF False, of c] by (metis add_0_right append_Nil2)
qed

lemma reach_ok:
  "sreach body pid s tr \<Longrightarrow> \<exists>K. spath_ok pid K s \<and> finite K \<and> card K = lossy leaks tr \<and>
     sp_sent s = concat (map (\<lambda>(env, c). route env c) tr)"
proof (induction rule: sreach.induct)
  case (sr_start bs m0 m pkts)
  then show ?case using pool_init_inv[OF sr_start(1)] by (intro exI[of _ "{}"]) (auto simp: spath_ok_def pool_holds_def lossy_def)
next
  case (sr_pass s tr env c s' r)
  then obtain K where K: "spath_ok pid K s" "finite K" "card K = lossy leaks tr"
    "sp_sent s = concat (map (\<lambda>(env, c). route env c) tr)" by blast
  from iter_ok[OF K(1) sr_pass.hyps(2) K(2), of c] obtain K' where "spath_ok pid K' s'" "finite K'"
    "card K' = lossy leaks tr + lossy leaks [(env, c)]" "sp_sent s' = sp_sent s @ route env c" using K(3) sr_pass.hyps(3) by auto
  then show ?case using K(4) by (intro exI[of _ K']) (simp add: lossy_def)
next
  case (sr_event s tr pkt st s' r)
  then show ?case using send_state_ok by (metis prod.inject)
qed

end

section \<open>The server's sending thread\<close>

definition server_body :: "(ip_pool_t \<times> (nat \<Rightarrow> client_t)) send_body" where
  "server_body env c = server_send_pkt env (fst c) (snd c)"

lemma server_body_iter: "send_iter env pid (server_body env (ips, clients)) s = server_send_iter env pid ips clients s"
  by (simp add: server_send_iter_def server_body_def)

lemma server_send_pkt_ok:
  assumes t: "taken pid K pkt s" and env: "se_msquic env" "se_api env" "se_poll env = PollReady True False"
  shows "\<exists>s' nxt. server_send_pkt env ips clients pkt s = (s', Ok nxt) \<and> spath_ok pid K s' \<and>
    sp_sent s' = sp_sent s @ server_route env ips clients"
proof (cases "se_read env")
  case (Inl e)
  then show ?thesis using taken_put[OF t, of Leave] env(3) by (auto simp: server_send_pkt_def server_route_def)
next
  case (Inr bs)
  define d where "d = take DATAPKTBUF bs"
  define s1 where "s1 = sp_fill pkt d s"
  define buf where "buf = pd_data (sp_pkt s1 pkt)"
  have len: "length d \<le> DATAPKTBUF" by (simp add: d_def)
  have f: "taken pid K pkt s1" "take (length d) buf = d" "sp_sent s1 = sp_sent s"
    using sp_fill_taken[OF t len] by (auto simp: s1_def buf_def)
  have le: "length d \<le> length buf" by (metis f(2) length_take min.cobounded1)
  have "field 16 4 (take (length d) buf) = field 16 4 buf" if "ipv4_packet d"
    using that by (auto simp: field_def ipv4_packet_def drop_take min_def)
  then have dst: "of_le_bytes (field 16 4 buf) = dest_addr d" if "ipv4_packet d"
    using that f(2) by (simp add: dest_addr_def)
  have pr: "pkt_data_print (Some buf) (length d) \<noteq> Abort" using pkt_data_print_total[OF le] by auto
  have body: "server_send_pkt env ips clients pkt s =
      (if ipv4_packet d then case ip_client_search (Some ips) (dest_addr d) of
           None \<Rightarrow> sp_put pkt Continue s1
         | Some c \<Rightarrow> sp_send (se_send env) (ConnectionHandle (clients c)) pkt (length d) s1
       else sp_put pkt Continue s1)"
    using Inr env pr dst
    by (simp add: server_send_pkt_def Let_def pkt_data_iphdr_eq[OF le, unfolded f(2)] split: option.split
        flip: d_def s1_def buf_def)
  note send = taken_send[OF f(1) f(2)[unfolded buf_def] len, unfolded f(3)]
  have route: "server_route env ips clients =
      (if ipv4_packet d \<and> se_send env then case ip_client_search (Some ips) (dest_addr d) of
         None \<Rightarrow> [] | Some c \<Rightarrow> [(ConnectionHandle (clients c), d)] else [])"
    using Inr env(3) by (simp add: server_route_def Let_def flip: d_def)
  show ?thesis
  proof (cases "ipv4_packet d \<and> ip_client_search (Some ips) (dest_addr d) \<noteq> None")
    case True
    then obtain c where c: "ip_client_search (Some ips) (dest_addr d) = Some c" by auto
    show ?thesis unfolding body route using send[of "se_send env" "ConnectionHandle (clients c)"] True c
      by (cases "se_send env") auto
  next
    case False
    then show ?thesis unfolding body route using taken_put[OF f(1), of Continue] f(3) by auto
  qed
qed

interpretation srv: sending_thread server_body "\<lambda>env c. server_route env (fst c) (snd c)" "\<lambda>env. False"
proof
  fix pid K pkt s c and env :: send_env
  assume "taken pid K pkt s" "se_msquic env" "se_api env" "se_poll env = PollReady True False"
  then show "\<exists>s' nxt. server_body env c pkt s = (s', Ok nxt) \<and> spath_ok pid (if False then insert pkt K else K) s' \<and>
      sp_sent s' = sp_sent s @ server_route env (fst c) (snd c)"
    using server_send_pkt_ok[of pid K pkt s env "fst c" "snd c"] by (simp add: server_body_def)
next
  fix env :: send_env and c :: "ip_pool_t \<times> (nat \<Rightarrow> client_t)"
  assume "se_poll env \<noteq> PollReady True False"
  then show "server_route env (fst c) (snd c) = []"
    by (cases "se_poll env") (auto simp: server_route_def split: sum.split bool.split)
qed

lemma server_reach_ok:
  assumes "sreach server_body pid s tr"
  shows "spath_ok pid {} s" "sp_sent s = concat (map (\<lambda>(env, ips, clients). server_route env ips clients) tr)"
proof -
  obtain K where K: "spath_ok pid K s" "finite K" "card K = lossy (\<lambda>env. False) tr"
    "sp_sent s = concat (map (\<lambda>(env, c). server_route env (fst c) (snd c)) tr)" using srv.reach_ok[OF assms] by blast
  have "K = {}" using K(2,3) by (simp add: lossy_def case_prod_unfold)
  then show "spath_ok pid {} s" using K(1) by simp
  have "(\<lambda>(env, c). server_route env (fst c) (snd c)) = (\<lambda>(env, ips, clients). server_route env ips clients)" by (simp add: fun_eq_iff)
  then show "sp_sent s = concat (map (\<lambda>(env, ips, clients). server_route env ips clients) tr)" using K(4) by simp
qed

text \<open>
  C6. The server's sending path. Let passes of the sending thread and reports of the transport come
  in any order, with any packets, while addresses and clients change. The datagrams handed over are
  exactly the IPv4 packets read whose destination a client holds, in order, each to the connection of
  that client. The buffers out of the pool are exactly those the transport has, none twice; no pass
  aborts or waits, and every report is taken, so the transport's buffers all return.
\<close>

theorem server_send_routed:
  assumes "sreach server_body pid s tr"
  defines "out \<equiv> concat (map (\<lambda>(env, ips, clients). server_route env ips clients) tr)"
  shows "sp_sent s = out \<and> distinct (sp_flight s) \<and> pool_holds pid (sp_mem s) (set (sp_flight s)) \<and>
    (\<forall>env ips clients. send_env_ok pid env (sp_mem s) \<longrightarrow>
       (\<exists>s' nxt. server_send_iter env pid ips clients s = (s', Ok nxt) \<and>
          sp_sent s' = out @ server_route env ips clients)) \<and>
    (\<forall>pkt\<in>set (sp_flight s). \<forall>st. \<exists>s'. datagram_send_state_changed (Some pkt) st s = (s', Ok QUIC_STATUS_SUCCESS) \<and>
       sp_flight s' = (if returns_buffer st then remove1 pkt (sp_flight s) else sp_flight s))"
proof -
  have ok: "spath_ok pid {} s" "sp_sent s = out" using server_reach_ok[OF assms(1)] by (simp_all add: out_def)
  then have "distinct (sp_flight s)" "pool_holds pid (sp_mem s) (set (sp_flight s))" by (auto simp: spath_ok_def)
  moreover have "\<exists>s' nxt. server_send_iter env pid ips clients s = (s', Ok nxt) \<and>
      sp_sent s' = out @ server_route env ips clients" if "send_env_ok pid env (sp_mem s)" for env ips clients
    using srv.iter_ok[OF ok(1) that, of "(ips, clients)"] ok(2) by (auto simp: server_body_iter)
  ultimately show ?thesis using send_state_ok[OF ok(1)] ok(2) by blast
qed

text \<open>A packet for the first address of the subnet, which a client holds.\<close>

definition demo_reply :: bytes where
  "demo_reply = [0x45] @ replicate 11 0 @ [8, 8, 8, 8, 10, 0, 0, 2]"

definition demo_send_env :: send_env where
  "demo_send_env = \<lparr>se_poll = PollReady True False, se_waits = [], se_pool = pool_os_ok (Some 64), se_read = Inr demo_reply,
     se_msquic = True, se_api = True, se_send = True\<rparr>"

definition demo_ips :: ip_pool_t where
  "demo_ips = (case ip_pool_create True True (Some (demo_tun 0x0100000A 0xF8FFFFFF)) of
     Some pool \<Rightarrow> fst (ip_acquire pool (Some 80))
   | None \<Rightarrow> \<lparr>net_addr = 0, netmask = 0, server_ip = 0, ip_entry = [], max_clients = 0, next_idx = 0\<rparr>)"

definition demo_clients :: "nat \<Rightarrow> client_t" where
  "demo_clients = (\<lambda>c. \<lparr>ConnectionHandle = Some 5, c_uid = 1, slot_idx = 0, c_entry = Some 2\<rparr>)"

lemma demo_ips_facts:
  "net_addr demo_ips = 0x0000000A \<and> max_clients demo_ips = 8 \<and> used (ip_entry demo_ips ! 2) \<and>
   e_ip (ip_entry demo_ips ! 2) = 0x0200000A \<and> e_client (ip_entry demo_ips ! 2) = Some 80"
proof -
  have "case Some demo_ips of None \<Rightarrow> False | Some p \<Rightarrow>
      net_addr p = 0x0000000A \<and> max_clients p = 8 \<and>
      (case ip_entry p ! 2 of e \<Rightarrow> used e \<and> e_ip e = 0x0200000A \<and> e_client e = Some 80)" by code_simp
  then show ?thesis by simp
qed

lemma demo_ntohl: "ntohl 0x0000000A = 0x0A000000" "ntohl 0x0200000A = 0x0A000002"
  by code_simp+

lemma demo_ips_lease: "ip_client_search (Some demo_ips) 0x0200000A = Some 80"
  by (simp add: ip_client_search_def demo_ips_facts demo_ntohl Let_def)

lemma demo_reply_facts: "ipv4_packet demo_reply" "dest_addr demo_reply = 0x0200000A" "take DATAPKTBUF demo_reply = demo_reply"
proof -
  show "ipv4_packet demo_reply" "dest_addr demo_reply = 0x0200000A" by code_simp+
  show "take DATAPKTBUF demo_reply = demo_reply" by (simp add: demo_reply_def)
qed

theorem server_send_routed_witness:
  "\<exists>s. sreach server_body 7 s [] \<and>
     sp_sent (fst (server_send_iter demo_send_env 7 demo_ips demo_clients s)) = [(Some 5, demo_reply)]"
proof -
  let ?s = "\<lparr>sp_mem = pmem_fresh 0, sp_pkt = d_pkt demo_dpath, sp_sent = [], sp_flight = []\<rparr>"
  have r: "sreach server_body 7 ?s []" by (rule sr_start[OF pmem_fresh_init]) (simp add: demo_dpath_def)
  have "send_env_ok 7 demo_send_env (sp_mem ?s)"
    by (simp add: send_env_ok_def demo_send_env_def pool_env_ok_def pool_os_ok_def pmem_fresh_def)
  then have "\<exists>s' nxt. server_send_iter demo_send_env 7 demo_ips demo_clients ?s = (s', Ok nxt) \<and>
      sp_sent s' = [] @ server_route demo_send_env demo_ips demo_clients"
    using server_send_routed[OF r] by simp
  moreover have "server_route demo_send_env demo_ips demo_clients = [(Some 5, demo_reply)]"
    using demo_ips_lease demo_reply_facts by (simp add: server_route_def demo_send_env_def demo_clients_def)
  ultimately have "sp_sent (fst (server_send_iter demo_send_env 7 demo_ips demo_clients ?s)) = [(Some 5, demo_reply)]"
    by auto
  then show ?thesis using r by blast
qed

section \<open>The client's sending thread\<close>

text \<open>A failed read leaves the buffer out of the pool although the transport never had it.\<close>

definition client_body :: "(state_sync_t \<times> nat option) send_body" where
  "client_body env c = client_send_pkt env (fst c) (snd c)"

definition read_failed :: "send_env \<Rightarrow> bool" where
  "read_failed env \<longleftrightarrow> (case se_read env of Inl _ \<Rightarrow> True | Inr _ \<Rightarrow> False)"

lemma client_body_iter: "send_iter env pid (client_body env (con_state, handle)) s = client_send_iter env pid con_state handle s"
  by (simp add: client_send_iter_def client_body_def)

lemma client_send_pkt_ok:
  assumes t: "taken pid K pkt s" and env: "se_msquic env" "se_api env" "se_poll env = PollReady True False"
  shows "\<exists>s' nxt. client_send_pkt env con_state handle pkt s = (s', Ok nxt) \<and>
    spath_ok pid (if read_failed env then insert pkt K else K) s' \<and> sp_sent s' = sp_sent s @ client_route env con_state handle"
proof (cases "se_read env")
  case (Inl e)
  then show ?thesis using taken_lost[OF t] env(3) by (auto simp: client_send_pkt_def client_route_def read_failed_def)
next
  case (Inr bs)
  define d where "d = take DATAPKTBUF bs"
  define s1 where "s1 = sp_fill pkt d s"
  have len: "length d \<le> DATAPKTBUF" by (simp add: d_def)
  have f: "taken pid K pkt s1" "take (length d) (pd_data (sp_pkt s1 pkt)) = d" "sp_sent s1 = sp_sent s"
    using sp_fill_taken[OF t len] by (auto simp: s1_def)
  have le: "length d \<le> length (pd_data (sp_pkt s1 pkt))" by (metis f(2) length_take min.cobounded1)
  have "pkt_data_print (Some (pd_data (sp_pkt s1 pkt))) (length d) \<noteq> Abort" using pkt_data_print_total[OF le] by auto
  then have body: "client_send_pkt env con_state handle pkt s =
      (if ss_state con_state = SESSION_CONNECTED then sp_send (se_send env) handle pkt (length d) s1 else sp_put pkt Continue s1)"
    using Inr env by (simp add: client_send_pkt_def Let_def state_sync_check_def mutex_ok_def flip: d_def s1_def)
  note send = taken_send[OF f(1,2) len, unfolded f(3), of "se_send env" handle]
  show ?thesis using send taken_put[OF f(1), of Continue] f(3) Inr env(3)
    by (auto simp: body client_route_def read_failed_def d_def)
qed

interpretation cli: sending_thread client_body "\<lambda>env c. client_route env (fst c) (snd c)" read_failed
proof
  fix pid K pkt s c and env :: send_env
  assume "taken pid K pkt s" "se_msquic env" "se_api env" "se_poll env = PollReady True False"
  then show "\<exists>s' nxt. client_body env c pkt s = (s', Ok nxt) \<and> spath_ok pid (if read_failed env then insert pkt K else K) s' \<and>
      sp_sent s' = sp_sent s @ client_route env (fst c) (snd c)"
    using client_send_pkt_ok[of pid K pkt s env "fst c" "snd c"] by (simp add: client_body_def)
next
  fix env :: send_env and c :: "state_sync_t \<times> nat option"
  assume "se_poll env \<noteq> PollReady True False"
  then show "client_route env (fst c) (snd c) = []"
    by (cases "se_poll env") (auto simp: client_route_def split: sum.split bool.split)
qed

text \<open>The client's sending path, in the same sense as the server's: it sends every packet it reads while its connection is
  up, in order and once; the buffers out of the pool are those the transport has and one for every read that failed.\<close>

lemma client_send_exact:
  assumes "sreach client_body pid s tr"
  shows "sp_sent s = concat (map (\<lambda>(env, con_state, handle). client_route env con_state handle) tr) \<and>
    (\<exists>K. finite K \<and> card K = lossy read_failed tr \<and>
       set (sp_flight s) \<inter> K = {} \<and> pool_holds pid (sp_mem s) (set (sp_flight s) \<union> K))"
proof -
  obtain K where K: "spath_ok pid K s" "finite K" "card K = lossy read_failed tr"
    "sp_sent s = concat (map (\<lambda>(env, c). client_route env (fst c) (snd c)) tr)" using cli.reach_ok[OF assms] by blast
  have "(\<lambda>(env, c). client_route env (fst c) (snd c)) = (\<lambda>(env, con_state, handle). client_route env con_state handle)"
    by (simp add: fun_eq_iff)
  then show ?thesis using K by (auto simp: spath_ok_def)
qed

text \<open>A sentinel is not the only thing that ends a receiving thread: so does an interrupted wait.\<close>

lemma recv_thread_interrupted:
  "ss_state tun_state = TUN_READY \<Longrightarrow> q_ptr (d_queue d) \<noteq> None \<Longrightarrow>
   snd (client_pkt_data_recv tun_state ((True, True, True) # script) d) = Ok ()"
  by (auto simp: client_pkt_data_recv_def pkt_thread_def state_sync_check_def mutex_ok_def client_recv_iter_def
      recv_iter_def recv_take_def queue_wait_pop_def sem_wait_def split: option.split)

end
