(* ===== verification/Tunnel.thy ===== *)
theory Tunnel
  imports Data_Send
begin

text \<open>
  The tunnel in one direction: the sending half of one program (\<^verbatim>\<open>Data_Send\<close>), the datagrams of one
  connection inside the transport, and the receiving half of the other program (\<^verbatim>\<open>Data_Path\<close>). The transport
  loses and reorders datagrams at will, but does not alter, duplicate or invent any: it is that of the connection. Both
  directions are instances, the client sending to the server and the server to a client.
\<close>

section \<open>A connection\<close>

text \<open>The datagrams a receiver has been given and not refused.\<close>

definition r_load :: "rsys \<Rightarrow> bytes multiset" where
  "r_load r = mset (map snd (r_fill r)) + mset (r_acc r)"

text \<open>\<open>l_dropped\<close> are the datagrams lost under way, those for which the receiver had no buffer, and those its full queue
  refused.\<close>

record link =
  l_snd :: spath
  l_net :: "bytes list"
  l_rcv :: rsys
  l_dropped :: "bytes list"

definition for_conn :: "nat option \<Rightarrow> (nat option \<times> bytes) list \<Rightarrow> bytes list" where
  "for_conn h out = map snd (filter (\<lambda>(h', d). h' = h) out)"

lemma for_conn_append [simp]: "for_conn h (xs @ ys) = for_conn h xs @ for_conn h ys"
  by (simp add: for_conn_def)

text \<open>
  The steps: a pass of the sending thread, whose new datagrams for this connection enter the transport; the return of a
  buffer to the sender; a datagram lost; a datagram that arrives, which gives the receiver more; one its queue refuses, which takes
  it away again; any other step of the receiver.
\<close>

inductive lreach :: "'c send_body \<Rightarrow> nat option \<Rightarrow> nat \<Rightarrow> nat \<Rightarrow> link \<Rightarrow> (send_env \<times> 'c) list \<Rightarrow> bool" for body h spid rpid where
  l_start: "sreach body spid s [] \<Longrightarrow> rreach rpid r \<Longrightarrow> r_load r = {#} \<Longrightarrow>
     lreach body h spid rpid \<lparr>l_snd = s, l_net = [], l_rcv = r, l_dropped = []\<rparr> []"
| l_pass: "lreach body h spid rpid l tr \<Longrightarrow> send_env_ok spid env (sp_mem (l_snd l)) \<Longrightarrow>
     send_iter env spid (body env c) (l_snd l) = (s', res) \<Longrightarrow> sp_sent s' = sp_sent (l_snd l) @ new \<Longrightarrow>
     lreach body h spid rpid (l\<lparr>l_snd := s', l_net := l_net l @ for_conn h new\<rparr>) (tr @ [(env, c)])"
| l_event: "lreach body h spid rpid l tr \<Longrightarrow> pkt \<in> set (sp_flight (l_snd l)) \<Longrightarrow>
     datagram_send_state_changed (Some pkt) st (l_snd l) = (s', res) \<Longrightarrow> lreach body h spid rpid (l\<lparr>l_snd := s'\<rparr>) tr"
| l_lose: "lreach body h spid rpid l tr \<Longrightarrow> l_net l = xs @ d # ys \<Longrightarrow>
     lreach body h spid rpid (l\<lparr>l_net := xs @ ys, l_dropped := d # l_dropped l\<rparr>) tr"
| l_arrive: "lreach body h spid rpid l tr \<Longrightarrow> l_net l = xs @ d # ys \<Longrightarrow> rstep rpid (l_rcv l) r \<Longrightarrow>
     r_load r = add_mset d (r_load (l_rcv l)) \<Longrightarrow> lreach body h spid rpid (l\<lparr>l_net := xs @ ys, l_rcv := r\<rparr>) tr"
| l_refuse: "lreach body h spid rpid l tr \<Longrightarrow> rstep rpid (l_rcv l) r \<Longrightarrow> r_load (l_rcv l) = add_mset d (r_load r) \<Longrightarrow>
     lreach body h spid rpid (l\<lparr>l_rcv := r, l_dropped := d # l_dropped l\<rparr>) tr"
| l_work: "lreach body h spid rpid l tr \<Longrightarrow> rstep rpid (l_rcv l) r \<Longrightarrow> r_load r = r_load (l_rcv l) \<Longrightarrow>
     lreach body h spid rpid (l\<lparr>l_rcv := r\<rparr>) tr"

text \<open>Every step of a receiver is one of these three.\<close>

lemma rstep_load: "rstep pid r r' \<Longrightarrow> r_load r' = r_load r \<or> (\<exists>d. r_load r' = add_mset d (r_load r)) \<or> (\<exists>d. r_load r = add_mset d (r_load r'))"
  by (induction rule: rstep.induct) (auto simp: r_load_def)

text \<open>The two halves run as they do alone, and every datagram sent for the connection is in one place.\<close>

lemma lreach_halves:
  "lreach body h spid rpid l tr \<Longrightarrow> sreach body spid (l_snd l) tr \<and> rreach rpid (l_rcv l)"
  by (induction rule: lreach.induct) (auto intro: sr_pass sr_event rr_next)

text \<open>A receiver at rest, with memory for one more buffer, gets a packet from the transport to its device.\<close>

lemma datagram_get_works:
  assumes "pool_holds pid (d_mem d) P" "pool_env_ok pid os (d_mem d)" "os_alloc os \<noteq> None" "pool_limit pid (d_mem d) = 0"
    "length dgram \<le> DATAPKTBUF"
  obtains d' pkt where "datagram_get os pid dgram d = (d', Ok (Some pkt))"
  using pool_try_get_spec[OF assms(1,2)] assms(3-5)
  by (cases "pool_try_get os (Some pid) (d_mem d)"; cases "snd (pool_try_get os (Some pid) (d_mem d))")
    (auto simp: datagram_get_def)

lemma receiver_progress:
  assumes ok: "rsys_ok pid r" and rest: "r_next r = []" and d: "ipv4_packet d" "length d \<le> DATAPKTBUF"
    and mem: "pool_env_ok pid os (d_mem (r_d r))" "os_alloc os \<noteq> None" "pool_limit pid (d_mem (r_d r)) = 0"
  obtains r1 r2 r3 r4 where "rstep pid r r1" "rstep pid r1 r2" "rstep pid r2 r3" "rstep pid r3 r4"
    "r_load r1 = add_mset d (r_load r)" "r_load r2 = r_load r1" "r_load r3 = r_load r2" "r_load r4 = r_load r3"
    "d_writes (r_d r4) = d_writes (r_d r) @ [(d, w)]"
proof -
  have hold: "pool_holds pid (d_mem (r_d r)) (set (r_blocks r))" and len: "\<And>v. length (pd_data (d_pkt (r_d r) v)) = DATAPKTBUF"
    using ok by (auto simp: rsys_ok_def)
  obtain d1 pkt where g: "datagram_get os pid d (r_d r) = (d1, Ok (Some pkt))" by (rule datagram_get_works[OF hold mem d(2)])
  note get = datagram_get_ok[OF hold mem(1) g len]
  define r1 where "r1 = r\<lparr>r_d := d1, r_fill := (pkt, d) # r_fill r\<rparr>"
  have 1: "rstep pid r r1" unfolding r1_def by (rule rs_get[OF _ mem(1) g]) (use d(1) in \<open>auto simp: ipv4_packet_def\<close>)
  have ok1: "rsys_ok pid r1" using rstep_ok[OF 1 ok] .
  have cur: "r_cur r = None" "queue_items (d_queue d1) = []"
    using rest get by (auto simp: r_next_def queued_def split: option.splits)
  have wf: "queue_wf (d_queue d1)" using ok1 by (simp add: rsys_ok_def r1_def)
  then have "0 < q_size (d_queue d1)" by (auto simp: queue_wf_def elim: ring_okD)
  then obtain q where q: "datagram_push mutex_ok pkt d1 = (d1\<lparr>d_queue := q\<rparr>, Ok 0)" "queue_wf q" "queue_items q = [Some pkt]"
    using datagram_push_ok[OF wf, of pkt] cur(2) by auto
  define r2 where "r2 = r\<lparr>r_d := d1\<lparr>d_queue := q\<rparr>, r_acc := r_acc r @ [d]\<rparr>"
  have 2: "rstep pid r1 r2" using rs_push[of r1 "[]" pkt d "r_fill r" _ 0 pid] q(1) by (simp add: r1_def r2_def)
  obtain q' where q': "recv_take mutex_ok False (d1\<lparr>d_queue := q\<rparr>) = (d1\<lparr>d_queue := q'\<rparr>, Ok (Some pkt))"
    using recv_take_ok[of "d1\<lparr>d_queue := q\<rparr>"] q(2,3) by auto
  define r3 where "r3 = r2\<lparr>r_d := d1\<lparr>d_queue := q'\<rparr>, r_cur := Some pkt\<rparr>"
  have 3: "rstep pid r2 r3" using rs_take[of r2 _ pkt pid] q' cur(1) by (simp add: r2_def r3_def)
  have "rsys_ok pid r3" using rstep_ok[OF 3 rstep_ok[OF 2 ok1]] .
  moreover have "pkt \<in> set (r_blocks r3)" by (simp add: r_blocks_def r_next_def r3_def)
  moreover have "contains (r_d r3) pkt d" using get by (simp add: contains_def r3_def)
  ultimately obtain m where f: "recv_finish w (\<lambda>_. True) pkt (r_d r3) = ((r_d r3)\<lparr>d_mem := m, d_writes := d_writes (r_d r3) @ [(d, w)]\<rparr>, Ok ())"
    using recv_finish_ok[of pid "r_d r3" "set (r_blocks r3)" pkt d w "\<lambda>_. True"] d(1) by (auto simp: rsys_ok_def)
  define r4 where "r4 = r3\<lparr>r_d := (r_d r3)\<lparr>d_mem := m, d_writes := d_writes (r_d r3) @ [(d, w)]\<rparr>, r_cur := None\<rparr>"
  have 4: "rstep pid r3 r4" unfolding r4_def by (rule rs_finish[OF _ f]) (simp add: r3_def)
  show ?thesis
    by (rule that[OF 1 2 3 4]) (use get in \<open>simp_all add: r_load_def r1_def r2_def r3_def r4_def\<close>)
qed

lemma link_progress:
  assumes l: "lreach body h spid rpid l tr" "l_net l = xs @ d # ys" and "r_next (l_rcv l) = []" "ipv4_packet d" "length d \<le> DATAPKTBUF"
    "pool_env_ok rpid os (d_mem (r_d (l_rcv l)))" "os_alloc os \<noteq> None" "pool_limit rpid (d_mem (r_d (l_rcv l))) = 0"
  shows "\<exists>l'. lreach body h spid rpid l' tr \<and> l_net l' = xs @ ys \<and> l_dropped l' = l_dropped l \<and>
    d_writes (r_d (l_rcv l')) = d_writes (r_d (l_rcv l)) @ [(d, w)]"
proof -
  have "rsys_ok rpid (l_rcv l)" using lreach_halves[OF l(1)] rreach_ok by blast
  then obtain r1 r2 r3 r4 where r: "rstep rpid (l_rcv l) r1" "rstep rpid r1 r2" "rstep rpid r2 r3" "rstep rpid r3 r4"
    "r_load r1 = add_mset d (r_load (l_rcv l))" "r_load r2 = r_load r1" "r_load r3 = r_load r2" "r_load r4 = r_load r3"
    "d_writes (r_d r4) = d_writes (r_d (l_rcv l)) @ [(d, w)]" by (rule receiver_progress[OF _ assms(3-8)])
  have "lreach body h spid rpid (l\<lparr>l_net := xs @ ys, l_rcv := r1\<rparr>) tr" by (rule l_arrive[OF l r(1,5)])
  then have "lreach body h spid rpid (l\<lparr>l_net := xs @ ys, l_rcv := r4\<rparr>) tr"
    using l_work[of body h spid rpid "l\<lparr>l_net := xs @ ys, l_rcv := r1\<rparr>" tr r2] l_work[of body h spid rpid "l\<lparr>l_net := xs @ ys, l_rcv := r2\<rparr>" tr r3]
      l_work[of body h spid rpid "l\<lparr>l_net := xs @ ys, l_rcv := r3\<rparr>" tr r4] r by simp
  then show ?thesis using r(9) by (intro exI[of _ "l\<lparr>l_net := xs @ ys, l_rcv := r4\<rparr>"]) simp
qed

context sending_thread
begin

lemma link_accounts:
  "lreach body h spid rpid l tr \<Longrightarrow>
     mset (for_conn h (sp_sent (l_snd l))) = mset (l_net l) + mset (l_dropped l) + r_load (l_rcv l)"
proof (induction rule: lreach.induct)
  case (l_start s r)
  then show ?case using reach_ok[OF l_start(1)] by (auto simp: for_conn_def)
next
  case (l_event l tr pkt st s' res)
  obtain K where "spath_ok spid K (l_snd l)" using reach_ok lreach_halves[OF l_event.hyps(1)] by blast
  then have "sp_sent s' = sp_sent (l_snd l)" using send_state_ok l_event.hyps(2,3) by (metis prod.inject)
  then show ?case using l_event.IH by simp
qed simp_all

text \<open>So what the receiver's device is given is among the packets routed to the connection, and is all of them when nothing was lost and
  nothing is on its way.\<close>

lemma link_delivers:
  assumes "lreach body h spid rpid l tr"
  shows "\<exists>gone. mset (for_conn h (concat (map (\<lambda>(env, c). route env c) tr))) = mset (l_net l) + mset (l_dropped l) + mset (map snd (r_fill (l_rcv l))) +
      mset (map (buffer_bytes (r_d (l_rcv l))) (r_next (l_rcv l))) + mset gone \<and>
    map fst (d_writes (r_d (l_rcv l))) = filter ipv4_packet gone"
proof -
  have h: "sreach body spid (l_snd l) tr" "rreach rpid (l_rcv l)" using lreach_halves[OF assms] by simp_all
  have sent: "mset (for_conn h (concat (map (\<lambda>(env, c). route env c) tr))) = mset (l_net l) + mset (l_dropped l) + r_load (l_rcv l)"
    using link_accounts[OF assms] reach_ok[OF h(1)] by auto
  obtain gone where "r_acc (l_rcv l) = gone @ map (buffer_bytes (r_d (l_rcv l))) (r_next (l_rcv l))"
    "map fst (d_writes (r_d (l_rcv l))) = filter ipv4_packet gone" using recv_accounts[OF h(2)] by blast
  then show ?thesis using sent by (auto simp: r_load_def ac_simps)
qed

lemma link_safe:
  assumes "lreach body h spid rpid l tr"
  shows "mset (map fst (d_writes (r_d (l_rcv l)))) \<subseteq># filter_mset ipv4_packet (mset (for_conn h (concat (map (\<lambda>(env, c). route env c) tr))))"
    and "l_net l = [] \<Longrightarrow> l_dropped l = [] \<Longrightarrow> r_fill (l_rcv l) = [] \<Longrightarrow> r_next (l_rcv l) = [] \<Longrightarrow>
      mset (map fst (d_writes (r_d (l_rcv l)))) = filter_mset ipv4_packet (mset (for_conn h (concat (map (\<lambda>(env, c). route env c) tr))))"
    and "set (l_net l) \<subseteq> set (for_conn h (concat (map (\<lambda>(env, c). route env c) tr)))"
proof -
  obtain gone where g: "mset (for_conn h (concat (map (\<lambda>(env, c). route env c) tr))) = mset (l_net l) + mset (l_dropped l) +
      mset (map snd (r_fill (l_rcv l))) + mset (map (buffer_bytes (r_d (l_rcv l))) (r_next (l_rcv l))) + mset gone"
    "map fst (d_writes (r_d (l_rcv l))) = filter ipv4_packet gone" using link_delivers[OF assms] by blast
  show "mset (map fst (d_writes (r_d (l_rcv l)))) \<subseteq># filter_mset ipv4_packet (mset (for_conn h (concat (map (\<lambda>(env, c). route env c) tr))))"
    unfolding g by simp
  show "mset (map fst (d_writes (r_d (l_rcv l)))) = filter_mset ipv4_packet (mset (for_conn h (concat (map (\<lambda>(env, c). route env c) tr))))"
    if "l_net l = []" "l_dropped l = []" "r_fill (l_rcv l) = []" "r_next (l_rcv l) = []"
    unfolding g using that by simp
  have "set_mset (mset (l_net l)) \<subseteq> set_mset (mset (for_conn h (concat (map (\<lambda>(env, c). route env c) tr))))" unfolding g(1) by auto
  then show "set (l_net l) \<subseteq> set (for_conn h (concat (map (\<lambda>(env, c). route env c) tr)))" by simp
qed

end

section \<open>Both directions\<close>

text \<open>What a pass sends is the packet it read, as far as it fits a buffer; the server sends it to the connection of the client that
  holds its destination.\<close>

lemma client_route_read:
  assumes "(h, d) \<in> set (client_route env con_state handle)"
  shows "\<exists>bs. se_read env = Inr bs \<and> d = take DATAPKTBUF bs"
proof -
  have "se_poll env = PollReady True False" using assms cli.route_idle[of env "(con_state, handle)"] by fastforce
  then show ?thesis using assms by (cases "se_read env") (auto simp: client_route_def split: if_splits)
qed

lemma server_route_holder:
  assumes "(h, d) \<in> set (server_route env ips clients)"
  shows "\<exists>c bs. se_read env = Inr bs \<and> d = take DATAPKTBUF bs \<and>
    ip_client_search (Some ips) (dest_addr d) = Some c \<and> ConnectionHandle (clients c) = h"
proof -
  have p: "se_poll env = PollReady True False" using assms srv.route_idle[of env "(ips, clients)"] by fastforce
  then obtain bs where r: "se_read env = Inr bs" using assms by (cases "se_read env") (simp_all add: server_route_def)
  obtain c where "ip_client_search (Some ips) (dest_addr (take DATAPKTBUF bs)) = Some c" "d = take DATAPKTBUF bs" "h = ConnectionHandle (clients c)"
    using assms p r unfolding server_route_def Let_def
    by (cases "ip_client_search (Some ips) (dest_addr (take DATAPKTBUF bs))"; cases "ipv4_packet (take DATAPKTBUF bs) \<and> se_send env") simp_all
  then show ?thesis using r by blast
qed

lemma for_conn_route:
  "d \<in> set (for_conn h (concat (map (\<lambda>(env, c). route env c) tr))) \<longleftrightarrow> (\<exists>(env, c)\<in>set tr. (h, d) \<in> set (route env c))"
  by (force simp: for_conn_def)

lemma split_routes:
  "(\<lambda>(env, c). client_route env (fst c) (snd c)) = (\<lambda>(env, con_state, handle). client_route env con_state handle)"
  "(\<lambda>(env, c). server_route env (fst c) (snd c)) = (\<lambda>(env, ips, clients). server_route env ips clients)"
  by (simp_all add: fun_eq_iff)

text \<open>
  C2. From the client's device to the server's. Let the client's sending thread and the server's receiving half run in any
  interleaving, joined by a transport that loses and reorders datagrams. The packets given to the server's device are
  packets the client has read off its own while connected, byte for byte, IPv4 only and none more often than it was read; when nothing was
  lost and nothing is under way they are all of them. And a packet that is in the transport can always be
  delivered: a server at rest with memory for one buffer takes it to its device in four steps, and loses nothing else.
\<close>

theorem tunnel_up:
  assumes "lreach client_body h spid rpid l tr"
  defines "reads \<equiv> for_conn h (concat (map (\<lambda>(env, con_state, handle). client_route env con_state handle) tr))"
    and "r \<equiv> l_rcv l"
  shows "mset (map fst (d_writes (r_d r))) \<subseteq># filter_mset ipv4_packet (mset reads) \<and>
    (l_net l = [] \<and> l_dropped l = [] \<and> r_fill r = [] \<and> r_next r = [] \<longrightarrow>
       mset (map fst (d_writes (r_d r))) = filter_mset ipv4_packet (mset reads)) \<and>
    (\<forall>xs d ys os w. l_net l = xs @ d # ys \<and> ipv4_packet d \<and> r_next r = [] \<and> pool_env_ok rpid os (d_mem (r_d r)) \<and>
         os_alloc os \<noteq> None \<and> pool_limit rpid (d_mem (r_d r)) = 0 \<longrightarrow>
       (\<exists>l'. lreach client_body h spid rpid l' tr \<and> l_net l' = xs @ ys \<and> l_dropped l' = l_dropped l \<and>
          d_writes (r_d (l_rcv l')) = d_writes (r_d r) @ [(d, w)]))"
proof -
  note safe = cli.link_safe[OF assms(1), unfolded split_routes, folded reads_def r_def]
  have "length d \<le> DATAPKTBUF" if "d \<in> set (l_net l)" for d
    using that cli.link_safe(3)[OF assms(1)] client_route_read
      for_conn_route[of d h "\<lambda>env c. client_route env (fst c) (snd c)" tr] by fastforce
  then show ?thesis using safe(1,2) link_progress[OF assms(1), folded r_def] by auto
qed


section \<open>A packet in each direction\<close>

text \<open>Both halves at their start, and after a pass that read one packet.\<close>

definition demo_link :: link where
  "demo_link = \<lparr>l_snd = \<lparr>sp_mem = pmem_fresh 0, sp_pkt = d_pkt demo_dpath, sp_sent = [], sp_flight = []\<rparr>, l_net = [],
     l_rcv = \<lparr>r_d = demo_dpath, r_fill = [], r_cur = None, r_lost = [], r_acc = []\<rparr>, l_dropped = []\<rparr>"

lemma demo_link_start: "lreach body h 7 7 demo_link []"
proof -
  have "sreach body 7 (l_snd demo_link) []"
    unfolding demo_link_def by (simp, rule sr_start[OF pmem_fresh_init]) (simp add: demo_dpath_def)
  moreover have "rreach 7 (l_rcv demo_link)" using demo_rreach_start by (simp add: demo_link_def)
  ultimately show ?thesis using l_start[of body 7 "l_snd demo_link" 7 "l_rcv demo_link" h] by (simp add: demo_link_def r_load_def)
qed

lemma demo_env_ok: "send_env_ok 7 (demo_send_env\<lparr>se_read := x\<rparr>) (sp_mem (l_snd demo_link))"
  by (simp add: send_env_ok_def demo_send_env_def pool_env_ok_def pool_os_ok_def pmem_fresh_def demo_link_def)

lemma demo_rest:
  "r_next (l_rcv demo_link) = []" "pool_env_ok 7 (pool_os_ok (Some 64)) (d_mem (r_d (l_rcv demo_link)))"
  "os_alloc (pool_os_ok (Some 64)) \<noteq> None" "pool_limit 7 (d_mem (r_d (l_rcv demo_link))) = 0" "d_writes (r_d (l_rcv demo_link)) = []"
  by (simp_all add: demo_link_def r_next_def queued_def demo_dpath_def queue_items_def ring_items_def queue_demo_def pool_env_ok_def
      pool_os_ok_def pmem_fresh_def pool_limit_def)

text \<open>A pass that routes one packet to the connection puts it into the transport.\<close>

context sending_thread
begin

lemma demo_pass:
  assumes "route env c = [(h, d)]" "send_env_ok 7 env (sp_mem (l_snd demo_link))"
  shows "\<exists>s. lreach body h 7 7 (demo_link\<lparr>l_snd := s, l_net := [d]\<rparr>) [(env, c)]"
proof -
  have "sreach body 7 (l_snd demo_link) []" using lreach_halves[OF demo_link_start[of body h]] by simp
  then obtain K where "spath_ok 7 K (l_snd demo_link)" "finite K" using reach_ok by blast
  from iter_ok[OF this(1) assms(2) this(2), of c] obtain s nxt where s: "send_iter env 7 (body env c) (l_snd demo_link) = (s, Ok nxt)"
    "sp_sent s = sp_sent (l_snd demo_link) @ [(h, d)]" using assms(1) by auto
  have "lreach body h 7 7 (demo_link\<lparr>l_snd := s, l_net := l_net demo_link @ for_conn h [(h, d)]\<rparr>) ([] @ [(env, c)])"
    by (rule l_pass[where body = body and c = c, OF demo_link_start assms(2) s])
  then show ?thesis by (intro exI[of _ s]) (simp add: for_conn_def demo_link_def)
qed

end

theorem tunnel_up_witness:
  "\<exists>l tr l'. lreach client_body (Some 5) 7 7 l tr \<and> l_net l = [demo_packet] \<and>
     lreach client_body (Some 5) 7 7 l' tr \<and> l_net l' = [] \<and> d_writes (r_d (l_rcv l')) = [(demo_packet, True)]"
proof -
  let ?env = "demo_send_env\<lparr>se_read := Inr demo_packet\<rparr>" and ?c = "(\<lparr>ss_state = SESSION_CONNECTED\<rparr>, Some 5)"
  have p: "ipv4_packet demo_packet" "take DATAPKTBUF demo_packet = demo_packet" by (simp_all add: demo_packet_def ipv4_packet_def)
  then have "client_route ?env (fst ?c) (snd ?c) = [(Some 5, demo_packet)]" by (simp add: client_route_def demo_send_env_def)
  then obtain s where l: "lreach client_body (Some 5) 7 7 (demo_link\<lparr>l_snd := s, l_net := [demo_packet]\<rparr>) [(?env, ?c)]"
    using cli.demo_pass[of ?env ?c "Some 5" demo_packet] demo_env_ok by blast
  let ?l = "demo_link\<lparr>l_snd := s, l_net := [demo_packet]\<rparr>"
  obtain l' where "lreach client_body (Some 5) 7 7 l' [(?env, ?c)]" "l_net l' = []" "d_writes (r_d (l_rcv l')) = [(demo_packet, True)]"
    using tunnel_up[OF l, THEN conjunct2, THEN conjunct2, rule_format, of "[]" demo_packet "[]" "pool_os_ok (Some 64)" True]
      p(1) demo_rest by auto
  then show ?thesis using l by (intro exI[of _ ?l] exI[of _ "[(?env, ?c)]"] exI[of _ l']) simp
qed


end
