(* ===== verification/Pkt_Print.thy ===== *)
theory Pkt_Print
  imports Quic_Stream
begin

text \<open>
  The bodies of control frames that no program sends yet, and the trace of a frame, \<^verbatim>\<open>pkt_ctrl_print\<close>
  of \<^verbatim>\<open>common/src/pkt_ctrl.c\<close>. A line of the trace is its kind with the values printed in
  it. Every read of the body is checked against its 1004 bytes, so that a read outside would show.
\<close>

section \<open>The other bodies\<close>

abbreviation VPN_MSG_TYPE_ROUTE_UPDATE :: u16 where "VPN_MSG_TYPE_ROUTE_UPDATE \<equiv> 3"
abbreviation VPN_MSG_TYPE_KEEPALIVE :: u16 where "VPN_MSG_TYPE_KEEPALIVE \<equiv> 4"
abbreviation VPN_MSG_TYPE_STATUS :: u16 where "VPN_MSG_TYPE_STATUS \<equiv> 5"

record route_entry_t =
  dest_network :: in_addr
  re_mask :: in_addr

record pkt_ctrl_route_update_t =
  route_count :: u16
  routes :: "route_entry_t list"

record pkt_ctrl_keepalive_t =
  client_timestamp_ms :: u64
  server_timestamp_ms :: u64

record pkt_ctrl_status_t =
  error_code :: u32
  reason :: bytes

text \<open>A member of the union is the body's first bytes, as many as the structure has.\<close>

definition union_member :: "nat \<Rightarrow> (bytes \<Rightarrow> 'b) \<Rightarrow> bytes \<Rightarrow> 'b cres" where
  "union_member n decode body = (if n \<le> length body then Ok (decode body) else Abort)"

definition route_entry_of_bytes :: "bytes \<Rightarrow> route_entry_t" where
  "route_entry_of_bytes bs = \<lparr>dest_network = of_le_bytes (field 0 4 bs), re_mask = of_le_bytes (field 4 4 bs)\<rparr>"

definition route_update_of_bytes :: "bytes \<Rightarrow> pkt_ctrl_route_update_t" where
  "route_update_of_bytes bs =
     \<lparr>route_count = of_le_bytes (field 0 2 bs), routes = map (\<lambda>i. route_entry_of_bytes (field (2 + 8 * i) 8 bs)) [0..<8]\<rparr>"

definition keepalive_of_bytes :: "bytes \<Rightarrow> pkt_ctrl_keepalive_t" where
  "keepalive_of_bytes bs = \<lparr>client_timestamp_ms = of_le_bytes (field 0 8 bs), server_timestamp_ms = of_le_bytes (field 8 8 bs)\<rparr>"

definition status_of_bytes :: "bytes \<Rightarrow> pkt_ctrl_status_t" where
  "status_of_bytes bs = \<lparr>error_code = of_le_bytes (field 0 4 bs), reason = field 4 128 bs\<rparr>"

section \<open>The trace\<close>

datatype ctrl_line =
    NullFrame | HeadLine u16 u32 bool | UidLine u64 | TypeLine u16 u32 bool
  | ConfigReq u8 string string | RespStatus u32 string | RespAssigned string string | RespMtu u16 | RespDns1 string | RespDns2 string
  | RouteUpdate u16 | RouteEntry nat string string | Keepalive u64 u64 | StatusLine u32 string | UnknownType u16

text \<open>\<^verbatim>\<open>%.*s\<close> with the size of the array: up to the terminator, or all of it.\<close>

definition array_text :: "bytes \<Rightarrow> string" where
  "array_text bs = map byte_char (takeWhile (\<lambda>b. b \<noteq> 0) bs)"

definition addr_text :: "in_addr \<Rightarrow> string" where
  "addr_text a = (case inet_ntop a 16 of Ok str \<Rightarrow> str | _ \<Rightarrow> [])"

definition print_resp :: "pkt_ctrl_config_resp_t \<Rightarrow> ctrl_line list" where
  "print_resp r =
     [RespStatus (status_code r) (if status_code r = 0 then ''SUCCESS'' else ''ERROR''), RespAssigned (addr_text (r_ip r)) (addr_text (r_mask r)),
      RespMtu (r_mtu r), RespDns1 (addr_text (r_dns1 r)), RespDns2 (addr_text (r_dns2 r))]"

text \<open>The loop over the routes, bounded by the eight entries there are; an index outside would be undefined.\<close>

definition print_routes :: "pkt_ctrl_route_update_t \<Rightarrow> ctrl_line list cres" where
  "print_routes r =
     (let n = unat (if 8 < route_count r then 8 else route_count r) in
      if length (routes r) < n then Abort
      else Ok (RouteUpdate (route_count r) #
        map (\<lambda>i. RouteEntry (i + 1) (addr_text (dest_network (routes r ! i))) (addr_text (re_mask (routes r ! i)))) [0..<n]))"

definition family_text :: "u8 \<Rightarrow> string" where
  "family_text f = (if f = 2 then ''IPv4'' else if f = 10 then ''IPv6'' else ''Unknown'')"

definition print_body :: "u16 \<Rightarrow> bytes \<Rightarrow> ctrl_line list cres" where
  "print_body ty body =
     (if ty = VPN_MSG_TYPE_CONFIG_REQ then
        (case union_member 65 req_of_bytes body of
           Ok r \<Rightarrow> Ok [ConfigReq (af_family r) (family_text (af_family r)) (array_text (hostname r))] | _ \<Rightarrow> Abort)
      else if ty = VPN_MSG_TYPE_CONFIG_RESP then
        (case union_member 30 resp_of_bytes body of Ok r \<Rightarrow> Ok (print_resp r) | _ \<Rightarrow> Abort)
      else if ty = VPN_MSG_TYPE_ROUTE_UPDATE then
        (case union_member 66 route_update_of_bytes body of Ok r \<Rightarrow> print_routes r | _ \<Rightarrow> Abort)
      else if ty = VPN_MSG_TYPE_KEEPALIVE then
        (case union_member 16 keepalive_of_bytes body of
           Ok r \<Rightarrow> Ok [Keepalive (client_timestamp_ms r) (server_timestamp_ms r)] | _ \<Rightarrow> Abort)
      else if ty = VPN_MSG_TYPE_STATUS then
        (case union_member 132 status_of_bytes body of
           Ok r \<Rightarrow> Ok [StatusLine (error_code r) (array_text (reason r))] | _ \<Rightarrow> Abort)
      else Ok [UnknownType ty])"

definition pkt_ctrl_print :: "pkt_ctrl_t option \<Rightarrow> ctrl_line list cres" where
  "pkt_ctrl_print pkt =
     (case pkt of None \<Rightarrow> Ok [NullFrame]
      | Some p \<Rightarrow>
        (case print_body (h_type (hdr p)) (raw_padding p) of
           Ok ls \<Rightarrow> Ok ([HeadLine (frame_len (hdr p)) (head_magic (hdr p)) (head_magic (hdr p) = HEAD_MAGIC), UidLine (h_uid (hdr p)),
                        TypeLine (h_type (hdr p)) (tail_magic p) (tail_magic p = TAIL_MAGIC)] @ ls)
         | _ \<Rightarrow> Abort))"

section \<open>Well-formed frames\<close>

text \<open>The size the type of the frame gives its body.\<close>

definition frame_wf :: "pkt_ctrl_t \<Rightarrow> bool" where
  "frame_wf p \<longleftrightarrow> length (raw_padding p) = BODYSIZ"

lemma created_wf:
  "pkt_ctrl_create_config_req ok uid fam name = Some p \<Longrightarrow> frame_wf p"
  "pkt_ctrl_create_config_resp ok uid st mtu ip msk d1 d2 = Some p \<Longrightarrow> frame_wf p"
  by (auto simp: pkt_ctrl_create_config_req_def pkt_ctrl_create_config_resp_def frame_wf_def length_bytes hostname_field_def
      snprintf_trunc_def split: if_splits option.splits)

lemma decoded_wf: "PKTCTRLSIZ \<le> length bs \<Longrightarrow> frame_wf (pkt_of_bytes bs)"
  by (simp add: frame_wf_def pkt_of_bytes_def field_def)

lemma host_order_wf [simp]: "frame_wf (host_order p) = frame_wf p"
  by (simp add: frame_wf_def host_order_def)

lemma frames_wf: "p \<in> set (frames bs) \<Longrightarrow> frame_wf p"
proof (induction bs rule: frames.induct)
  case (1 bs)
  then show ?case using decoded_wf[of "take PKTCTRLSIZ bs"] by (subst (asm) (2) frames.simps) (auto split: if_splits)
qed

definition route_lines :: "ctrl_line list \<Rightarrow> nat" where
  "route_lines ls = length (filter (\<lambda>l. case l of RouteEntry _ _ _ \<Rightarrow> True | _ \<Rightarrow> False) ls)"

lemma route_lines_map [simp]: "route_lines (map (\<lambda>i. RouteEntry (f i) (g i) (h i)) is) = length is"
  by (induction "is") (simp_all add: route_lines_def)

lemma route_lines_simps [simp]:
  "route_lines [] = 0" "route_lines (l # ls) = (case l of RouteEntry _ _ _ \<Rightarrow> 1 | _ \<Rightarrow> 0) + route_lines ls"
  by (simp_all add: route_lines_def split: ctrl_line.split)

text \<open>How many routes a frame has printed.\<close>

definition shown_routes :: "pkt_ctrl_t \<Rightarrow> nat" where
  "shown_routes p =
     (if h_type (hdr p) = VPN_MSG_TYPE_ROUTE_UPDATE then min 8 (unat (route_count (route_update_of_bytes (raw_padding p)))) else 0)"

lemma print_routes_count:
  "\<exists>ls. print_routes (route_update_of_bytes bs) = Ok ls \<and> route_lines ls = min 8 (unat (route_count (route_update_of_bytes bs)))"
proof -
  let ?c = "route_count (route_update_of_bytes bs)"
  have n: "unat (if 8 < ?c then 8 else ?c) = min 8 (unat ?c)" by (auto simp: word_less_nat_alt)
  have "length (routes (route_update_of_bytes bs)) = 8" by (simp add: route_update_of_bytes_def)
  then show ?thesis unfolding print_routes_def Let_def n by simp
qed

lemma print_body_count:
  assumes "length body = BODYSIZ"
  shows "\<exists>ls. print_body ty body = Ok ls \<and>
    route_lines ls = (if ty = VPN_MSG_TYPE_ROUTE_UPDATE then min 8 (unat (route_count (route_update_of_bytes body))) else 0)"
  using assms print_routes_count[of body] by (auto simp: print_body_def union_member_def print_resp_def)

lemma print_wf:
  assumes "frame_wf p"
  shows "\<exists>ls. pkt_ctrl_print (Some p) = Ok ls \<and> route_lines ls = shown_routes p"
proof -
  obtain ls where "print_body (h_type (hdr p)) (raw_padding p) = Ok ls" "route_lines ls = shown_routes p"
    using print_body_count[of "raw_padding p" "h_type (hdr p)"] assms by (auto simp: frame_wf_def shown_routes_def)
  then show ?thesis by (simp add: pkt_ctrl_print_def)
qed

section \<open>Properties\<close>

text \<open>
  C33. Frames are well-formed. A frame either constructor makes, and every frame cut out of any bytes of
  a control stream, in either byte order, has a body of the size its type gives it; the trace of such a
  frame, whatever its type field and its fields say, reads only inside that body and prints as many routes as
  the frame announces, at most the eight there is room for.
\<close>

theorem ctrl_frames_typed:
  "(\<forall>p. pkt_ctrl_create_config_req ok uid fam name = Some p \<longrightarrow> frame_wf p) \<and>
   (\<forall>p. pkt_ctrl_create_config_resp ok uid st mtu ip msk d1 d2 = Some p \<longrightarrow> frame_wf p) \<and>
   (\<forall>p \<in> set (frames stream). frame_wf p \<and> frame_wf (host_order p)) \<and>
   (\<forall>p. frame_wf p \<longrightarrow> (\<exists>ls. pkt_ctrl_print (Some p) = Ok ls \<and> route_lines ls = shown_routes p))"
  using created_wf frames_wf print_wf by auto

text \<open>A frame that announces 65535 routes.\<close>

definition demo_routes :: pkt_ctrl_t where
  "demo_routes = \<lparr>hdr = \<lparr>frame_len = 1024, head_magic = HEAD_MAGIC, h_type = 3, h_uid = 1\<rparr>,
     raw_padding = zero_pad BODYSIZ [0xFF, 0xFF], tail_magic = TAIL_MAGIC\<rparr>"

theorem ctrl_frames_typed_witness:
  "\<exists>ls. frames (pkt_bytes demo_routes) = [demo_routes] \<and> frame_wf demo_routes \<and> pkt_ctrl_print (Some demo_routes) = Ok ls \<and> route_lines ls = 8"
proof -
  note t = ctrl_frames_typed[of True 0 2 None 0 0 0 0 0 0 "pkt_bytes demo_routes", THEN conjunct2, THEN conjunct2]
  have len: "length (raw_padding demo_routes) = BODYSIZ" by (simp add: demo_routes_def length_bytes)
  then have f: "frames (pkt_bytes demo_routes) = [demo_routes]"
    using frames_single[OF length_pkt_bytes] pkt_of_bytes_pkt_bytes by simp
  then have wf: "frame_wf demo_routes" using t[THEN conjunct1] by simp
  have "(of_le_bytes [0xFF, 0xFF] :: u16) = 0xFFFF" by code_simp
  then have "shown_routes demo_routes = 8"
    by (simp add: shown_routes_def demo_routes_def route_update_of_bytes_def field_def zero_pad_def)
  then show ?thesis using f wf t[THEN conjunct2, rule_format, OF wf] by auto
qed

end
