(* ===== verification/Net_Iface.thy ===== *)
theory Net_Iface
  imports Net_Utils
begin

text \<open>
  Detection of the interface to the outside, \<^verbatim>\<open>common/src/net_iface.c\<close>: the default
  route with the best metric, the address of its interface and its link attributes, out of the
  kernel's netlink answers. The kernel's messages come as values; cutting them out of the receive
  buffer is the work of the kernel headers' macros. What a socket call answers is an argument.
\<close>

section \<open>Messages\<close>

abbreviation AF_INET :: nat where "AF_INET \<equiv> 2"
abbreviation RT_TABLE_MAIN :: nat where "RT_TABLE_MAIN \<equiv> 254"
abbreviation RTN_UNICAST :: nat where "RTN_UNICAST \<equiv> 1"
abbreviation RT_SCOPE_HOST :: nat where "RT_SCOPE_HOST \<equiv> 254"
abbreviation RT_SCOPE_LINK :: nat where "RT_SCOPE_LINK \<equiv> 253"

record rtmsg =
  rtm_family :: nat
  rtm_dst_len :: nat
  rtm_table :: nat
  rtm_scope :: nat
  rtm_type :: nat

record ifaddrmsg =
  ifa_family :: nat
  ifa_prefixlen :: nat
  ifa_scope :: nat
  ifa_index :: u32

record ifinfomsg =
  ifi_index :: int
  ifi_flags :: u32

datatype rtattr = RTA_OIF int | RTA_GATEWAY in_addr | RTA_PRIORITY u32 | RTA_IGNORED
datatype ifattr = IFA_LOCAL in_addr | IFA_ADDRESS in_addr | IFA_BROADCAST in_addr | IFA_IGNORED
datatype iflattr = IFLA_MTU u32 | IFLA_ADDRESS bytes | IFLA_IGNORED

datatype nlmsg =
    NLMSG_DONE | NLMSG_ERROR
  | RTM_NEWROUTE rtmsg "rtattr list" | RTM_DELROUTE rtmsg "rtattr list"
  | RTM_NEWADDR ifaddrmsg "ifattr list"
  | RTM_NEWLINK ifinfomsg "iflattr list" | RTM_DELLINK ifinfomsg "iflattr list"
  | NLMSG_OTHER

text \<open>One request with one answer: errors of the three calls, and the messages received.\<close>

record nl_os =
  nl_socket_err :: "int option"
  nl_send_err :: "int option"
  nl_recv :: "int + nlmsg list"

section \<open>Interface tests\<close>

record ifflags_os =
  ff_socket :: bool
  ff_ioctl :: bool
  ff_flags :: u16

definition is_link_online :: "ifflags_os \<Rightarrow> string option \<Rightarrow> bool" where
  "is_link_online os ifname =
     (case ifname of None \<Rightarrow> False
      | Some name \<Rightarrow>
        name \<noteq> [] \<and> ff_socket os \<and> ff_ioctl os \<and> ff_flags os AND (0x01 OR 0x40) = 0x01 OR 0x40)"

definition netlink_flag_test :: "u32 \<Rightarrow> nl_os \<Rightarrow> int \<Rightarrow> bool" where
  "netlink_flag_test flags os ifindex =
     (if ifindex \<le> 0 then True
      else if nl_socket_err os \<noteq> None then False
      else if nl_send_err os \<noteq> None then False
      else case nl_recv os of
             Inr (RTM_NEWLINK ifi _ # _) \<Rightarrow> ifi_flags ifi AND flags \<noteq> 0
           | _ \<Rightarrow> False)"

definition netlink_is_loopback :: "nl_os \<Rightarrow> int \<Rightarrow> bool" where
  "netlink_is_loopback = netlink_flag_test 0x08"

definition netlink_is_pointtopoint :: "nl_os \<Rightarrow> int \<Rightarrow> bool" where
  "netlink_is_pointtopoint = netlink_flag_test (0x10 OR 0x80)"

section \<open>The default route\<close>

record netlink_route_info_t =
  nr_ifindex :: int
  nr_ifname :: string
  nr_gateway :: in_addr
  nr_metric :: u32

text \<open>What the system says of interfaces while the routes are read.\<close>

record if_env =
  ie_link :: "int \<Rightarrow> nl_os"
  ie_name :: "int \<Rightarrow> string option"
  ie_flags :: "string \<Rightarrow> ifflags_os"

record route_acc =
  ra_ifindex :: int
  ra_ifname :: string
  ra_metric :: u32
  ra_has_gateway :: bool
  ra_gateway :: in_addr

text \<open>The attributes of one route; \<^const>\<open>None\<close> when the interface is to be skipped.\<close>

fun route_attrs :: "if_env \<Rightarrow> rtattr list \<Rightarrow> route_acc \<Rightarrow> route_acc option" where
  "route_attrs env [] a = Some a"
| "route_attrs env (RTA_OIF i # as) a =
     (if netlink_is_loopback (ie_link env i) i \<or> netlink_is_pointtopoint (ie_link env i) i then None
      else route_attrs env as (a\<lparr>ra_ifindex := i, ra_ifname := (case ie_name env i of None \<Rightarrow> [] | Some n \<Rightarrow> n)\<rparr>))"
| "route_attrs env (RTA_GATEWAY g # as) a = route_attrs env as (a\<lparr>ra_gateway := g, ra_has_gateway := True\<rparr>)"
| "route_attrs env (RTA_PRIORITY p # as) a = route_attrs env as (a\<lparr>ra_metric := p\<rparr>)"
| "route_attrs env (RTA_IGNORED # as) a = route_attrs env as a"

definition route_header_ok :: "nat \<Rightarrow> rtmsg \<Rightarrow> bool" where
  "route_header_ok af rt \<longleftrightarrow>
     rtm_family rt = af \<and> rtm_table rt = RT_TABLE_MAIN \<and> rtm_dst_len rt = 0 \<and>
     rtm_type rt = RTN_UNICAST \<and> rtm_scope rt \<noteq> RT_SCOPE_HOST \<and> rtm_scope rt \<noteq> RT_SCOPE_LINK"

text \<open>The loop's variables: the best metric so far and, once found, the route.\<close>

record route_state =
  rs_best :: u32
  rs_found :: "netlink_route_info_t option"

definition route_step :: "if_env \<Rightarrow> nat \<Rightarrow> rtmsg \<Rightarrow> rtattr list \<Rightarrow> route_state \<Rightarrow> route_state" where
  "route_step env af rt as st =
     (if \<not> route_header_ok af rt then st
      else case route_attrs env as \<lparr>ra_ifindex = 0, ra_ifname = [], ra_metric = 0, ra_has_gateway = False,
                                    ra_gateway = 0\<rparr> of
             None \<Rightarrow> st
           | Some a \<Rightarrow>
             if 0 < ra_ifindex a \<and> ra_has_gateway a \<and> ra_metric a \<le> rs_best st then
               if \<not> is_link_online (ie_flags env (ra_ifname a)) (Some (ra_ifname a)) then st
               else \<lparr>rs_best = ra_metric a,
                     rs_found = Some \<lparr>nr_ifindex = ra_ifindex a, nr_ifname = take 15 (ra_ifname a),
                                      nr_gateway = ra_gateway a, nr_metric = ra_metric a\<rparr>\<rparr>
             else st)"

text \<open>The messages of one buffer; the flag says that the dump has ended.\<close>

fun route_msgs :: "if_env \<Rightarrow> nat \<Rightarrow> nlmsg list \<Rightarrow> route_state \<Rightarrow> bool \<times> route_state" where
  "route_msgs env af [] st = (False, st)"
| "route_msgs env af (NLMSG_DONE # ms) st = (True, st)"
| "route_msgs env af (NLMSG_ERROR # ms) st = (True, st)"
| "route_msgs env af (RTM_NEWROUTE rt as # ms) st = route_msgs env af ms (route_step env af rt as st)"
| "route_msgs env af (_ # ms) st = route_msgs env af ms st"

text \<open>The receive loop over what the socket delivers; it waits when nothing more comes.\<close>

fun route_recv :: "if_env \<Rightarrow> nat \<Rightarrow> (int + nlmsg list) list \<Rightarrow> route_state \<Rightarrow> netlink_route_info_t cres" where
  "route_recv env af [] st = Block"
| "route_recv env af (Inl e # rs) st = Err e"
| "route_recv env af (Inr ms # rs) st =
     (case route_msgs env af ms st of
        (True, st') \<Rightarrow> (case rs_found st' of None \<Rightarrow> Err ENODEV | Some r \<Rightarrow> Ok r)
      | (False, st') \<Rightarrow> route_recv env af rs st')"

definition get_netlink_route_info ::
  "if_env \<Rightarrow> int option \<Rightarrow> int option \<Rightarrow> (int + nlmsg list) list \<Rightarrow> nat \<Rightarrow> bool \<Rightarrow> netlink_route_info_t cres" where
  "get_netlink_route_info env socket_err send_err recvs af out =
     (if \<not> out then Err EINVAL
      else if af \<noteq> AF_INET then Err EAFNOSUPPORT
      else case socket_err of Some e \<Rightarrow> Err e
      | None \<Rightarrow> (case send_err of Some e \<Rightarrow> Err e
      | None \<Rightarrow> route_recv env af recvs \<lparr>rs_best = - 1, rs_found = None\<rparr>))"

section \<open>The address\<close>

record netlink_addr_info_t =
  na_ip :: in_addr
  na_ip_str :: string
  na_mask :: in_addr
  na_bcast :: in_addr
  na_prefixlen :: nat

fun addr_attrs :: "ifattr list \<Rightarrow> in_addr \<times> in_addr \<Rightarrow> in_addr \<times> in_addr" where
  "addr_attrs [] lb = lb"
| "addr_attrs (IFA_LOCAL a # as) (l, b) = addr_attrs as (a, b)"
| "addr_attrs (IFA_ADDRESS a # as) (l, b) = addr_attrs as (if l = 0 then a else l, b)"
| "addr_attrs (IFA_BROADCAST a # as) (l, b) = addr_attrs as (l, a)"
| "addr_attrs (IFA_IGNORED # as) (l, b) = addr_attrs as (l, b)"

definition addr_fill :: "nat \<Rightarrow> in_addr \<Rightarrow> in_addr \<Rightarrow> netlink_addr_info_t" where
  "addr_fill plen ip bcast =
     (let m = (if 0 < plen \<and> plen \<le> 32 then htonl (push_bit (32 - plen) 0xFFFFFFFF AND 0xFFFFFFFF) else 0) in
      \<lparr>na_ip = ip, na_ip_str = (case inet_ntop ip 16 of Ok str \<Rightarrow> str | _ \<Rightarrow> []), na_mask = m,
       na_bcast = (if bcast \<noteq> 0 then bcast else if m \<noteq> 0 then ip OR NOT m else 0), na_prefixlen = plen\<rparr>)"

text \<open>The search ends at the first usable address.\<close>

fun addr_msgs :: "nat \<Rightarrow> int \<Rightarrow> nlmsg list \<Rightarrow> bool \<times> netlink_addr_info_t option" where
  "addr_msgs af ifindex [] = (False, None)"
| "addr_msgs af ifindex (NLMSG_DONE # ms) = (True, None)"
| "addr_msgs af ifindex (NLMSG_ERROR # ms) = (True, None)"
| "addr_msgs af ifindex (RTM_NEWADDR ifa as # ms) =
     (if ifa_index ifa \<noteq> of_int ifindex \<or> ifa_family ifa \<noteq> af \<or> ifa_scope ifa = RT_SCOPE_HOST
      then addr_msgs af ifindex ms
      else case addr_attrs as (0, 0) of (local, bcast) \<Rightarrow>
             if local \<noteq> 0 then (True, Some (addr_fill (ifa_prefixlen ifa) local bcast))
             else addr_msgs af ifindex ms)"
| "addr_msgs af ifindex (_ # ms) = addr_msgs af ifindex ms"

fun addr_recv :: "nat \<Rightarrow> int \<Rightarrow> (int + nlmsg list) list \<Rightarrow> netlink_addr_info_t cres" where
  "addr_recv af ifindex [] = Block"
| "addr_recv af ifindex (Inl e # rs) = Err e"
| "addr_recv af ifindex (Inr ms # rs) =
     (case addr_msgs af ifindex ms of
        (True, None) \<Rightarrow> Err ENODEV
      | (True, Some r) \<Rightarrow> Ok r
      | (False, _) \<Rightarrow> addr_recv af ifindex rs)"

definition get_netlink_addr_info ::
  "int option \<Rightarrow> int option \<Rightarrow> (int + nlmsg list) list \<Rightarrow> nat \<Rightarrow> int \<Rightarrow> bool \<Rightarrow> netlink_addr_info_t cres" where
  "get_netlink_addr_info socket_err send_err recvs af ifindex out =
     (if \<not> out \<or> ifindex \<le> 0 then Err EINVAL
      else if af \<noteq> AF_INET then Err EAFNOSUPPORT
      else case socket_err of Some e \<Rightarrow> Err e
      | None \<Rightarrow> (case send_err of Some e \<Rightarrow> Err e
      | None \<Rightarrow> addr_recv af ifindex recvs))"

section \<open>The link\<close>

record netlink_link_info_t =
  nk_mtu :: u32
  nk_mac :: bytes

fun link_attrs :: "iflattr list \<Rightarrow> netlink_link_info_t \<Rightarrow> netlink_link_info_t" where
  "link_attrs [] l = l"
| "link_attrs (IFLA_MTU m # as) l = link_attrs as (l\<lparr>nk_mtu := m\<rparr>)"
| "link_attrs (IFLA_ADDRESS a # as) l = link_attrs as (if 6 \<le> length a then l\<lparr>nk_mac := take 6 a\<rparr> else l)"
| "link_attrs (IFLA_IGNORED # as) l = link_attrs as l"

definition get_netlink_link_info :: "nl_os \<Rightarrow> int \<Rightarrow> bool \<Rightarrow> netlink_link_info_t cres" where
  "get_netlink_link_info os ifindex out =
     (if \<not> out \<or> ifindex \<le> 0 then Err EINVAL
      else case nl_socket_err os of Some e \<Rightarrow> Err e
      | None \<Rightarrow> (case nl_send_err os of Some e \<Rightarrow> Err e
      | None \<Rightarrow> (case nl_recv os of
          Inl e \<Rightarrow> Err e
        | Inr (RTM_NEWLINK ifi as # _) \<Rightarrow> Ok (link_attrs as \<lparr>nk_mtu = 0, nk_mac = replicate 6 0\<rparr>)
        | Inr _ \<Rightarrow> Err ENODEV)))"

section \<open>Changes\<close>

text \<open>Whether one buffer of events says that the outside interface may have changed.\<close>

fun wan_event :: "int \<Rightarrow> nlmsg \<Rightarrow> bool" where
  "wan_event wan (RTM_NEWROUTE rt _) \<longleftrightarrow> rtm_family rt = AF_INET \<and> rtm_table rt = RT_TABLE_MAIN \<and> rtm_dst_len rt = 0"
| "wan_event wan (RTM_DELROUTE rt _) \<longleftrightarrow> rtm_family rt = AF_INET \<and> rtm_table rt = RT_TABLE_MAIN \<and> rtm_dst_len rt = 0"
| "wan_event wan (RTM_NEWLINK ifi _) \<longleftrightarrow> ifi_index ifi = wan \<and> (ifi_flags ifi AND 0x01 = 0 \<or> ifi_flags ifi AND 0x40 = 0)"
| "wan_event wan (RTM_DELLINK ifi _) \<longleftrightarrow> ifi_index ifi = wan \<and> (ifi_flags ifi AND 0x01 = 0 \<or> ifi_flags ifi AND 0x40 = 0)"
| "wan_event wan _ \<longleftrightarrow> False"

definition process_netlink_event :: "int + nlmsg list \<Rightarrow> int \<Rightarrow> bool" where
  "process_netlink_event r wan = (case r of Inl e \<Rightarrow> False | Inr ms \<Rightarrow> list_ex (wan_event wan) ms)"

section \<open>Candidates\<close>

text \<open>The routes that may be chosen: default routes of the main table over an online interface
  that is neither loopback nor point-to-point, with a gateway.\<close>

fun route_candidate :: "if_env \<Rightarrow> nat \<Rightarrow> nlmsg \<Rightarrow> netlink_route_info_t option" where
  "route_candidate env af (RTM_NEWROUTE rt as) =
     (if \<not> route_header_ok af rt then None
      else case route_attrs env as \<lparr>ra_ifindex = 0, ra_ifname = [], ra_metric = 0, ra_has_gateway = False,
                                    ra_gateway = 0\<rparr> of
             None \<Rightarrow> None
           | Some a \<Rightarrow>
             if 0 < ra_ifindex a \<and> ra_has_gateway a \<and>
                is_link_online (ie_flags env (ra_ifname a)) (Some (ra_ifname a))
             then Some \<lparr>nr_ifindex = ra_ifindex a, nr_ifname = take 15 (ra_ifname a),
                        nr_gateway = ra_gateway a, nr_metric = ra_metric a\<rparr>
             else None)"
| "route_candidate env af _ = None"

definition route_candidates :: "if_env \<Rightarrow> nat \<Rightarrow> nlmsg list \<Rightarrow> netlink_route_info_t list" where
  "route_candidates env af ms = List.map_filter (route_candidate env af) ms"

fun ends_dump :: "nlmsg \<Rightarrow> bool" where
  "ends_dump NLMSG_DONE = True" | "ends_dump NLMSG_ERROR = True" | "ends_dump _ = False"

text \<open>Keeping the last of the best.\<close>

definition better :: "route_state \<Rightarrow> netlink_route_info_t \<Rightarrow> route_state" where
  "better st c = (if nr_metric c \<le> rs_best st then \<lparr>rs_best = nr_metric c, rs_found = Some c\<rparr> else st)"

lemma route_step_better:
  "route_step env af rt as st =
     (case route_candidate env af (RTM_NEWROUTE rt as) of None \<Rightarrow> st | Some c \<Rightarrow> better st c)"
  by (auto simp: route_step_def better_def split: option.split)

lemma route_candidates_Cons:
  "route_candidates env af (m # ms) =
     (case route_candidate env af m of None \<Rightarrow> route_candidates env af ms
      | Some c \<Rightarrow> c # route_candidates env af ms)"
  by (simp add: route_candidates_def map_filter_simps split: option.split)

lemma route_msgs_fold:
  assumes "\<forall>m\<in>set ms. \<not> ends_dump m"
  shows "route_msgs env af (ms @ rest) st = route_msgs env af rest (foldl better st (route_candidates env af ms))"
  using assms
proof (induction ms arbitrary: st)
  case Nil
  then show ?case by (simp add: route_candidates_def map_filter_simps)
next
  case (Cons m ms)
  then show ?case
    by (cases m) (simp_all add: route_candidates_Cons route_step_better split: option.split del: route_candidate.simps(1))
qed

lemma route_candidates_append: "route_candidates env af (xs @ ys) = route_candidates env af xs @ route_candidates env af ys"
  by (induction xs) (simp_all add: route_candidates_Cons route_candidates_def[of _ _ "[]"] map_filter_simps split: option.split)

lemma route_recv_batches:
  assumes "\<forall>ms\<in>set batches. \<forall>m\<in>set ms. \<not> ends_dump m" "\<forall>m\<in>set ms. \<not> ends_dump m" "ends_dump end_msg"
  shows "route_recv env af (map Inr batches @ Inr (ms @ end_msg # junk) # rest) st =
    (case rs_found (foldl better st (route_candidates env af (concat batches @ ms))) of
       None \<Rightarrow> Err ENODEV | Some r \<Rightarrow> Ok r)"
  using assms
proof (induction batches arbitrary: st)
  case Nil
  then show ?case using route_msgs_fold[of ms env af "end_msg # junk" st] by (cases end_msg) auto
next
  case (Cons b batches)
  then show ?case using route_msgs_fold[of b env af "[]" st] by (simp add: route_candidates_append)
qed

text \<open>The fold keeps the last of the minimal candidates.\<close>

lemma foldl_better:
  assumes "foldl better \<lparr>rs_best = - 1, rs_found = None\<rparr> cs = st"
  shows "(cs = [] \<longrightarrow> st = \<lparr>rs_best = - 1, rs_found = None\<rparr>) \<and>
    (cs \<noteq> [] \<longrightarrow> (\<exists>xs r ys. cs = xs @ r # ys \<and> st = \<lparr>rs_best = nr_metric r, rs_found = Some r\<rparr> \<and>
       (\<forall>c\<in>set xs. nr_metric r \<le> nr_metric c) \<and> (\<forall>c\<in>set ys. nr_metric r < nr_metric c)))"
  using assms
proof (induction cs arbitrary: st rule: rev_induct)
  case Nil
  then show ?case by simp
next
  case (snoc c cs)
  let ?st = "foldl better \<lparr>rs_best = - 1, rs_found = None\<rparr> cs"
  have st: "st = better ?st c" using snoc.prems by simp
  show ?case
  proof (cases "cs = []")
    case True
    have "nr_metric c \<le> - 1" using word_n1_ge[of "nr_metric c"] by simp
    then have "st = \<lparr>rs_best = nr_metric c, rs_found = Some c\<rparr>" using st True by (simp add: better_def)
    then show ?thesis using True by (intro conjI impI exI[of _ "[]"] exI[of _ c]) auto
  next
    case False
    then obtain xs r ys where r: "cs = xs @ r # ys" "?st = \<lparr>rs_best = nr_metric r, rs_found = Some r\<rparr>"
      "\<forall>c\<in>set xs. nr_metric r \<le> nr_metric c" "\<forall>c\<in>set ys. nr_metric r < nr_metric c"
      using snoc.IH[OF refl] by blast
    show ?thesis
    proof (cases "nr_metric c \<le> nr_metric r")
      case True
      then have "\<forall>d\<in>set cs. nr_metric c \<le> nr_metric d" using r by (auto intro: order.trans less_imp_le)
      moreover have "st = \<lparr>rs_best = nr_metric c, rs_found = Some c\<rparr>" using True st r(2) by (simp add: better_def)
      ultimately show ?thesis by (intro conjI impI exI[of _ cs] exI[of _ c] exI[of _ "[]"]) auto
    next
      case no: False
      then have "st = ?st" using st r(2) by (simp add: better_def)
      then show ?thesis using r no by (intro conjI impI exI[of _ xs] exI[of _ r] exI[of _ "ys @ [c]"]) auto
    qed
  qed
qed

lemma route_attrs_index:
  "route_attrs env as a = Some a' \<Longrightarrow>
   ra_ifindex a' = ra_ifindex a \<or>
   \<not> netlink_is_loopback (ie_link env (ra_ifindex a')) (ra_ifindex a') \<and>
   \<not> netlink_is_pointtopoint (ie_link env (ra_ifindex a')) (ra_ifindex a')"
  by (induction env as a rule: route_attrs.induct) (auto split: if_splits)

lemma route_candidate_sound:
  assumes "route_candidate env af m = Some c"
  shows "0 < nr_ifindex c \<and> \<not> netlink_is_loopback (ie_link env (nr_ifindex c)) (nr_ifindex c) \<and>
    \<not> netlink_is_pointtopoint (ie_link env (nr_ifindex c)) (nr_ifindex c)"
  using assms
  by (cases m) (auto split: if_splits option.splits dest: route_attrs_index)

section \<open>Properties\<close>


text \<open>A wired and a wireless default route with the same metric, and one over the tunnel with a
  better one: the wireless route, the last of the two, is chosen.\<close>

definition demo_if_env :: if_env where
  "demo_if_env =
     \<lparr>ie_link = (\<lambda>i. \<lparr>nl_socket_err = None, nl_send_err = None,
                       nl_recv = Inr [RTM_NEWLINK \<lparr>ifi_index = i, ifi_flags = (if i = 9 then 0x91 else 0x41)\<rparr> []]\<rparr>),
      ie_name = (\<lambda>i. Some (if i = 2 then ''eth0'' else if i = 3 then ''wlan0'' else ''tun0'')),
      ie_flags = (\<lambda>n. \<lparr>ff_socket = True, ff_ioctl = True, ff_flags = 0x41\<rparr>)\<rparr>"

definition demo_route :: "int \<Rightarrow> u32 \<Rightarrow> nlmsg" where
  "demo_route i p = RTM_NEWROUTE \<lparr>rtm_family = 2, rtm_dst_len = 0, rtm_table = 254, rtm_scope = 0, rtm_type = 1\<rparr>
     [RTA_OIF i, RTA_GATEWAY 0xC0A80001, RTA_PRIORITY p]"

lemma demo_route_ends [simp]: "\<not> ends_dump (demo_route i p)"
  by (simp add: demo_route_def)

lemma demo_candidates:
  "map (\<lambda>c. (nr_ifname c, nr_metric c)) (route_candidates demo_if_env 2 [demo_route 2 100, demo_route 9 0, demo_route 3 100]) =
     [(''eth0'', 100), (''wlan0'', 100)]"
  by code_simp


end
