(* ===== verification/Engine_Base.thy ===== *)
theory Engine_Base
  imports Net_Iface Mem_Pool Sync_Prims
begin

text \<open>
  What the engines of both programs share: finding the uplink, \<^verbatim>\<open>detect_default_wan\<close> of
  \<^verbatim>\<open>vpn_server_engine.c\<close> and \<^verbatim>\<open>vpn_client_engine.c\<close>, making the pools of
  packets, and the steps of \<^verbatim>\<open>vpn_engine_cleanup\<close> both have: stopping the threads and
  destroying pools and queue.
\<close>

section \<open>Pools\<close>

text \<open>A \<^verbatim>\<open>pool_init\<close> with the answers of the allocator, the mutex and the condition.\<close>

type_synonym pool_env = "nat option \<times> int \<times> int"

abbreviation SIZEOF_PKT_DATA :: u64 where "SIZEOF_PKT_DATA \<equiv> 2064"

definition make_pool :: "pool_env \<Rightarrow> u64 \<Rightarrow> nat \<Rightarrow> pmem \<Rightarrow> pmem \<times> nat cres" where
  "make_pool pe bs cap m = (case pe of (a, mrc, crc) \<Rightarrow> pool_init a mrc crc bs cap m)"

section \<open>The uplink\<close>

record net_iface_t =
  wi_ifindex :: int
  wi_ifname :: string
  wi_gateway :: in_addr
  wi_ip :: in_addr
  wi_ip_str :: string
  wi_mask :: in_addr

record wan_env =
  we_if :: if_env
  we_route :: "int option \<times> int option \<times> (int + nlmsg list) list"
  we_addr :: "int option \<times> int option \<times> (int + nlmsg list) list"
  we_link :: nl_os
  we_malloc :: bool

definition detect_default_wan :: "wan_env \<Rightarrow> net_iface_t cres" where
  "detect_default_wan env =
     (case we_route env of (so, se, rs) \<Rightarrow>
      case get_netlink_route_info (we_if env) so se rs AF_INET True of
        Block \<Rightarrow> Block
      | Ok r \<Rightarrow>
        (case we_addr env of (so', se', rs') \<Rightarrow>
         case get_netlink_addr_info so' se' rs' AF_INET (nr_ifindex r) True of
           Block \<Rightarrow> Block
         | Ok a \<Rightarrow>
           (case get_netlink_link_info (we_link env) (nr_ifindex r) True of
              Block \<Rightarrow> Block
            | Ok _ \<Rightarrow>
              if \<not> we_malloc env then Err ENOMEM
              else Ok \<lparr>wi_ifindex = nr_ifindex r, wi_ifname = nr_ifname r, wi_gateway = nr_gateway r,
                       wi_ip = na_ip a, wi_ip_str = na_ip_str a, wi_mask = na_mask a\<rparr>
            | _ \<Rightarrow> Err ECANCELED)
         | _ \<Rightarrow> Err ECANCELED)
      | _ \<Rightarrow> Err ECANCELED)"

text \<open>A host with one interface.\<close>

definition demo_wan_env :: wan_env where
  "demo_wan_env =
     \<lparr>we_if = demo_if_env, we_route = (None, None, [Inr [demo_route 2 100, NLMSG_DONE]]),
        we_addr = (None, None, [Inr [RTM_NEWADDR \<lparr>ifa_family = 2, ifa_prefixlen = 24, ifa_scope = 0, ifa_index = 2\<rparr> [IFA_LOCAL 0x0B0A0A0A]]]),
        we_link = \<lparr>nl_socket_err = None, nl_send_err = None, nl_recv = Inr [RTM_NEWLINK \<lparr>ifi_index = 2, ifi_flags = 0x41\<rparr> []]\<rparr>,
        we_malloc = True\<rparr>"

lemma demo_wan: "detect_default_wan demo_wan_env =
    Ok \<lparr>wi_ifindex = 2, wi_ifname = ''eth0'', wi_gateway = 0xC0A80001, wi_ip = 0x0B0A0A0A, wi_ip_str = ''10.10.10.11'', wi_mask = 0x00FFFFFF\<rparr>"
  by code_simp

section \<open>Cleaning up\<close>

text \<open>Sequencing: a wait or a failed assertion ends the sequence.\<close>

fun cbind :: "'a cres \<Rightarrow> ('a \<Rightarrow> 'b cres) \<Rightarrow> 'b cres" where
  "cbind (Ok a) f = f a"
| "cbind (Err e) f = Err e"
| "cbind Block f = Block"
| "cbind Abort f = Abort"

lemma cbind_Ok: "cbind r f = Ok b \<longleftrightarrow> (\<exists>a. r = Ok a \<and> f a = Ok b)"
  by (cases r) simp_all

text \<open>The return values of these calls are not looked at; a null pointer is refused by the callee.\<close>

definition destroy_pool :: "nat option \<Rightarrow> pmem \<Rightarrow> pmem cres" where
  "destroy_pool pp m =
     (case pool_destroy mutex_ok 0 0 pp m of
        (m', Ok _) \<Rightarrow> Ok m' | (m', Err _) \<Rightarrow> Ok m' | (m', Block) \<Rightarrow> Block | (m', Abort) \<Rightarrow> Abort)"

definition destroy_queue :: "'a queue_t \<Rightarrow> unit cres" where
  "destroy_queue q =
     (case snd (queue_destroy \<lparr>sem_destroy_pop_rc = 0, sem_destroy_push_rc = 0, mutex_destroy_rc = 0\<rparr> (Some q)) of
        Ok _ \<Rightarrow> Ok () | Err _ \<Rightarrow> Ok () | Block \<Rightarrow> Block | Abort \<Rightarrow> Abort)"

definition destroy_sync :: "state_sync_t \<Rightarrow> state_sync_t" where
  "destroy_sync st = (case fst (state_sync_destroy 0 0 (Some st)) of Some st' \<Rightarrow> st' | None \<Rightarrow> st)"

text \<open>The null pointer that makes the receiving thread leave its loop. It waits when the queue is full.\<close>

definition push_sentinel :: "'a queue_t \<Rightarrow> 'a queue_t cres" where
  "push_sentinel q =
     (case queue_wait_push mutex_ok False (Some q) None of
        (Some q', Ok _) \<Rightarrow> Ok q' | (_, Block) \<Rightarrow> Block | (_, Abort) \<Rightarrow> Abort | _ \<Rightarrow> Ok q)"

text \<open>What the two threads still do to the state they share until they are joined. Joining a thread that was never created is undefined.\<close>

record 's stop_env =
  st_send_join :: "'s \<Rightarrow> 's"
  st_recv_join :: "'s \<Rightarrow> 's"

definition join_thread :: "('s \<Rightarrow> 's) \<Rightarrow> bool \<Rightarrow> 's \<Rightarrow> 's cres" where
  "join_thread rest created s = (if created then Ok (rest s) else Abort)"

end
