(* ===== verification/Wan_Monitor.thy ===== *)
theory Wan_Monitor
  imports Engine_Base
begin

text \<open>
  The watch on the uplink, the last part of \<^verbatim>\<open>common/src/net_iface.c\<close>: opening the socket
  for the kernel's events and the loop of \<^verbatim>\<open>monitor_wan_changes\<close>, which asks for the default route again
  when an event may concern it. One round of the loop takes one buffer of events and what the queries of that
  round would answer. The tracked route is shown to follow a machine that knows only the interface
  and the gateway.
\<close>

section \<open>Opening\<close>

definition open_netlink_event_listener :: "int \<Rightarrow> bool \<Rightarrow> int" where
  "open_netlink_event_listener sock_fd bind_ok = (if sock_fd < 0 then - 1 else if \<not> bind_ok then - 1 else sock_fd)"

section \<open>The tracked state\<close>

record wan_track =
  wt_route :: netlink_route_info_t
  wt_addr :: netlink_addr_info_t
  wt_link :: netlink_link_info_t

definition no_route :: netlink_route_info_t where
  "no_route = \<lparr>nr_ifindex = 0, nr_ifname = [], nr_gateway = 0, nr_metric = 0\<rparr>"

definition no_addr :: netlink_addr_info_t where
  "no_addr = \<lparr>na_ip = 0, na_ip_str = [], na_mask = 0, na_bcast = 0, na_prefixlen = 0\<rparr>"

definition no_link :: netlink_link_info_t where
  "no_link = \<lparr>nk_mtu = 0, nk_mac = replicate 6 0\<rparr>"

section \<open>Queries\<close>

definition query_route :: "wan_env \<Rightarrow> netlink_route_info_t cres" where
  "query_route env = (case we_route env of (so, se, rs) \<Rightarrow> get_netlink_route_info (we_if env) so se rs AF_INET True)"

text \<open>What a query that fails has written all the same: a candidate found before the error.\<close>

fun route_left :: "if_env \<Rightarrow> nat \<Rightarrow> (int + nlmsg list) list \<Rightarrow> route_state \<Rightarrow> netlink_route_info_t option" where
  "route_left env af (Inr ms # rs) st =
     (case route_msgs env af ms st of (True, st') \<Rightarrow> rs_found st' | (False, st') \<Rightarrow> route_left env af rs st')"
| "route_left env af _ st = rs_found st"

definition query_left :: "wan_env \<Rightarrow> netlink_route_info_t" where
  "query_left env =
     (case we_route env of (so, se, rs) \<Rightarrow>
        if so \<noteq> None \<or> se \<noteq> None then no_route
        else (case route_left (we_if env) AF_INET rs \<lparr>rs_best = - 1, rs_found = None\<rparr> of None \<Rightarrow> no_route | Some r \<Rightarrow> r))"

text \<open>Address and link; a query that fails leaves zeroes.\<close>

definition query_details :: "wan_env \<Rightarrow> int \<Rightarrow> (netlink_addr_info_t \<times> netlink_link_info_t) cres" where
  "query_details env ifindex =
     (case we_addr env of (so, se, rs) \<Rightarrow>
      case get_netlink_addr_info so se rs AF_INET ifindex True of
        Block \<Rightarrow> Block
      | ra \<Rightarrow>
        (case get_netlink_link_info (we_link env) ifindex True of
           Block \<Rightarrow> Block
         | rl \<Rightarrow> Ok (case ra of Ok a \<Rightarrow> a | _ \<Rightarrow> no_addr, case rl of Ok l \<Rightarrow> l | _ \<Rightarrow> no_link)))"

section \<open>The loop\<close>

definition monitor_start :: "wan_env \<Rightarrow> wan_track cres" where
  "monitor_start env =
     (case query_route env of
        Block \<Rightarrow> Block
      | Ok r \<Rightarrow> cbind (query_details env (nr_ifindex r)) (\<lambda>(a, l). Ok \<lparr>wt_route = r, wt_addr = a, wt_link = l\<rparr>)
      | _ \<Rightarrow> Ok \<lparr>wt_route = query_left env, wt_addr = no_addr, wt_link = no_link\<rparr>)"

definition monitor_round :: "(int + nlmsg list) \<times> wan_env \<Rightarrow> wan_track \<Rightarrow> wan_track cres" where
  "monitor_round inp t =
     (case inp of (ev, env) \<Rightarrow>
        if \<not> process_netlink_event ev (nr_ifindex (wt_route t)) then Ok t
        else (case query_route env of
           Block \<Rightarrow> Block
         | Ok r \<Rightarrow>
           if nr_ifindex r \<noteq> nr_ifindex (wt_route t) \<or> nr_gateway r \<noteq> nr_gateway (wt_route t)
           then cbind (query_details env (nr_ifindex r)) (\<lambda>(a, l). Ok \<lparr>wt_route = r, wt_addr = a, wt_link = l\<rparr>)
           else Ok t
         | _ \<Rightarrow> if nr_ifindex (wt_route t) \<noteq> 0 then Ok (t\<lparr>wt_route := no_route\<rparr>) else Ok t))"

fun monitor_rounds :: "((int + nlmsg list) \<times> wan_env) list \<Rightarrow> wan_track \<Rightarrow> wan_track cres" where
  "monitor_rounds [] t = Ok t"
| "monitor_rounds (inp # inps) t = cbind (monitor_round inp t) (monitor_rounds inps)"

text \<open>The state after the given rounds; without a socket there is no watch.\<close>

definition monitor_wan_changes :: "int \<Rightarrow> bool \<Rightarrow> wan_env \<Rightarrow> ((int + nlmsg list) \<times> wan_env) list \<Rightarrow> wan_track option cres" where
  "monitor_wan_changes sock_fd bind_ok env inps =
     (if open_netlink_event_listener sock_fd bind_ok < 0 then Ok None
      else cbind (monitor_start env) (\<lambda>t. cbind (monitor_rounds inps t) (\<lambda>t'. Ok (Some t'))))"

section \<open>The specification\<close>

text \<open>An observer that knows the interface and the gateway of the route, or that there is none.\<close>

type_synonym uplink = "(int \<times> in_addr) option"

definition uplink_of :: "netlink_route_info_t \<Rightarrow> uplink" where
  "uplink_of r = (if nr_ifindex r = 0 then None else Some (nr_ifindex r, nr_gateway r))"

definition best_uplink :: "wan_env \<Rightarrow> uplink" where
  "best_uplink env = (case query_route env of Ok r \<Rightarrow> uplink_of r | _ \<Rightarrow> None)"

definition watch :: "(int + nlmsg list) \<times> wan_env \<Rightarrow> uplink \<Rightarrow> uplink" where
  "watch inp u =
     (if process_netlink_event (fst inp) (case u of None \<Rightarrow> 0 | Some (i, _) \<Rightarrow> i) then best_uplink (snd inp) else u)"

section \<open>Refinement\<close>

lemma route_msgs_positive:
  assumes "\<forall>r. rs_found st = Some r \<longrightarrow> 0 < nr_ifindex r" "route_msgs env af ms st = (b, st')"
  shows "\<forall>r. rs_found st' = Some r \<longrightarrow> 0 < nr_ifindex r"
  using assms
proof (induction env af ms st rule: route_msgs.induct)
  case (4 env af rt as ms st)
  have "\<forall>r. rs_found (route_step env af rt as st) = Some r \<longrightarrow> 0 < nr_ifindex r"
    using 4(2) unfolding route_step_def by (simp split: option.split)
  from "4.IH"[OF this] "4.prems"(2) show ?case by simp
qed simp_all

lemma route_recv_positive:
  assumes "route_recv env af rs st = Ok r" "\<forall>r. rs_found st = Some r \<longrightarrow> 0 < nr_ifindex r"
  shows "0 < nr_ifindex r"
  using assms
proof (induction env af rs st rule: route_recv.induct)
  case (3 env af ms rs st)
  obtain b st' where m: "route_msgs env af ms st = (b, st')" by (metis prod.exhaust)
  then show ?case using 3 route_msgs_positive[OF 3(3) m] by (auto split: bool.splits option.splits)
qed simp_all

lemma query_route_positive: "query_route env = Ok r \<Longrightarrow> 0 < nr_ifindex r"
  by (auto simp: query_route_def get_netlink_route_info_def split: prod.splits if_splits option.splits intro: route_recv_positive)

lemma route_left_positive:
  assumes "route_left env af rs st = Some r" "\<forall>r. rs_found st = Some r \<longrightarrow> 0 < nr_ifindex r"
  shows "0 < nr_ifindex r"
  using assms
proof (induction env af rs st rule: route_left.induct)
  case (1 env af ms rs st)
  obtain b st' where m: "route_msgs env af ms st = (b, st')" by (metis prod.exhaust)
  then show ?case using 1 route_msgs_positive[OF 1(3) m] by (auto split: bool.splits)
qed simp_all

lemma query_left_tracked: "0 < nr_ifindex (query_left env) \<or> query_left env = no_route"
  by (auto simp: query_left_def split: prod.split option.split dest: route_left_positive)

definition tracked :: "wan_track \<Rightarrow> bool" where
  "tracked t \<longleftrightarrow> 0 < nr_ifindex (wt_route t) \<or> wt_route t = no_route"

lemma uplink_of_no_route [simp]: "uplink_of no_route = None"
  by (simp add: uplink_of_def no_route_def)

lemma monitor_start_tracked:
  assumes "monitor_start env = Ok t"
  shows "tracked t" "\<forall>r. query_route env = Ok r \<longrightarrow> wt_route t = r"
  using assms query_left_tracked[of env]
  by (auto simp: monitor_start_def tracked_def cbind_Ok split: cres.splits dest: query_route_positive)

lemma monitor_round_watch:
  assumes "monitor_round inp t = Ok t'" "tracked t"
  shows "tracked t' \<and> uplink_of (wt_route t') = watch inp (uplink_of (wt_route t))"
proof -
  obtain ev env where inp: "inp = (ev, env)" by (cases inp)
  have idx: "(case uplink_of (wt_route t) of None \<Rightarrow> 0 | Some (i, _) \<Rightarrow> i) = nr_ifindex (wt_route t)"
    by (simp add: uplink_of_def)
  show ?thesis using assms inp idx
    by (auto simp: monitor_round_def watch_def best_uplink_def tracked_def uplink_of_def no_route_def cbind_Ok
        split: if_splits cres.splits dest: query_route_positive)
qed

lemma monitor_rounds_watch:
  assumes "monitor_rounds inps t = Ok t'" "tracked t"
  shows "tracked t' \<and> uplink_of (wt_route t') = fold watch inps (uplink_of (wt_route t))"
  using assms
proof (induction inps arbitrary: t)
  case (Cons inp inps)
  then obtain t1 where "monitor_round inp t = Ok t1" "monitor_rounds inps t1 = Ok t'" by (auto simp: cbind_Ok)
  then show ?case using Cons monitor_round_watch[of inp t t1] by simp
qed simp

text \<open>Events about addresses are subscribed to and then not looked at.\<close>

lemma address_events_unseen:
  assumes "\<forall>m\<in>set ms. \<exists>ifa as. m = RTM_NEWADDR ifa as"
  shows "monitor_round (Inr ms, env) t = Ok t"
proof -
  have "\<not> wan_event i m" if "m \<in> set ms" for m i using assms that by auto
  then show ?thesis by (simp add: monitor_round_def process_netlink_event_def list_ex_iff)
qed

section \<open>Properties\<close>


text \<open>The cable is pulled: the interface of the tracked route goes down and the wireless one takes over.\<close>

definition demo_wlan_env :: wan_env where
  "demo_wlan_env = demo_wan_env\<lparr>we_route := (None, None, [Inr [demo_route 3 600, NLMSG_DONE]]),
     we_addr := (None, None, [Inr [RTM_NEWADDR \<lparr>ifa_family = 2, ifa_prefixlen = 24, ifa_scope = 0, ifa_index = 3\<rparr> [IFA_LOCAL 0x0C0A0A0A]]])\<rparr>"


end
