(* ===== verification/Tun_Setup.thy ===== *)
theory Tun_Setup
  imports Tun_Api
begin

text \<open>
  Setting up a tunnel is a sequence of calls of the tunnel interface, most of them checked: the first
  that fails ends the sequence. Both programs do it, the server at start
  (\<^verbatim>\<open>setup_tun_interface\<close>) and the client when it receives its configuration
  (\<^verbatim>\<open>process_ctrl_pkt\<close>). Here are the sequence, what each call leaves of the device's
  configuration, and when it succeeds.
\<close>

section \<open>Sequences of checked calls\<close>

type_synonym tun_step = "bool \<times> (tun_iface option \<Rightarrow> tun_out)"

text \<open>The flag of a step says that its result is checked. The result says whether the sequence came to
  its end.\<close>

fun run_steps :: "tun_step list \<Rightarrow> tun_iface option \<Rightarrow> tun_iface option \<times> sys_req list \<times> bool" where
  "run_steps [] tp = (tp, [], True)"
| "run_steps ((checked, op) # steps) tp =
     (case op tp of (tp', reqs, ret) \<Rightarrow>
        if checked \<and> ret \<noteq> 0 then (tp', reqs, False)
        else case run_steps steps tp' of (tp'', reqs', ok) \<Rightarrow> (tp'', reqs @ reqs', ok))"

text \<open>\<^verbatim>\<open>tun_start\<close> as a step: it asks nothing of the system.\<close>

definition start_step :: "tun_iface option \<Rightarrow> tun_out" where
  "start_step tp = (tp, [], tun_start tp)"

section \<open>What the calls leave of the configuration\<close>

record tun_cfg =
  cf_ip :: in_addr
  cf_mask :: in_addr
  cf_dns1 :: in_addr
  cf_dns2 :: in_addr
  cf_mtu :: u16

definition cfg :: "tun_iface \<Rightarrow> tun_cfg" where
  "cfg tun = \<lparr>cf_ip = t_ip tun, cf_mask = t_mask tun, cf_dns1 = t_dns1 tun, cf_dns2 = t_dns2 tun, cf_mtu = t_mtu tun\<rparr>"

definition netlink :: "tun_iface \<Rightarrow> bool" where
  "netlink tun \<longleftrightarrow> t_api tun = Some TUN_BACKEND_NETLINK_CLIENT \<or> t_api tun = Some TUN_BACKEND_NETLINK_SERVER"

text \<open>A step that keeps the configuration and the backend, whatever it returns.\<close>

definition keeps :: "(tun_iface option \<Rightarrow> tun_out) \<Rightarrow> bool" where
  "keeps op \<longleftrightarrow> (\<forall>tun. netlink tun \<longrightarrow>
     (\<exists>tun'. fst (op (Some tun)) = Some tun' \<and> netlink tun' \<and> cfg tun' = cfg tun))"

lemmas api_tables = api_table_netlink_client_def api_table_netlink_server_def
lemmas tun_wrap = dispatch_def on_success_def netlink_def api_tables

lemma keeps_calls:
  "keeps (tun_open sys info)" "keeps (tun_set_up sys info)" "keeps (tun_rules_clear sys)"
  "keeps (\<lambda>tp. tun_add_route sys tp r)" "keeps (\<lambda>tp. tun_client_rules_add sys tp w ip port)"
  "keeps (\<lambda>tp. tun_server_rules_add sys tp wan)" "keeps (\<lambda>tp. tun_ip_forwarding sys tp b)"
  "keeps (tun_clear_dns sys)" "keeps start_step"
  unfolding keeps_def
  by (auto simp: tun_wrap tun_open_def sys_tun_open_def tun_set_up_def sys_tun_set_up_def sys_tun_flags_def
      tun_rules_clear_def sys_server_rules_del_nft_def syt_client_rules_del_nft_def run_nft_def tun_add_route_def
      sys_tun_add_route_def tun_client_rules_add_def syt_client_rules_add_nft_def tun_server_rules_add_def
      syt_server_rules_add_nft_def tun_ip_forwarding_def server_sys_tun_ip_forwarding_def tun_clear_dns_def
      sys_tun_clear_dns_def start_step_def cfg_def Let_def split: option.split cres.split)

lemma tun_set_addr_cfg:
  assumes "netlink tun" "tun_set_addr sys (Some tun) (Some (dotted a)) (Some (dotted m)) = (tp, reqs, 0)"
  shows "\<exists>tun'. tp = Some tun' \<and> netlink tun' \<and> cfg tun' = (cfg tun)\<lparr>cf_ip := a, cf_mask := m\<rparr> \<and> validate_mask m"
  using assms
  by (auto simp: tun_wrap tun_set_addr_def sys_tun_set_address_def cfg_def Let_def split: if_splits)

lemma tun_set_mtu_cfg:
  assumes "netlink tun" "tun_set_mtu sys (Some tun) mtu = (tp, reqs, 0)"
  shows "\<exists>tun'. tp = Some tun' \<and> netlink tun' \<and> cfg tun' = (cfg tun)\<lparr>cf_mtu := mtu\<rparr> \<and> 256 \<le> mtu \<and> mtu \<le> 1380"
  using assms by (auto simp: tun_wrap tun_set_mtu_def sys_tun_set_mtu_def cfg_def Let_def split: if_splits)

lemma tun_set_dns_cfg:
  assumes "netlink tun" "tun_set_dns sys (Some tun) (Some (dotted d1)) (Some (dotted d2)) = (tp, reqs, 0)"
  shows "\<exists>tun'. tp = Some tun' \<and> netlink tun' \<and> cfg tun' = (cfg tun)\<lparr>cf_dns1 := d1, cf_dns2 := d2\<rparr>"
  using assms by (auto simp: tun_wrap tun_set_dns_def sys_tun_set_dns_def cfg_def Let_def split: if_splits option.splits)

section \<open>When the calls succeed\<close>

text \<open>A system that does what it is asked: no request fails and commands exit with zero. The nft
  scripts are left out, they are not checked everywhere.\<close>

definition sys_works :: "sys \<Rightarrow> bool" where
  "sys_works sys \<longleftrightarrow> (\<forall>r. (\<forall>p s. r \<noteq> NftScript p s) \<longrightarrow> 0 \<le> sys r) \<and> (\<forall>args. sys (Run args) = 0)"

definition named :: "tun_iface \<Rightarrow> bool" where
  "named tun \<longleftrightarrow> netlink tun \<and> ifname tun \<noteq> [] \<and> priv_data tun \<noteq> None"

definition succeeds :: "(tun_iface option \<Rightarrow> tun_out) \<Rightarrow> (u64 \<Rightarrow> u64) \<Rightarrow> tun_iface \<Rightarrow> bool" where
  "succeeds op change tun \<longleftrightarrow>
     (\<exists>tun' reqs. op (Some tun) = (Some tun', reqs, 0) \<and> named tun' \<and> sts_flags tun' = change (sts_flags tun) \<and>
        t_api tun' = t_api tun)"

lemma sys_worksD:
  assumes "sys_works sys"
  shows "\<not> sys OpenTun < 0" "\<not> sys (TunSetIff s) < 0" "\<not> sys Malloc < 0" "\<not> sys Socket < 0"
    "\<not> sys (SetIfAddr s a) < 0" "\<not> sys (SetIfMask s a) < 0" "\<not> sys (SetIfMtu s mtu) < 0"
    "\<not> sys (GetIfFlags s) < 0" "\<not> sys (SetIfFlags s f) < 0" "sys (Run args) = 0"
  using assms by (simp_all add: sys_works_def not_less)

lemma open_succeeds:
  assumes "sys_works sys" "si_ifname info \<noteq> []" "init_priv_data (si_exec info) \<noteq> None" "netlink tun"
  shows "succeeds (tun_open sys info) (\<lambda>f. f OR TUN_STATE_OPEN) tun"
  using assms(2-4)
  by (auto simp: succeeds_def tun_open_def sys_tun_open_def named_def tun_wrap Let_def sys_worksD[OF assms(1)])

lemma calls_succeed:
  assumes "sys_works sys" "named tun"
  shows "validate_mask m \<Longrightarrow> succeeds (\<lambda>tp. tun_set_addr sys tp (Some (dotted a)) (Some (dotted m)))
      (\<lambda>f. f OR (TUN_STATE_IP_SET OR TUN_STATE_MASK_SET)) tun"
    "256 \<le> mtu \<Longrightarrow> mtu \<le> 1380 \<Longrightarrow> succeeds (\<lambda>tp. tun_set_mtu sys tp mtu) (\<lambda>f. f OR TUN_STATE_MTU_SET) tun"
    "succeeds (tun_set_up sys info) (\<lambda>f. f OR TUN_STATE_UP) tun"
    "succeeds (\<lambda>tp. tun_set_dns sys tp (Some (dotted d1)) (Some (dotted d2))) (\<lambda>f. f OR TUN_STATE_DNS_SET) tun"
    "c \<noteq> [] \<Longrightarrow> succeeds (\<lambda>tp. tun_add_route sys tp (Some c)) id tun"
    "t_api tun = Some TUN_BACKEND_NETLINK_SERVER \<Longrightarrow> succeeds (\<lambda>tp. tun_ip_forwarding sys tp b) id tun"
    "sts_flags tun AND TUN_STATE_READY = TUN_STATE_READY \<Longrightarrow> succeeds start_step id tun"
proof -
  note w = sys_worksD[OF assms(1)]
  have nd: "dotted d \<noteq> []" for d using length_dotted[of d] by auto
  obtain priv where priv: "priv_data tun = Some priv" using assms(2) by (auto simp: named_def)
  have un: "unat mtu < 256 \<longleftrightarrow> mtu < 256" for mtu :: u16 by (simp add: word_less_nat_alt)
  show "validate_mask m \<Longrightarrow> succeeds (\<lambda>tp. tun_set_addr sys tp (Some (dotted a)) (Some (dotted m)))
      (\<lambda>f. f OR (TUN_STATE_IP_SET OR TUN_STATE_MASK_SET)) tun"
    using assms(2) by (auto simp: succeeds_def tun_set_addr_def sys_tun_set_address_def named_def tun_wrap Let_def w)
  show "256 \<le> mtu \<Longrightarrow> mtu \<le> 1380 \<Longrightarrow> succeeds (\<lambda>tp. tun_set_mtu sys tp mtu) (\<lambda>f. f OR TUN_STATE_MTU_SET) tun"
    using assms(2) by (auto simp: succeeds_def tun_set_mtu_def sys_tun_set_mtu_def named_def tun_wrap Let_def w)
  show "succeeds (tun_set_up sys info) (\<lambda>f. f OR TUN_STATE_UP) tun"
    using assms(2) by (auto simp: succeeds_def tun_set_up_def sys_tun_set_up_def sys_tun_flags_def named_def tun_wrap Let_def w)
  show "succeeds (\<lambda>tp. tun_set_dns sys tp (Some (dotted d1)) (Some (dotted d2))) (\<lambda>f. f OR TUN_STATE_DNS_SET) tun"
    using assms(2) priv by (auto simp: succeeds_def tun_set_dns_def sys_tun_set_dns_def named_def tun_wrap Let_def w nd)
  show "c \<noteq> [] \<Longrightarrow> succeeds (\<lambda>tp. tun_add_route sys tp (Some c)) id tun"
    using assms(2) priv by (auto simp: succeeds_def tun_add_route_def sys_tun_add_route_def named_def tun_wrap Let_def w)
  show "t_api tun = Some TUN_BACKEND_NETLINK_SERVER \<Longrightarrow> succeeds (\<lambda>tp. tun_ip_forwarding sys tp b) id tun"
    using assms(2) priv
    by (auto simp: succeeds_def tun_ip_forwarding_def server_sys_tun_ip_forwarding_def named_def tun_wrap Let_def w)
  show "sts_flags tun AND TUN_STATE_READY = TUN_STATE_READY \<Longrightarrow> succeeds start_step id tun"
    using assms(2) by (auto simp: succeeds_def start_step_def tun_start_def named_def netlink_def)
qed

text \<open>The unchecked calls of the sequences leave the device named and its flags alone.\<close>

lemma unchecked_calls:
  assumes "named tun"
  shows "\<exists>tun'. fst (tun_rules_clear sys (Some tun)) = Some tun' \<and> named tun' \<and> sts_flags tun' = sts_flags tun \<and>
      t_api tun' = t_api tun"
    "\<exists>tun'. fst (tun_client_rules_add sys (Some tun) w ip port) = Some tun' \<and> named tun' \<and> sts_flags tun' = sts_flags tun \<and>
      t_api tun' = t_api tun"
    "\<exists>tun'. fst (tun_clear_dns sys (Some tun)) = Some tun' \<and> named tun' \<and>
      sts_flags tun' = sts_flags tun AND NOT TUN_STATE_DNS_SET \<and> t_api tun' = t_api tun"
proof -
  obtain priv where priv: "priv_data tun = Some priv" using assms by (auto simp: named_def)
  show "\<exists>tun'. fst (tun_rules_clear sys (Some tun)) = Some tun' \<and> named tun' \<and> sts_flags tun' = sts_flags tun \<and>
      t_api tun' = t_api tun"
    using assms by (auto simp: tun_rules_clear_def sys_server_rules_del_nft_def syt_client_rules_del_nft_def run_nft_def
        named_def tun_wrap Let_def)
  show "\<exists>tun'. fst (tun_client_rules_add sys (Some tun) w ip port) = Some tun' \<and> named tun' \<and> sts_flags tun' = sts_flags tun \<and>
      t_api tun' = t_api tun"
    using assms by (auto simp: tun_client_rules_add_def syt_client_rules_add_nft_def run_nft_def named_def tun_wrap Let_def
        split: option.split)
  show "\<exists>tun'. fst (tun_clear_dns sys (Some tun)) = Some tun' \<and> named tun' \<and>
      sts_flags tun' = sts_flags tun AND NOT TUN_STATE_DNS_SET \<and> t_api tun' = t_api tun"
    using assms priv by (auto simp: tun_clear_dns_def sys_tun_clear_dns_def named_def tun_wrap Let_def)
qed

section \<open>Progress of a sequence\<close>

text \<open>When a step does not end the sequence and what it does to the flags, on a device with a name.\<close>

definition proceeds :: "tun_backend \<Rightarrow> tun_step \<Rightarrow> (u64 \<Rightarrow> bool) \<times> (u64 \<Rightarrow> u64) \<Rightarrow> bool" where
  "proceeds b step e \<longleftrightarrow> (\<forall>tun. named tun \<longrightarrow> t_api tun = Some b \<longrightarrow> fst e (sts_flags tun) \<longrightarrow>
     (\<exists>tun' reqs ret. snd step (Some tun) = (Some tun', reqs, ret) \<and> (fst step \<longrightarrow> ret = 0) \<and> named tun' \<and>
        sts_flags tun' = snd e (sts_flags tun) \<and> t_api tun' = Some b))"

fun flow :: "((u64 \<Rightarrow> bool) \<times> (u64 \<Rightarrow> u64)) list \<Rightarrow> u64 \<Rightarrow> bool" where
  "flow [] f = True"
| "flow ((P, g) # es) f = (P f \<and> flow es (g f))"

lemma snd_run_steps [simp]: "snd (snd (case p of (tp, reqs, ok) \<Rightarrow> (tp, xs @ reqs, ok))) = snd (snd p)"
  by (cases p) auto

lemma run_steps_proceeds:
  "list_all2 (proceeds b) steps es \<Longrightarrow> named tun \<Longrightarrow> t_api tun = Some b \<Longrightarrow> flow es (sts_flags tun) \<Longrightarrow>
   snd (snd (run_steps steps (Some tun)))"
proof (induction steps es arbitrary: tun rule: list_all2_induct)
  case (Cons step steps e es)
  obtain c f P g where eq: "step = (c, f)" "e = (P, g)" by (cases step; cases e)
  have "P (sts_flags tun)" "flow es (g (sts_flags tun))" using Cons.prems(3) eq by simp_all
  moreover obtain tun' reqs ret where "f (Some tun) = (Some tun', reqs, ret)" "c \<longrightarrow> ret = 0" "named tun'"
    "sts_flags tun' = g (sts_flags tun)" "t_api tun' = Some b"
    using Cons.hyps(1) Cons.prems(1,2) calculation(1) eq unfolding proceeds_def by auto
  ultimately show ?case using Cons.IH[of tun'] eq(1) by simp
qed simp

lemma proceeds_succeeds:
  "(\<And>tun. named tun \<Longrightarrow> t_api tun = Some b \<Longrightarrow> succeeds op change tun) \<Longrightarrow> proceeds b (True, op) (\<lambda>_. True, change)"
  by (auto simp: proceeds_def succeeds_def)

lemma proceeds_calls:
  assumes "sys_works sys"
  shows "validate_mask m \<Longrightarrow> proceeds b (True, \<lambda>tp. tun_set_addr sys tp (Some (dotted a)) (Some (dotted m)))
      (\<lambda>_. True, \<lambda>f. f OR (TUN_STATE_IP_SET OR TUN_STATE_MASK_SET))"
    "256 \<le> mtu \<Longrightarrow> mtu \<le> 1380 \<Longrightarrow> proceeds b (True, \<lambda>tp. tun_set_mtu sys tp mtu) (\<lambda>_. True, \<lambda>f. f OR TUN_STATE_MTU_SET)"
    "proceeds b (True, tun_set_up sys info) (\<lambda>_. True, \<lambda>f. f OR TUN_STATE_UP)"
    "proceeds b (True, \<lambda>tp. tun_set_dns sys tp (Some (dotted d1)) (Some (dotted d2))) (\<lambda>_. True, \<lambda>f. f OR TUN_STATE_DNS_SET)"
    "c \<noteq> [] \<Longrightarrow> proceeds b (True, \<lambda>tp. tun_add_route sys tp (Some c)) (\<lambda>_. True, id)"
    "proceeds TUN_BACKEND_NETLINK_SERVER (True, \<lambda>tp. tun_ip_forwarding sys tp en) (\<lambda>_. True, id)"
  using calls_succeed[OF assms] by (auto intro!: proceeds_succeeds)

lemma proceeds_start: "proceeds b (True, start_step) (\<lambda>f. f AND TUN_STATE_READY = TUN_STATE_READY, id)"
  by (auto simp: proceeds_def start_step_def tun_start_def)

lemma proceeds_unchecked:
  "proceeds b (False, tun_rules_clear sys) (\<lambda>_. True, id)"
  "proceeds b (False, \<lambda>tp. tun_client_rules_add sys tp w ip port) (\<lambda>_. True, id)"
  "proceeds b (False, tun_clear_dns sys) (\<lambda>_. True, \<lambda>f. f AND NOT TUN_STATE_DNS_SET)"
  unfolding proceeds_def using unchecked_calls by (auto simp: prod_eq_iff split_paired_Ex) (metis+)

section \<open>Effects of a sequence\<close>

text \<open>What a step does to the configuration when it does not end the sequence, and what must hold for
  that.\<close>

definition effect :: "tun_step \<Rightarrow> (tun_cfg \<Rightarrow> tun_cfg) \<times> bool \<Rightarrow> bool" where
  "effect step e \<longleftrightarrow> (\<forall>tun tp reqs ret. netlink tun \<longrightarrow> snd step (Some tun) = (tp, reqs, ret) \<longrightarrow> (fst step \<longrightarrow> ret = 0) \<longrightarrow>
     (\<exists>tun'. tp = Some tun' \<and> netlink tun' \<and> cfg tun' = fst e (cfg tun) \<and> snd e))"

lemma effect_keeps: "keeps op \<Longrightarrow> effect (c, op) (id, True)"
  by (fastforce simp: keeps_def effect_def)

lemma effect_calls:
  "effect (True, \<lambda>tp. tun_set_addr sys tp (Some (dotted a)) (Some (dotted m)))
     (\<lambda>c. c\<lparr>cf_ip := a, cf_mask := m\<rparr>, validate_mask m)"
  "effect (True, \<lambda>tp. tun_set_mtu sys tp mtu) (\<lambda>c. c\<lparr>cf_mtu := mtu\<rparr>, 256 \<le> mtu \<and> mtu \<le> 1380)"
  "effect (True, \<lambda>tp. tun_set_dns sys tp (Some (dotted d1)) (Some (dotted d2)))
     (\<lambda>c. c\<lparr>cf_dns1 := d1, cf_dns2 := d2\<rparr>, True)"
  unfolding effect_def using tun_set_addr_cfg tun_set_mtu_cfg tun_set_dns_cfg by fastforce+

lemma run_steps_effect:
  assumes "list_all2 effect steps effs" "netlink tun" "run_steps steps (Some tun) = (tp, reqs, True)"
  shows "\<exists>tun'. tp = Some tun' \<and> netlink tun' \<and> cfg tun' = fold fst effs (cfg tun) \<and> list_all snd effs"
  using assms
proof (induction steps effs arbitrary: tun reqs rule: list_all2_induct)
  case Nil
  then show ?case by auto
next
  case (Cons step steps e effs)
  obtain tp1 reqs1 ret where op: "snd step (Some tun) = (tp1, reqs1, ret)" by (metis prod.exhaust)
  obtain c f where step: "step = (c, f)" by (cases step)
  have ok: "c \<longrightarrow> ret = 0" using Cons.prems(2) op step by (auto split: if_splits)
  then obtain tun1 where t1: "tp1 = Some tun1" "netlink tun1" "cfg tun1 = fst e (cfg tun)" "snd e"
    using Cons.hyps(1) Cons.prems(1) op step unfolding effect_def by (metis fst_conv snd_conv)
  obtain reqs2 where "run_steps steps (Some tun1) = (tp, reqs2, True)"
    using Cons.prems(2) op step t1(1) ok by (auto split: prod.splits if_splits)
  from Cons.IH[OF t1(2) this] show ?case using t1 by auto
qed

lemma run_steps_start:
  "run_steps (steps @ [(True, start_step)]) tp = (tp', reqs, True) \<Longrightarrow> tun_start tp' = 0"
  by (induction steps arbitrary: tp reqs) (auto simp: start_step_def split: prod.splits if_splits)

end
