(* ===== verification/Quic_Setup.thy ===== *)
theory Quic_Setup
  imports Quic_Stream Net_Iface
begin

text \<open>
  The use both programs make of the transport before and after the callbacks: the context
  structures of \<^verbatim>\<open>quic.h\<close> and the functions of \<^verbatim>\<open>quic.c\<close> that open the
  library, set addresses, credentials and parameters, start the server's listener and shut everything
  down. The library is not under the repository: each of its calls is recorded, and the status it
  answers is an argument. How it parses an address is an argument too.
\<close>

section \<open>Data\<close>

record quic_addr =
  qa_family :: nat
  qa_addr :: in_addr
  qa_port :: u16

text \<open>\<^verbatim>\<open>QUIC_SETTINGS\<close>, a field being \<^const>\<open>None\<close> when its flag in
  \<^verbatim>\<open>IsSet\<close> is not set.\<close>

record quic_settings =
  DisconnectTimeoutMs :: "u32 option"
  HandshakeIdleTimeoutMs :: "u64 option"
  IdleTimeoutMs :: "u64 option"
  KeepAliveIntervalMs :: "u32 option"
  MigrationEnabled :: "bool option"
  DatagramReceiveEnabled :: "bool option"
  MaximumMtu :: "u16 option"
  MinimumMtu :: "u16 option"
  ServerResumptionLevel :: "nat option"
  PeerBidiStreamCount :: "u16 option"

definition no_settings :: quic_settings where
  "no_settings = \<lparr>DisconnectTimeoutMs = None, HandshakeIdleTimeoutMs = None, IdleTimeoutMs = None,
     KeepAliveIntervalMs = None, MigrationEnabled = None, DatagramReceiveEnabled = None, MaximumMtu = None,
     MinimumMtu = None, ServerResumptionLevel = None, PeerBidiStreamCount = None\<rparr>"

datatype quic_cred =
    CRED_UNSET | CRED_CERTIFICATE_FILE string string | CRED_CERTIFICATE_FILE_PROTECTED string string string
  | CRED_CLIENT_NO_VALIDATION

datatype stream_flag = FLAG_GRACEFUL | FLAG_ABORT | FLAG_ABORT_SEND

datatype quic_call =
    StreamShutdown "nat option" stream_flag | StreamClose "nat option" | StreamSend "nat option" bytes
  | ConnectionShutdown "nat option" u64 | ConnectionClose "nat option" | SetCallbackHandler nat
  | ConnectionSetConfiguration nat
  | MsQuicOpen2 | RegistrationOpen string | ConfigurationOpen string quic_settings | ConfigurationLoadCredential quic_cred
  | ListenerOpen | ListenerStart string "quic_addr option" | RegistrationShutdown | ListenerClose | ConfigurationClose
  | RegistrationClose | MsQuicClose
  | ConnectionOpen | SetParamLocal "quic_addr option" | SetParamRemote "quic_addr option" | ConnectionStart u16
  | StreamOpen "nat option" | StreamStart "nat option"

text \<open>The fields of both contexts: \<^verbatim>\<open>SERVER_QUIC_CONTEXT\<close> has no connection and no
  stream, \<^verbatim>\<open>CLIENT_QUIC_CONTEXT\<close> no listener. A handle is there or null.\<close>

record quic_ctx =
  x_api :: bool
  x_reg :: bool
  x_cfg :: bool
  x_listener :: bool
  x_settings :: quic_settings
  x_creds :: quic_cred
  x_alpn :: string
  x_local :: "quic_addr option"
  x_server :: "quic_addr option"
  x_conn :: "nat option"
  x_stream :: "nat option"
  x_ticket :: "bytes option"

text \<open>What a function gives back: the context, the calls made in order, the return value.\<close>

type_synonym ctx_out = "quic_ctx \<times> quic_call list \<times> int"

section \<open>Functions of both programs\<close>

definition MsQuicCreate :: "bool \<Rightarrow> quic_ctx option" where
  "MsQuicCreate calloc_ok =
     (if \<not> calloc_ok then None
      else Some \<lparr>x_api = False, x_reg = False, x_cfg = False, x_listener = False, x_settings = no_settings,
                 x_creds = CRED_UNSET, x_alpn = [], x_local = None, x_server = None, x_conn = None,
                 x_stream = None, x_ticket = None\<rparr>)"

definition MsQuicRegister :: "quic_status \<Rightarrow> quic_status \<Rightarrow> quic_ctx \<Rightarrow> string option \<Rightarrow> ctx_out" where
  "MsQuicRegister st_open st_reg x app_name =
     (case app_name of None \<Rightarrow> (x, [], - EINVAL)
      | Some app \<Rightarrow>
        if quic_failed st_open then (x, [MsQuicOpen2], - ECANCELED)
        else let x1 = x\<lparr>x_api := True\<rparr> in
          if quic_failed st_reg then (x1, [MsQuicOpen2, RegistrationOpen app], - ECANCELED)
          else (x1\<lparr>x_reg := True\<rparr>, [MsQuicOpen2, RegistrationOpen app], 0))"

text \<open>An address that must be IPv4, with its port set.\<close>

definition ipv4_addr :: "(string \<Rightarrow> u16 \<Rightarrow> quic_addr option) \<Rightarrow> string \<Rightarrow> u16 \<Rightarrow> quic_addr option" where
  "ipv4_addr parse text port =
     (case parse text port of None \<Rightarrow> None
      | Some a \<Rightarrow> if qa_family a \<noteq> AF_INET then None else Some (a\<lparr>qa_port := port\<rparr>))"

section \<open>The server\<close>

definition MsQuicConfigLocalAddr ::
  "(string \<Rightarrow> u16 \<Rightarrow> quic_addr option) \<Rightarrow> quic_ctx \<Rightarrow> string option \<Rightarrow> u16 \<Rightarrow> ctx_out" where
  "MsQuicConfigLocalAddr parse x local_addr port =
     (case local_addr of None \<Rightarrow> (x, [], - EINVAL)
      | Some text \<Rightarrow>
     (case ipv4_addr parse text port of None \<Rightarrow> (x\<lparr>x_local := None\<rparr>, [], - EINVAL)
      | Some a \<Rightarrow> (x\<lparr>x_local := Some a\<rparr>, [], 0)))"

definition server_MsQuicConfigCredentials ::
  "quic_ctx \<Rightarrow> string option \<Rightarrow> string option \<Rightarrow> string option \<Rightarrow> ctx_out" where
  "server_MsQuicConfigCredentials x cert_file key_file password =
     (case (cert_file, key_file) of
        (Some cert, Some key) \<Rightarrow>
          (x\<lparr>x_creds := (case password of Some pw \<Rightarrow> CRED_CERTIFICATE_FILE_PROTECTED cert key pw
                          | None \<Rightarrow> CRED_CERTIFICATE_FILE cert key)\<rparr>, [], 0)
      | _ \<Rightarrow> (x\<lparr>x_creds := CRED_UNSET\<rparr>, [], - EINVAL))"

definition server_settings :: quic_settings where
  "server_settings = no_settings
     \<lparr>DisconnectTimeoutMs := Some (2 * 60 * 1000), HandshakeIdleTimeoutMs := Some (30 * 1000), IdleTimeoutMs := Some 0,
      KeepAliveIntervalMs := Some (10 * 1000), MigrationEnabled := Some True, DatagramReceiveEnabled := Some True,
      MaximumMtu := Some 1480, MinimumMtu := Some 1280, ServerResumptionLevel := Some 2, PeerBidiStreamCount := Some 4\<rparr>"

definition server_MsQuicConfigParameters :: "quic_ctx \<Rightarrow> string option \<Rightarrow> ctx_out" where
  "server_MsQuicConfigParameters x alpn =
     (case alpn of None \<Rightarrow> (x, [], - EINVAL)
      | Some a \<Rightarrow> (x\<lparr>x_alpn := a, x_settings := server_settings\<rparr>, [], 0))"

text \<open>Four requests, the first that fails ends the function.\<close>

definition MsQuicListenerStart ::
  "quic_status \<Rightarrow> quic_status \<Rightarrow> quic_status \<Rightarrow> quic_status \<Rightarrow> quic_ctx \<Rightarrow> ctx_out" where
  "MsQuicListenerStart st_conf st_cred st_open st_start x =
     (let c1 = [ConfigurationOpen (x_alpn x) (x_settings x)]; c2 = c1 @ [ConfigurationLoadCredential (x_creds x)];
          c3 = c2 @ [ListenerOpen]; c4 = c3 @ [ListenerStart (x_alpn x) (x_local x)];
          x1 = x\<lparr>x_cfg := True\<rparr>; x2 = x1\<lparr>x_listener := False\<rparr>; x3 = x2\<lparr>x_listener := True\<rparr> in
      if quic_failed st_conf then (x, c1, - ECANCELED)
      else if quic_failed st_cred then (x1, c2, - ECANCELED)
      else if quic_failed st_open then (x2, c3, - ECANCELED)
      else if quic_failed st_start then (x3, c4, - ECANCELED)
      else (x3, c4, 0))"

text \<open>The first call is made before the table of functions is tested for null.\<close>

definition server_MsQuicShutdown :: "quic_ctx \<Rightarrow> quic_call list cres" where
  "server_MsQuicShutdown x =
     (if \<not> x_api x then Abort
      else Ok ([RegistrationShutdown] @ (if x_listener x then [ListenerClose] else []) @
        (if x_cfg x then [ConfigurationClose] else []) @ (if x_reg x then [RegistrationClose] else []) @ [MsQuicClose]))"

section \<open>The client\<close>

definition MsQuicConfigAddr ::
  "(string \<Rightarrow> u16 \<Rightarrow> quic_addr option) \<Rightarrow> quic_ctx \<Rightarrow> string option \<Rightarrow> string option \<Rightarrow> u16 \<Rightarrow> ctx_out" where
  "MsQuicConfigAddr parse x local_addr server_addr server_port =
     (case (local_addr, server_addr) of
        (Some l, Some sv) \<Rightarrow>
          (case ipv4_addr parse sv server_port of None \<Rightarrow> (x\<lparr>x_server := None\<rparr>, [], - EINVAL)
           | Some a \<Rightarrow>
          (case ipv4_addr parse l 0 of None \<Rightarrow> (x\<lparr>x_server := Some a, x_local := None\<rparr>, [], - EINVAL)
           | Some b \<Rightarrow> (x\<lparr>x_server := Some a, x_local := Some b\<rparr>, [], 0)))
      | _ \<Rightarrow> (x, [], - EINVAL))"

definition client_settings :: quic_settings where
  "client_settings = no_settings
     \<lparr>DisconnectTimeoutMs := Some (2 * 5 * 1000), HandshakeIdleTimeoutMs := Some (30 * 1000), IdleTimeoutMs := Some 0,
      KeepAliveIntervalMs := Some (5 * 1000), DatagramReceiveEnabled := Some True,
      MaximumMtu := Some 1480, MinimumMtu := Some 1280\<rparr>"

definition client_MsQuicConfigParameters :: "quic_status \<Rightarrow> quic_ctx \<Rightarrow> string option \<Rightarrow> ctx_out" where
  "client_MsQuicConfigParameters st x alpn =
     (case alpn of None \<Rightarrow> (x, [], - EINVAL)
      | Some a \<Rightarrow>
        let x1 = x\<lparr>x_alpn := a, x_settings := client_settings\<rparr> in
        if quic_failed st then (x1, [ConfigurationOpen a client_settings], - ECANCELED)
        else (x1\<lparr>x_cfg := True\<rparr>, [ConfigurationOpen a client_settings], 0))"

definition client_MsQuicConfigCredentials :: "quic_status \<Rightarrow> quic_ctx \<Rightarrow> ctx_out" where
  "client_MsQuicConfigCredentials st x =
     (let x1 = x\<lparr>x_creds := CRED_CLIENT_NO_VALIDATION\<rparr> in
      (x1, [ConfigurationLoadCredential CRED_CLIENT_NO_VALIDATION], if quic_failed st then - ECANCELED else 0))"

definition client_MsQuicShutdown :: "quic_ctx \<Rightarrow> quic_call list" where
  "client_MsQuicShutdown x =
     (if x_api x then
        (case x_conn x of None \<Rightarrow> [] | Some h \<Rightarrow> [ConnectionClose (Some h)]) @
        (if x_cfg x then [ConfigurationClose] else []) @ (if x_reg x then [RegistrationClose] else []) @ [MsQuicClose]
      else [])"

end
