(* ===== verification/Server_Quic.thy ===== *)
theory Server_Quic
  imports Data_Send Pkt_Ctrl Tun_Setup Quic_Setup
begin

text \<open>
  The server's side of the transport, \<^verbatim>\<open>server/src/engine/quic.c\<close> and
  \<^verbatim>\<open>stream.c\<close>: the three callbacks, the handling of control frames and the sending of
  the answer. A handle is a number, a context pointer the address it holds. The calls made of the
  transport are kept in order; what it answers, and what the allocator answers, comes from a supply in
  the state, one element per control frame.
\<close>

section \<open>State\<close>

abbreviation SERVER_ERROR_FULL :: u64 where "SERVER_ERROR_FULL \<equiv> 0x110"

record stream_t =
  st_handle :: "nat option"
  st_client :: nat

text \<open>What answering one control frame meets.\<close>

record answer_os =
  ao_calloc :: bool
  ao_malloc :: bool
  ao_malloc_buf :: bool
  ao_send :: bool

record server_t =
  sv_msquic :: bool
  sv :: session_t
  sv_tun :: "tun_iface option"
  sv_data :: dpath
  sv_recv_pool :: nat
  sv_sends :: spath
  sv_streams :: "nat \<rightharpoonup> stream_t"
  sv_calls :: "quic_call list"
  sv_env :: "nat \<Rightarrow> answer_os"
  sv_tick :: nat

definition quic :: "quic_call \<Rightarrow> server_t \<Rightarrow> server_t" where
  "quic c s = s\<lparr>sv_calls := sv_calls s @ [c]\<rparr>"

section \<open>Control frames\<close>

text \<open>The frame to send may be null, when its allocation failed; the second allocation is not
  checked. A send the transport refuses is not recorded.\<close>

definition stream_send :: "answer_os \<Rightarrow> stream_t \<Rightarrow> bytes option \<Rightarrow> server_t \<Rightarrow> server_t \<times> int cres" where
  "stream_send os stream buf s =
     (if \<not> sv_msquic s then (s, Abort)
      else if \<not> ao_malloc os then (quic (StreamShutdown (st_handle stream) FLAG_ABORT) s, Ok (- ENOMEM))
      else case buf of None \<Rightarrow> (s, Abort)
      | Some bs \<Rightarrow>
        if \<not> ao_malloc_buf os then (s, Abort)
        else if \<not> ao_send os then (quic (StreamShutdown (st_handle stream) FLAG_ABORT) s, Ok (- ECANCELED))
        else (quic (StreamSend (st_handle stream) bs) s, Ok 0))"

text \<open>A getter's output variable is zero unless the getter writes it.\<close>

fun or_zero :: "'a :: zero cres \<Rightarrow> 'a" where
  "or_zero (Ok v) = v"
| "or_zero _ = 0"

definition server_process_ctrl_pkt :: "stream_t \<Rightarrow> pkt_ctrl_t \<Rightarrow> server_t \<Rightarrow> server_t \<times> int cres" where
  "server_process_ctrl_pkt stream pkt s0 =
     (let req_pkt = host_order pkt; os = sv_env s0 (sv_tick s0); s = s0\<lparr>sv_tick := Suc (sv_tick s0)\<rparr> in
      if \<not> frame_ok req_pkt then (s, Ok (- 1))
      else if h_type (hdr req_pkt) = VPN_MSG_TYPE_CONFIG_REQ then
        let assigned_uid = c_uid (client_mem (sv s) (st_client stream)) in
        (case list_find_client_by_uid (Some (sv s)) assigned_uid of
           None \<Rightarrow> (s, Ok (- 1))
         | Some client \<Rightarrow>
        (case c_entry (client_mem (sv s) client) of
           None \<Rightarrow> (s, Abort)
         | Some entry \<Rightarrow>
           let assigned_ip = e_ip (ip_entry (s_ips (sv s)) ! entry);
               mtu = or_zero (tun_get_mtu (sv_tun s) True); m = or_zero (tun_get_mask (sv_tun s) True);
               dns1 = or_zero (tun_get_dns1 (sv_tun s) True); dns2 = or_zero (tun_get_dns2 (sv_tun s) True);
               resp = pkt_ctrl_create_config_resp (ao_calloc os) assigned_uid 0 mtu assigned_ip m dns1 dns2
           in (case stream_send os stream (map_option pkt_bytes resp) s of
                 (s1, Ok _) \<Rightarrow> (s1, Ok 0)
               | (s1, _) \<Rightarrow> (s1, Abort))))
      else (s, Ok 0))"

text \<open>The receive loop does not look at the result of a frame; a crash ends everything.\<close>

definition server_handle_frame :: "stream_t \<Rightarrow> pkt_ctrl_t \<Rightarrow> server_t \<times> unit cres \<Rightarrow> server_t \<times> unit cres" where
  "server_handle_frame stream pkt r =
     (case r of
        (s, Ok _) \<Rightarrow>
          (case server_process_ctrl_pkt stream pkt s of (s', Ok _) \<Rightarrow> (s', Ok ()) | (s', _) \<Rightarrow> (s', Abort))
      | _ \<Rightarrow> r)"

section \<open>The stream callback\<close>

datatype stream_event =
    STREAM_SEND_COMPLETE | STREAM_RECEIVE "bytes list" nat | STREAM_PEER_SEND_SHUTDOWN
  | STREAM_PEER_SEND_ABORTED | STREAM_SHUTDOWN_COMPLETE | STREAM_OTHER

text \<open>The result carries the number of bytes taken from a receive event.\<close>

definition ServerStreamCallback ::
  "nat option \<Rightarrow> nat option \<Rightarrow> stream_event \<Rightarrow> server_t \<Rightarrow> server_t \<times> (quic_status \<times> nat) cres" where
  "ServerStreamCallback handle ctx ev s =
     (case Option.bind ctx (sv_streams s) of None \<Rightarrow> (s, Abort)
      | Some stream \<Rightarrow>
        if \<not> sv_msquic s then (s, Abort)
        else case ev of
          STREAM_SEND_COMPLETE \<Rightarrow> (s, Ok (QUIC_STATUS_SUCCESS, 0))
        | STREAM_RECEIVE bufs total_bytes \<Rightarrow>
            (case server_stream_receive (server_handle_frame stream) bufs total_bytes (s, Ok ()) of
               ((s1, Ok _), consumed, status) \<Rightarrow> (s1, Ok (status, consumed))
             | ((s1, _), _, _) \<Rightarrow> (s1, Abort))
        | STREAM_PEER_SEND_SHUTDOWN \<Rightarrow> (quic (StreamShutdown handle FLAG_GRACEFUL) s, Ok (QUIC_STATUS_SUCCESS, 0))
        | STREAM_PEER_SEND_ABORTED \<Rightarrow> (quic (StreamShutdown handle FLAG_ABORT_SEND) s, Ok (QUIC_STATUS_SUCCESS, 0))
        | STREAM_SHUTDOWN_COMPLETE \<Rightarrow>
            let s1 = quic (StreamClose handle) s; con = ConnectionHandle (client_mem (sv s) (st_client stream));
                s2 = (if con \<noteq> None then quic (ConnectionShutdown con 0) s1 else s1)
            in (s2\<lparr>sv_streams := (sv_streams s2)(the ctx := None)\<rparr>, Ok (QUIC_STATUS_SUCCESS, 0))
        | STREAM_OTHER \<Rightarrow> (s, Ok (QUIC_STATUS_SUCCESS, 0)))"

section \<open>The connection callback\<close>

datatype conn_event =
    CONN_DATAGRAM_RECEIVED pool_os bytes | CONN_DATAGRAM_SEND_STATE "nat option" datagram_send_state
  | CONN_CONNECTED | CONN_SHUTDOWN_BY_TRANSPORT | CONN_SHUTDOWN_BY_PEER | CONN_SHUTDOWN_COMPLETE
  | CONN_PEER_STREAM_STARTED nat "nat option" | CONN_RESUMED | CONN_OTHER

text \<open>
  When a connection is gone its address is released and its client removed; the client structure is
  back in the pool when its handle is cleared, and the handle closed is the cleared one.
\<close>

definition server_shutdown_complete :: "nat option \<Rightarrow> nat \<Rightarrow> server_t \<Rightarrow> server_t \<times> quic_status cres" where
  "server_shutdown_complete handle client s =
     (let ss = sv s; rel = ip_release (Some (s_ips ss)) (c_entry (client_mem ss client));
          ss1 = ss\<lparr>s_ips := (case fst rel of Some ips \<Rightarrow> ips | None \<Rightarrow> s_ips ss)\<rparr>
      in case list_remove_client mutex_ok 0 (Some ss1) (Some client) of
           (Some ss2, Ok _) \<Rightarrow>
             let ss3 = upd_client client (ConnectionHandle_update (\<lambda>_. None)) ss2; s1 = s\<lparr>sv := ss3\<rparr>
             in (if handle \<noteq> None then quic (ConnectionClose (ConnectionHandle (client_mem ss3 client))) s1 else s1,
                 Ok QUIC_STATUS_SUCCESS)
         | _ \<Rightarrow> (s, Abort))"

definition ServerConnectionCallback ::
  "nat option \<Rightarrow> nat \<Rightarrow> conn_event \<Rightarrow> server_t \<Rightarrow> server_t \<times> quic_status cres" where
  "ServerConnectionCallback handle client ev s =
     (if \<not> sv_msquic s then (s, Abort)
      else case ev of
        CONN_DATAGRAM_RECEIVED os dgram \<Rightarrow>
          (case server_datagram_received os mutex_ok (sv_recv_pool s) dgram (sv_data s) of (d, r) \<Rightarrow> (s\<lparr>sv_data := d\<rparr>, r))
      | CONN_DATAGRAM_SEND_STATE pkt st \<Rightarrow>
          (case datagram_send_state_changed pkt st (sv_sends s) of (sp, r) \<Rightarrow> (s\<lparr>sv_sends := sp\<rparr>, r))
      | CONN_CONNECTED \<Rightarrow>
          (case initialize_client_state client (sv s) of (ss, rc) \<Rightarrow>
             if rc \<noteq> 0 then (quic (ConnectionShutdown handle SERVER_ERROR_FULL) (s\<lparr>sv := ss\<rparr>), Ok QUIC_STATUS_CONNECTION_REFUSED)
             else (s\<lparr>sv := ss\<rparr>, Ok QUIC_STATUS_SUCCESS))
      | CONN_SHUTDOWN_COMPLETE \<Rightarrow> server_shutdown_complete handle client s
      | CONN_PEER_STREAM_STARTED stream_handle mem \<Rightarrow>
          (case mem of None \<Rightarrow> (quic (StreamClose (Some stream_handle)) s, Ok QUIC_STATUS_OUT_OF_MEMORY)
           | Some a \<Rightarrow> (quic (SetCallbackHandler stream_handle)
               (s\<lparr>sv_streams := (sv_streams s)(a \<mapsto> \<lparr>st_handle = Some stream_handle, st_client = client\<rparr>)\<rparr>), Ok QUIC_STATUS_SUCCESS))
      | _ \<Rightarrow> (s, Ok QUIC_STATUS_SUCCESS))"

section \<open>The listener callback\<close>

datatype listener_event = LISTENER_NEW_CONNECTION pool_os nat quic_status | LISTENER_STOP_COMPLETE | LISTENER_OTHER

text \<open>The event carries the answers of the pool and of \<^verbatim>\<open>ConnectionSetConfiguration\<close>.\<close>

definition ServerListenerCallback :: "listener_event \<Rightarrow> server_t \<Rightarrow> server_t \<times> quic_status cres" where
  "ServerListenerCallback ev s =
     (if \<not> sv_msquic s then (s, Abort)
      else case ev of
        LISTENER_NEW_CONNECTION os conn status \<Rightarrow>
          (case list_add_client os conn (sv s) of
             (ss, Ok None) \<Rightarrow> (s\<lparr>sv := ss\<rparr>, Ok QUIC_STATUS_OUT_OF_MEMORY)
           | (ss, Ok (Some client)) \<Rightarrow>
               let s1 = quic (ConnectionSetConfiguration conn) (quic (SetCallbackHandler conn) (s\<lparr>sv := ss\<rparr>)) in
               if quic_failed status then
                 (case list_remove_client mutex_ok 0 (Some (sv s1)) (Some client) of
                    (Some ss2, Ok _) \<Rightarrow> (quic (ConnectionClose (Some conn)) (s1\<lparr>sv := ss2\<rparr>), Ok status)
                  | _ \<Rightarrow> (s1, Abort))
               else (s1, Ok QUIC_STATUS_SUCCESS)
           | (ss, _) \<Rightarrow> (s\<lparr>sv := ss\<rparr>, Abort))
      | _ \<Rightarrow> (s, Ok QUIC_STATUS_SUCCESS))"

section \<open>What a client is told\<close>

text \<open>The answer to a request: the frame built from the device's values.\<close>

definition answer_frame :: "tun_iface \<Rightarrow> u64 \<Rightarrow> in_addr \<Rightarrow> pkt_ctrl_t" where
  "answer_frame tun uid ip =
     the (pkt_ctrl_create_config_resp True uid 0 (t_mtu tun) ip (t_mask tun) (t_dns1 tun) (t_dns2 tun))"

definition answers_ok :: "answer_os \<Rightarrow> bool" where
  "answers_ok os \<longleftrightarrow> ao_calloc os \<and> ao_malloc os \<and> ao_malloc_buf os \<and> ao_send os"

lemma answer_frame_decodes:
  fixes tun uid ip defines "bs \<equiv> pkt_bytes (answer_frame tun uid ip)"
  shows "length bs = PKTCTRLSIZ" "pkt_of_bytes bs = answer_frame tun uid ip"
    "frame_ok (host_order (answer_frame tun uid ip))"
    "h_type (hdr (host_order (answer_frame tun uid ip))) = VPN_MSG_TYPE_CONFIG_RESP"
    "h_uid (hdr (host_order (answer_frame tun uid ip))) = uid"
    "resp_of_bytes (raw_padding (answer_frame tun uid ip)) =
       \<lparr>r_uid = 0, status_code = 0, r_ip = ip, r_mask = t_mask tun, r_dns1 = t_dns1 tun, r_dns2 = t_dns2 tun,
        r_mtu = htons (t_mtu tun)\<rparr>"
proof -
  have z: "htonl 0 = 0" by code_simp
  show "length bs = PKTCTRLSIZ" "pkt_of_bytes bs = answer_frame tun uid ip"
    by (simp_all add: bs_def answer_frame_def pkt_ctrl_create_config_resp_def length_pkt_bytes pkt_of_bytes_pkt_bytes length_bytes)
  show "frame_ok (host_order (answer_frame tun uid ip))"
    "h_type (hdr (host_order (answer_frame tun uid ip))) = VPN_MSG_TYPE_CONFIG_RESP"
    "h_uid (hdr (host_order (answer_frame tun uid ip))) = uid"
    "resp_of_bytes (raw_padding (answer_frame tun uid ip)) =
       \<lparr>r_uid = 0, status_code = 0, r_ip = ip, r_mask = t_mask tun, r_dns1 = t_dns1 tun, r_dns2 = t_dns2 tun,
        r_mtu = htons (t_mtu tun)\<rparr>"
    by (simp_all add: answer_frame_def pkt_ctrl_create_config_resp_def host_order_def frame_ok_def ctrl_hdr_def
        resp_of_bytes_resp_bytes z)
qed

lemma process_request:
  assumes "frame_ok (host_order p)" "h_type (hdr (host_order p)) = VPN_MSG_TYPE_CONFIG_REQ" "sv_msquic s"
    and "answers_ok (sv_env s (sv_tick s))" "sv_tun s = Some tun"
    and "list_find_client_by_uid (Some (sv s)) (c_uid (client_mem (sv s) (st_client stream))) = Some c"
    and "c_entry (client_mem (sv s) c) = Some e"
  shows "server_process_ctrl_pkt stream p s =
    (quic (StreamSend (st_handle stream) (pkt_bytes (answer_frame tun (c_uid (client_mem (sv s) (st_client stream)))
       (e_ip (ip_entry (s_ips (sv s)) ! e))))) (s\<lparr>sv_tick := Suc (sv_tick s)\<rparr>), Ok 0)"
  using assms
  by (simp add: server_process_ctrl_pkt_def Let_def answers_ok_def stream_send_def answer_frame_def tun_get_mtu_def
      tun_get_mask_def tun_get_dns1_def tun_get_dns2_def tun_getter_def pkt_ctrl_create_config_resp_def)

text \<open>The two events before a request: the handshake completes and the client opens its stream.\<close>

lemma handshake_events:
  assumes "ServerConnectionCallback ch c CONN_CONNECTED s = (s1, Ok QUIC_STATUS_SUCCESS)" "sv_msquic s"
    and "ServerConnectionCallback ch c (CONN_PEER_STREAM_STARTED h (Some a)) s1 = (s2, r)"
  obtains ss where "initialize_client_state c (sv s) = (ss, 0)"
    "s2 = quic (SetCallbackHandler h) (s\<lparr>sv := ss, sv_streams := (sv_streams s)(a \<mapsto> \<lparr>st_handle = Some h, st_client = c\<rparr>)\<rparr>)"
proof -
  obtain ss rc where i: "initialize_client_state c (sv s) = (ss, rc)" by (metis prod.exhaust)
  have ne: "QUIC_STATUS_CONNECTION_REFUSED \<noteq> QUIC_STATUS_SUCCESS" by simp
  have "rc = 0" "s1 = s\<lparr>sv := ss\<rparr>"
    using assms(1,2) i ne by (auto simp: ServerConnectionCallback_def split: if_splits)
  then show ?thesis using that i assms(2,3) by (auto simp: ServerConnectionCallback_def)
qed

text \<open>A connection the listener accepts has a slot of the table.\<close>

lemma listener_accepts:
  assumes "ServerListenerCallback (LISTENER_NEW_CONNECTION os conn st) s = (s1, Ok QUIC_STATUS_SUCCESS)"
  obtains c idx where "idx < max_clients (s_ips (sv s))" "client_list (sv s) ! idx = None"
    "client_list (sv s1) = (client_list (sv s))[idx := Some c]" "s_ips (sv s1) = s_ips (sv s)" "client_cnt (sv s1) = client_cnt (sv s)"
    "sv_tun s1 = sv_tun s" "sv_msquic s1" "sv_env s1 = sv_env s" "sv_tick s1 = sv_tick s"
proof -
  obtain ss c where add: "list_add_client os conn (sv s) = (ss, Ok (Some c))" and up: "sv_msquic s"
    and s1: "s1 = quic (ConnectionSetConfiguration conn) (quic (SetCallbackHandler conn) (s\<lparr>sv := ss\<rparr>))"
    using assms by (auto simp: ServerListenerCallback_def Let_def split: if_splits prod.splits cres.splits option.splits)
  obtain idx where "idx < max_clients (s_ips (sv s))" "client_list (sv s) ! idx = None"
    "client_list ss = (client_list (sv s))[idx := Some c]" "s_ips ss = s_ips (sv s)" "client_cnt ss = client_cnt (sv s)"
    by (rule list_add_client_Some[OF add])
  then show ?thesis using that[of idx c] up s1 by (simp add: quic_def)
qed

text \<open>The answer to a request after them.\<close>

lemma server_answers:
  assumes wf: "others_wf c (sv s)" and listed: "Some c \<in> set (client_list (sv s))" and room: "client_cnt (sv s) + 1 \<noteq> 0"
    and ips: "ip_pool_ok (s_ips (sv s))" and up: "sv_msquic s" "sv_tun s = Some tun" "answers_ok (sv_env s (sv_tick s))"
    and ev1: "ServerConnectionCallback ch c CONN_CONNECTED s = (s1, Ok QUIC_STATUS_SUCCESS)"
    and ev2: "ServerConnectionCallback ch c (CONN_PEER_STREAM_STARTED h (Some a)) s1 = (s2, r)"
    and req: "length (concat bufs) = PKTCTRLSIZ" "frame_ok (host_order (pkt_of_bytes (concat bufs)))"
      "h_type (hdr (host_order (pkt_of_bytes (concat bufs)))) = VPN_MSG_TYPE_CONFIG_REQ"
  shows "\<exists>s3 addr. ServerStreamCallback (Some h) (Some a) (STREAM_RECEIVE bufs PKTCTRLSIZ) s2 =
        (s3, Ok (QUIC_STATUS_SUCCESS, PKTCTRLSIZ)) \<and>
      sv_calls s3 = sv_calls s @ [SetCallbackHandler h, StreamSend (Some h) (pkt_bytes (answer_frame tun (client_cnt (sv s)) addr))] \<and>
      ip_client_search (Some (s_ips (sv s))) addr = None \<and> ip_client_search (Some (s_ips (sv s3))) addr = Some c \<and>
      addr \<in> subnet_hosts (server_ip (s_ips (sv s))) (netmask (s_ips (sv s)))"
proof -
  let ?n = "client_cnt (sv s)" and ?stream = "\<lparr>st_handle = Some h, st_client = c\<rparr>"
  obtain ss where i: "initialize_client_state c (sv s) = (ss, 0)"
    and s2: "s2 = quic (SetCallbackHandler h) (s\<lparr>sv := ss, sv_streams := (sv_streams s)(a \<mapsto> ?stream)\<rparr>)"
    using handshake_events[OF ev1 up(1) ev2] by blast
  obtain e pool where acq: "ip_acquire (s_ips (sv s)) (Some c) = (pool, Some e)"
    and ss: "ss = (upd_client c (\<lambda>x. x\<lparr>c_entry := Some e, c_uid := ?n\<rparr>) ((sv s)\<lparr>s_ips := pool\<rparr>))\<lparr>client_cnt := ?n + 1\<rparr>"
    and found: "list_find_client_by_uid (Some ss) ?n = Some c"
    using handshake_found[OF wf listed room i] by metis
  note lease = acquired_address[OF ips acq]
  have "c_uid (client_mem ss c) = ?n" "c_entry (client_mem ss c) = Some e" "s_ips ss = pool" by (simp_all add: ss)
  then have "server_process_ctrl_pkt ?stream (pkt_of_bytes (concat bufs)) s2 =
      (quic (StreamSend (Some h) (pkt_bytes (answer_frame tun ?n (entry_addr pool e)))) (s2\<lparr>sv_tick := Suc (sv_tick s2)\<rparr>), Ok 0)"
    using process_request[OF req(2,3), of s2 tun ?stream c e] up found lease(1) by (simp add: s2 quic_def)
  then have "ServerStreamCallback (Some h) (Some a) (STREAM_RECEIVE bufs PKTCTRLSIZ) s2 =
      (quic (StreamSend (Some h) (pkt_bytes (answer_frame tun ?n (entry_addr pool e)))) (s2\<lparr>sv_tick := Suc (sv_tick s2)\<rparr>),
       Ok (QUIC_STATUS_SUCCESS, PKTCTRLSIZ))"
    using server_stream_receive_frames[of bufs "concat bufs" "server_handle_frame ?stream" "(s2, Ok ())"]
      frames_single[OF req(1)] req(1) up(1)
    by (simp add: ServerStreamCallback_def server_handle_frame_def) (simp add: s2 quic_def)
  then show ?thesis using lease by (auto simp: s2 quic_def ss)
qed

section \<open>Properties\<close>

text \<open>
  C15. What a client is told. Let a connected client complete its handshake, open its stream and
  send a configuration request, cut into buffers in any way. If memory and transport serve the answer,
  the server sends exactly one frame on exactly that stream: a valid configuration response whose id
  is the next of the counter and whose address was free before, is a host of the tunnel's subnet other than
  the server, and from now on leads the data path to this client; mask, resolvers and MTU are those of
  the server's device.
\<close>

theorem server_config_answer:
  assumes wf: "others_wf c (sv s)" and listed: "Some c \<in> set (client_list (sv s))" and room: "client_cnt (sv s) + 1 \<noteq> 0"
    and ips: "ip_pool_ok (s_ips (sv s))" and up: "sv_msquic s" "sv_tun s = Some tun" "answers_ok (sv_env s (sv_tick s))"
    and ev1: "ServerConnectionCallback ch c CONN_CONNECTED s = (s1, Ok QUIC_STATUS_SUCCESS)"
    and ev2: "ServerConnectionCallback ch c (CONN_PEER_STREAM_STARTED h (Some a)) s1 = (s2, r)"
    and req: "length (concat bufs) = PKTCTRLSIZ" "frame_ok (host_order (pkt_of_bytes (concat bufs)))"
      "h_type (hdr (host_order (pkt_of_bytes (concat bufs)))) = VPN_MSG_TYPE_CONFIG_REQ"
  shows "\<exists>s3 bs. ServerStreamCallback (Some h) (Some a) (STREAM_RECEIVE bufs PKTCTRLSIZ) s2 =
        (s3, Ok (QUIC_STATUS_SUCCESS, PKTCTRLSIZ)) \<and>
      sv_calls s3 = sv_calls s @ [SetCallbackHandler h, StreamSend (Some h) bs] \<and> length bs = PKTCTRLSIZ \<and>
      (let q = host_order (pkt_of_bytes bs); resp = resp_of_bytes (raw_padding q) in
         frame_ok q \<and> h_type (hdr q) = VPN_MSG_TYPE_CONFIG_RESP \<and> h_uid (hdr q) = client_cnt (sv s) \<and>
         ip_client_search (Some (s_ips (sv s))) (r_ip resp) = None \<and>
         ip_client_search (Some (s_ips (sv s3))) (r_ip resp) = Some c \<and>
         r_ip resp \<in> subnet_hosts (server_ip (s_ips (sv s))) (netmask (s_ips (sv s))) \<and>
         r_mask resp = t_mask tun \<and> r_dns1 resp = t_dns1 tun \<and> r_dns2 resp = t_dns2 tun \<and> ntohs (r_mtu resp) = t_mtu tun)"
proof -
  obtain s3 addr where "ServerStreamCallback (Some h) (Some a) (STREAM_RECEIVE bufs PKTCTRLSIZ) s2 =
        (s3, Ok (QUIC_STATUS_SUCCESS, PKTCTRLSIZ))"
      "sv_calls s3 = sv_calls s @ [SetCallbackHandler h, StreamSend (Some h) (pkt_bytes (answer_frame tun (client_cnt (sv s)) addr))]"
      "ip_client_search (Some (s_ips (sv s))) addr = None" "ip_client_search (Some (s_ips (sv s3))) addr = Some c"
      "addr \<in> subnet_hosts (server_ip (s_ips (sv s))) (netmask (s_ips (sv s)))"
    using server_answers[OF assms] by blast
  then show ?thesis using answer_frame_decodes[of tun "client_cnt (sv s)" addr] by (simp add: Let_def host_order_def)
qed

text \<open>A server of a subnet of eight addresses, with the first client just connected.\<close>

definition demo_device :: tun_iface where
  "demo_device = (demo_tun 0x0100000A 0xF8FFFFFF)\<lparr>t_mtu := 1380, t_dns1 := 0x01010101, t_dns2 := 0x08080808\<rparr>"

definition demo_server :: "dpath \<Rightarrow> spath \<Rightarrow> server_t" where
  "demo_server d sp =
     \<lparr>sv_msquic = True, sv = demo_session, sv_tun = Some demo_device, sv_data = d, sv_recv_pool = 0, sv_sends = sp,
      sv_streams = Map.empty, sv_calls = [],
      sv_env = (\<lambda>_. \<lparr>ao_calloc = True, ao_malloc = True, ao_malloc_buf = True, ao_send = True\<rparr>), sv_tick = 0\<rparr>"

lemma demo_session_ok:
  "clients_wf demo_session" "Some 116 \<in> set (client_list demo_session)" "client_cnt demo_session = 1"
  "ip_pool_ok (s_ips demo_session)" "snd (initialize_client_state 116 demo_session) = 0"
proof -
  show rc: "snd (initialize_client_state 116 demo_session) = 0" by code_simp
  have max: "max_clients (s_ips demo_session) = 8" by code_simp
  show "clients_wf demo_session" using max by (auto simp: clients_wf_def demo_session_def)
  show "Some 116 \<in> set (client_list demo_session)" "client_cnt demo_session = 1" by (simp_all add: demo_session_def)
  have "ip_pool_create True True (Some (demo_tun 0x0100000A 0xF8FFFFFF)) \<noteq> None" by code_simp
  then show "ip_pool_ok (s_ips demo_session)" using ip_pool_create_ok by (fastforce simp: demo_session_def)
qed

definition demo_req :: bytes where
  "demo_req = pkt_bytes (the (pkt_ctrl_create_config_req True 0 2 (Some ''laptop'')))"

lemma demo_req_ok:
  "length demo_req = PKTCTRLSIZ" "frame_ok (host_order (pkt_of_bytes demo_req))"
  "h_type (hdr (host_order (pkt_of_bytes demo_req))) = VPN_MSG_TYPE_CONFIG_REQ"
  by (simp_all add: demo_req_def pkt_ctrl_create_config_req_def length_pkt_bytes pkt_of_bytes_pkt_bytes length_bytes
      host_order_def frame_ok_def ctrl_hdr_def hostname_field_def snprintf_trunc_def)

theorem server_config_answer_witness:
  "\<forall>d sp. \<exists>s1 s2 s3 r bs. ServerConnectionCallback (Some 5) 116 CONN_CONNECTED (demo_server d sp) = (s1, Ok QUIC_STATUS_SUCCESS) \<and>
     ServerConnectionCallback (Some 5) 116 (CONN_PEER_STREAM_STARTED 9 (Some 400)) s1 = (s2, r) \<and>
     ServerStreamCallback (Some 9) (Some 400) (STREAM_RECEIVE [take 700 demo_req, drop 700 demo_req] PKTCTRLSIZ) s2 =
       (s3, Ok (QUIC_STATUS_SUCCESS, PKTCTRLSIZ)) \<and>
     sv_calls s3 = [SetCallbackHandler 9, StreamSend (Some 9) bs] \<and> h_uid (hdr (host_order (pkt_of_bytes bs))) = 1"
proof (intro allI)
  fix d sp
  let ?s = "demo_server d sp"
  have s: "sv_msquic ?s" "sv_tun ?s = Some demo_device" "answers_ok (sv_env ?s (sv_tick ?s))" "sv ?s = demo_session" "sv_calls ?s = []"
    by (simp_all add: demo_server_def answers_ok_def)
  obtain s1 where e1: "ServerConnectionCallback (Some 5) 116 CONN_CONNECTED ?s = (s1, Ok QUIC_STATUS_SUCCESS)"
    using demo_session_ok(5) s(1,4) by (cases "initialize_client_state 116 demo_session") (simp add: ServerConnectionCallback_def)
  obtain s2 r where e2: "ServerConnectionCallback (Some 5) 116 (CONN_PEER_STREAM_STARTED 9 (Some 400)) s1 = (s2, r)"
    by (metis prod.exhaust)
  have bufs: "concat [take 700 demo_req, drop 700 demo_req] = demo_req" by simp
  show "\<exists>s1 s2 s3 r bs. ServerConnectionCallback (Some 5) 116 CONN_CONNECTED ?s = (s1, Ok QUIC_STATUS_SUCCESS) \<and>
     ServerConnectionCallback (Some 5) 116 (CONN_PEER_STREAM_STARTED 9 (Some 400)) s1 = (s2, r) \<and>
     ServerStreamCallback (Some 9) (Some 400) (STREAM_RECEIVE [take 700 demo_req, drop 700 demo_req] PKTCTRLSIZ) s2 =
       (s3, Ok (QUIC_STATUS_SUCCESS, PKTCTRLSIZ)) \<and>
     sv_calls s3 = [SetCallbackHandler 9, StreamSend (Some 9) bs] \<and> h_uid (hdr (host_order (pkt_of_bytes bs))) = 1"
    using server_config_answer[OF _ _ _ _ s(1-3) e1 e2, of "[take 700 demo_req, drop 700 demo_req]"]
      demo_session_ok others_wfI[OF demo_session_ok(1)] demo_req_ok e1 e2 unfolding bufs s(4,5) by (simp add: Let_def) blast
qed



end
