(* ===== verification/Server_Engine.thy ===== *)
theory Server_Engine
  imports Server_Quic Engine_Base
begin

text \<open>
  The server from its start to the point where it serves: \<^verbatim>\<open>server/src/engine/session.c\<close>
  and \<^verbatim>\<open>vpn_server_engine.c\<close>. Each function takes what the system answers to it and
  returns the session it leaves; \<^verbatim>\<open>main\<close> calls them in order and cleans up after the
  first that fails.
\<close>

section \<open>State\<close>

text \<open>\<^verbatim>\<open>session_t\<close> while it is being built; a pool is its address in the memory of the
  pools.\<close>

record boot =
  bt_msquic :: "quic_ctx option"
  bt_tun :: "tun_iface option"
  bt_tun_state :: state_sync_t
  bt_wan :: "net_iface_t option"
  bt_send_pool :: nat
  bt_recv_pool :: nat
  bt_recv_queue :: "nat queue_t"
  bt_client_pool :: "nat option"
  bt_ips :: "ip_pool_t option"
  bt_cnt :: u64
  bt_list :: "nat option list option"
  bt_mem :: pmem
  bt_sending :: bool
  bt_send_thread :: bool
  bt_receiving :: bool
  bt_recv_thread :: bool
  bt_reqs :: "sys_req list"
  bt_calls :: "quic_call list"

section \<open>The session\<close>

abbreviation SIZEOF_CLIENT :: u64 where "SIZEOF_CLIENT \<equiv> 40"
abbreviation SERVER_QUEUE :: nat where "SERVER_QUEUE \<equiv> 128 * 1024 * 1024"

record session_env =
  ne_malloc :: bool
  ne_sync :: state_sync_init_os
  ne_pool1 :: pool_env
  ne_pool2 :: pool_env
  ne_queue :: queue_init_os

definition create_session :: "session_env \<Rightarrow> pmem \<Rightarrow> boot option cres" where
  "create_session env m =
     (if \<not> ne_malloc env then Ok None
      else case state_sync_init (ne_sync env) (Some \<lparr>ss_state = 0\<rparr>) TUN_CLOSED of (st, rc) \<Rightarrow>
        if rc \<noteq> 0 then Abort
        else case make_pool (ne_pool1 env) SIZEOF_PKT_DATA 0 m of
          (m1, Ok p1) \<Rightarrow>
            (case make_pool (ne_pool2 env) SIZEOF_PKT_DATA 0 m1 of
               (m2, Ok p2) \<Rightarrow>
                 (case queue_init (ne_queue env) SERVER_QUEUE of
                    Ok q \<Rightarrow> Ok (Some \<lparr>bt_msquic = None, bt_tun = None, bt_tun_state = the st, bt_wan = None,
                      bt_send_pool = p1, bt_recv_pool = p2, bt_recv_queue = q, bt_client_pool = None, bt_ips = None,
                      bt_cnt = 1, bt_list = None, bt_mem = m2, bt_sending = False, bt_send_thread = False,
                      bt_receiving = False, bt_recv_thread = False, bt_reqs = [],
                      bt_calls = []\<rparr>)
                  | Err e \<Rightarrow> Ok None
                  | _ \<Rightarrow> Abort)
             | (m2, Err e) \<Rightarrow> Ok None
             | _ \<Rightarrow> Abort)
        | (m1, Err e) \<Rightarrow> Ok None
        | _ \<Rightarrow> Abort)"

section \<open>The tunnel\<close>

record tun_env =
  te_calloc :: bool
  te_sys :: "nat \<Rightarrow> sys"
  te_info :: "nat \<Rightarrow> sys_info"

text \<open>The calls up to \<^verbatim>\<open>tun_get_net_cidr\<close>, and those after it.\<close>

definition tun_steps1 :: "tun_env \<Rightarrow> string \<Rightarrow> string \<Rightarrow> tun_step list" where
  "tun_steps1 env ip m =
     (let sys = te_sys env; info = te_info env in
      [(True, tun_open (sys 0) (info 0)), (True, \<lambda>tp. tun_set_addr (sys 1) tp (Some ip) (Some m)),
       (True, \<lambda>tp. tun_set_mtu (sys 2) tp 1380), (True, tun_set_up (sys 3) (info 3)), (False, tun_clear_dns (sys 4)),
       (True, \<lambda>tp. tun_set_dns (sys 5) tp (Some ''1.1.1.1'') (Some ''8.8.8.8''))])"

definition tun_steps2 :: "tun_env \<Rightarrow> string \<Rightarrow> string \<Rightarrow> tun_step list" where
  "tun_steps2 env net_cidr wan =
     (let sys = te_sys env in
      [(False, tun_rules_clear (sys 6)), (True, \<lambda>tp. tun_add_route (sys 7) tp (Some net_cidr)),
       (True, \<lambda>tp. tun_ip_forwarding (sys 8) tp True), (True, \<lambda>tp. tun_server_rules_add (sys 9) tp wan),
       (True, start_step)])"

definition setup_tun_interface :: "tun_env \<Rightarrow> string \<Rightarrow> string \<Rightarrow> string \<Rightarrow> boot \<Rightarrow> boot \<times> int" where
  "setup_tun_interface env ip m wan_ifname b =
     (case tun_create (te_calloc env) TUN_BACKEND_NETLINK_SERVER of None \<Rightarrow> (b, - 1)
      | Some tun \<Rightarrow>
     (case run_steps (tun_steps1 env ip m) (Some tun) of (tp1, reqs1, ok1) \<Rightarrow>
        let b1 = b\<lparr>bt_reqs := bt_reqs b @ reqs1\<rparr> in
        if \<not> ok1 then (b1, - 1)
        else case tun_get_net_cidr tp1 20 of
          Ok net_cidr \<Rightarrow>
            (case run_steps (tun_steps2 env net_cidr wan_ifname) tp1 of (tp2, reqs2, ok2) \<Rightarrow>
               let b2 = b1\<lparr>bt_reqs := bt_reqs b1 @ reqs2\<rparr> in
               if \<not> ok2 then (b2, - 1)
               else (b2\<lparr>bt_tun := tp2, bt_tun_state := set_state TUN_READY (bt_tun_state b2)\<rparr>, 0))
        | _ \<Rightarrow> (b1, - 1)))"

section \<open>Addresses and clients\<close>

definition setup_ip_pool_manager :: "bool \<Rightarrow> bool \<Rightarrow> boot \<Rightarrow> boot \<times> int" where
  "setup_ip_pool_manager calloc_pool calloc_entries b =
     (case tun_get_flags (bt_tun b) True of
        Ok flags \<Rightarrow>
          if \<not> in_state (bt_tun_state b) TUN_READY then (b, - ENOTCONN)
          else (case ip_pool_create calloc_pool calloc_entries (bt_tun b) of
                  None \<Rightarrow> (b\<lparr>bt_ips := None\<rparr>, - ENOMEM)
                | Some pool \<Rightarrow> (b\<lparr>bt_ips := Some pool\<rparr>, 0))
      | _ \<Rightarrow> (b, - EINVAL))"

definition init_client_manager :: "bool \<Rightarrow> pool_env \<Rightarrow> nat \<Rightarrow> boot \<Rightarrow> boot \<times> int" where
  "init_client_manager malloc_ok pe n b =
     (if \<not> malloc_ok then (b, - ENOMEM)
      else let b1 = b\<lparr>bt_list := Some (replicate n None)\<rparr> in
        (case make_pool pe SIZEOF_CLIENT n (bt_mem b1) of
           (m, Ok pid) \<Rightarrow> (b1\<lparr>bt_mem := m, bt_client_pool := Some pid\<rparr>, 0)
         | (m, _) \<Rightarrow> (b1\<lparr>bt_mem := m\<rparr>, - ENOMEM)))"

section \<open>The transport\<close>

record quic_env =
  qe_calloc :: bool
  qe_parse :: "string \<Rightarrow> u16 \<Rightarrow> quic_addr option"
  qe_register :: "quic_status \<times> quic_status"
  qe_listen :: "quic_status \<times> quic_status \<times> quic_status \<times> quic_status"

text \<open>The functions up to the listener in order, each checked. The context is put into the session when the
  listener runs already.\<close>

definition setup_msquic :: "quic_env \<Rightarrow> boot \<Rightarrow> boot \<times> int" where
  "setup_msquic env b =
     (case MsQuicCreate (qe_calloc env) of None \<Rightarrow> (b, - 1)
      | Some x0 \<Rightarrow>
     (case MsQuicRegister (fst (qe_register env)) (snd (qe_register env)) x0 (Some ''msquic server app name'') of (x1, c1, r1) \<Rightarrow>
        let b1 = b\<lparr>bt_calls := bt_calls b @ c1\<rparr> in
        if r1 \<noteq> 0 then (b1, - 1)
        else (case MsQuicConfigLocalAddr (qe_parse env) x1 (Some ''10.10.10.11'') 443 of (x2, c2, r2) \<Rightarrow>
        if r2 \<noteq> 0 then (b1, - 1)
        else (case server_MsQuicConfigCredentials x2 (Some ''cert/server.cert'') (Some ''cert/server.key'') None of (x3, c3, r3) \<Rightarrow>
        if r3 \<noteq> 0 then (b1, - 1)
        else (case server_MsQuicConfigParameters x3 (Some ''h3'') of (x4, c4, r4) \<Rightarrow>
        if r4 \<noteq> 0 then (b1, - 1)
        else (case qe_listen env of (s1, s2, s3, s4) \<Rightarrow>
              case MsQuicListenerStart s1 s2 s3 s4 x4 of (x5, c5, r5) \<Rightarrow>
          let b2 = b1\<lparr>bt_calls := bt_calls b1 @ c5\<rparr> in
          if r5 \<noteq> 0 then (b2, - 1) else (b2\<lparr>bt_msquic := Some x5\<rparr>, 0)))))))"

section \<open>Threads\<close>

text \<open>The flags of the session say running before the threads are created; that they exist is recorded
  beside them.\<close>

definition start_threads :: "bool \<Rightarrow> bool \<Rightarrow> boot \<Rightarrow> boot \<times> int" where
  "start_threads create_send create_recv b =
     (let b1 = b\<lparr>bt_sending := True\<rparr> in
      if \<not> create_send then (b1, - 1)
      else let b2 = b1\<lparr>bt_send_thread := True, bt_receiving := True\<rparr> in
        if \<not> create_recv then (b2, - 1) else (b2\<lparr>bt_recv_thread := True\<rparr>, 0))"

text \<open>\<^verbatim>\<open>attach_signal\<close>: masking, the allocation and the thread.\<close>

definition attach_signal :: "bool \<Rightarrow> bool \<Rightarrow> bool \<Rightarrow> int" where
  "attach_signal sigmask malloc_ok create = (if \<not> sigmask then - 1 else if \<not> malloc_ok then - 1 else if \<not> create then - 1 else 0)"

section \<open>Start\<close>

record boot_env =
  be_session :: session_env
  be_signal :: "bool \<times> bool \<times> bool"
  be_wan :: wan_env
  be_tun :: tun_env
  be_ips :: "bool \<times> bool"
  be_clients :: "bool \<times> pool_env"
  be_quic :: quic_env
  be_threads :: "bool \<times> bool"
  be_stop :: "(pmem \<times> nat queue_t) stop_env"

text \<open>How \<^verbatim>\<open>main\<close> goes on: it serves for ever, ends with an exit status, waits for an
  answer of the system, or stops at a failed assertion.\<close>

datatype boot_result = Serving boot | Exited int | Waiting | Crashed

text \<open>
  \<^verbatim>\<open>vpn_engine_cleanup\<close>: the threads that run are stopped and joined, the device is torn down, pools
  and queue are destroyed; then it ends the program with status zero. What stands after that in the code, the
  shutdown of the transport, is never reached.
\<close>

definition server_cleanup_steps :: "tun_env \<Rightarrow> tun_step list" where
  "server_cleanup_steps env =
     (let sys = te_sys env; info = te_info env in
      [(False, tun_flush_routes (sys 10)), (False, tun_clear_dns (sys 11)), (False, tun_rules_clear (sys 12)),
       (False, iptables_reset (sys 13)), (False, \<lambda>tp. tun_ip_forwarding (sys 14) tp False), (False, tun_destroy (sys 15) (info 15))])"

definition server_stop_threads :: "(pmem \<times> nat queue_t) stop_env \<Rightarrow> boot \<Rightarrow> boot cres" where
  "server_stop_threads env b =
     cbind (if bt_sending b
            then cbind (join_thread (st_send_join env) (bt_send_thread b) (bt_mem b, bt_recv_queue b)) (\<lambda>(m, q).
                   Ok (b\<lparr>bt_sending := False, bt_mem := m, bt_recv_queue := q\<rparr>))
            else Ok b) (\<lambda>b1.
      if bt_receiving b1
      then cbind (push_sentinel (bt_recv_queue b1)) (\<lambda>q0.
           cbind (join_thread (st_recv_join env) (bt_recv_thread b1) (bt_mem b1, q0)) (\<lambda>(m, q).
             Ok (b1\<lparr>bt_receiving := False, bt_mem := m, bt_recv_queue := q\<rparr>)))
      else Ok b1)"

definition server_vpn_engine_cleanup :: "(pmem \<times> nat queue_t) stop_env \<Rightarrow> tun_env \<Rightarrow> boot \<Rightarrow> boot cres" where
  "server_vpn_engine_cleanup stop env b =
     cbind (server_stop_threads stop (b\<lparr>bt_wan := None\<rparr>)) (\<lambda>b1.
      let b2 = (case bt_tun b1 of None \<Rightarrow> b1
                | Some _ \<Rightarrow> (case run_steps (server_cleanup_steps env) (bt_tun b1) of
                    (tp, reqs, _) \<Rightarrow> b1\<lparr>bt_tun := None, bt_tun_state := destroy_sync (bt_tun_state b1), bt_reqs := bt_reqs b1 @ reqs\<rparr>))
      in cbind (destroy_pool (Some (bt_recv_pool b2)) (bt_mem b2)) (\<lambda>m1.
         cbind (destroy_pool (Some (bt_send_pool b2)) m1) (\<lambda>m2.
         cbind (destroy_queue (bt_recv_queue b2)) (\<lambda>_.
         cbind (destroy_pool (bt_client_pool b2) m2) (\<lambda>m3.
         Ok (b2\<lparr>bt_mem := m3, bt_ips := None, bt_client_pool := None, bt_list := None\<rparr>))))))"

text \<open>The end of \<^verbatim>\<open>main\<close> after a failure: without a session it returns, otherwise the cleanup exits.\<close>

definition boot_error :: "boot_env \<Rightarrow> boot option \<Rightarrow> boot_result" where
  "boot_error env b =
     (case b of None \<Rightarrow> Exited 1
      | Some s \<Rightarrow> (case server_vpn_engine_cleanup (be_stop env) (be_tun env) s of
          Ok _ \<Rightarrow> Exited 0 | Err _ \<Rightarrow> Exited 0 | Block \<Rightarrow> Waiting | Abort \<Rightarrow> Crashed))"

text \<open>\<^verbatim>\<open>signal_handler_thread\<close>: once a signal has come the program ends as after a failed start.\<close>

definition signal_handler_thread :: "boot_env \<Rightarrow> int \<Rightarrow> boot option \<Rightarrow> boot_result option" where
  "signal_handler_thread env sigwait_rc sp =
     (if sigwait_rc = 0 then (case sp of None \<Rightarrow> None | Some b \<Rightarrow> Some (boot_error env (Some b))) else None)"

text \<open>If the first thread cannot be created, the cleanup joins it all the same.\<close>

lemma missing_thread_joined: "\<not> bt_send_thread b \<Longrightarrow> server_vpn_engine_cleanup stop env (fst (start_threads False tr b)) = Abort"
  by (simp add: start_threads_def server_vpn_engine_cleanup_def server_stop_threads_def join_thread_def Let_def)

lemma boot_error_code: "boot_error env sp = Exited code \<Longrightarrow> code = (if sp = None then 1 else 0)"
  by (auto simp: boot_error_def split: option.splits cres.splits)

lemma boot_error_not_serving [simp]: "boot_error env sp \<noteq> Serving b"
  by (auto simp: boot_error_def split: option.split cres.split)

definition server_main :: "boot_env \<Rightarrow> pmem \<Rightarrow> boot_result" where
  "server_main env m =
     (case create_session (be_session env) m of
        Ok None \<Rightarrow> boot_error env None
      | Ok (Some b0) \<Rightarrow>
        (case be_signal env of (k, a, c) \<Rightarrow>
         if attach_signal k a c \<noteq> 0 then boot_error env (Some b0)
         else case detect_default_wan (be_wan env) of
           Block \<Rightarrow> Waiting
         | Ok wan \<Rightarrow>
           (case setup_tun_interface (be_tun env) ''172.18.0.1'' ''255.255.0.0'' (wi_ifname wan) (b0\<lparr>bt_wan := Some wan\<rparr>) of (b1, r1) \<Rightarrow>
            if r1 \<noteq> 0 then boot_error env (Some b1)
            else case be_ips env of (cp, ce) \<Rightarrow> case setup_ip_pool_manager cp ce b1 of (b2, r2) \<Rightarrow>
            if r2 \<noteq> 0 then boot_error env (Some b2)
            else case be_clients env of (ml, pe) \<Rightarrow> case init_client_manager ml pe (max_clients (the (bt_ips b2))) b2 of (b3, r3) \<Rightarrow>
            if r3 \<noteq> 0 then boot_error env (Some b3)
            else case setup_msquic (be_quic env) b3 of (b4, r4) \<Rightarrow>
            if r4 \<noteq> 0 then boot_error env (Some b4)
            else case be_threads env of (ts, tr) \<Rightarrow> case start_threads ts tr b4 of (b5, r5) \<Rightarrow>
            if r5 \<noteq> 0 then boot_error env (Some b5) else Serving b5)
         | _ \<Rightarrow> boot_error env (Some b0))
      | _ \<Rightarrow> Crashed)"

section \<open>What a server that serves has\<close>

abbreviation SERVER_IP :: in_addr where "SERVER_IP \<equiv> 0x010012AC"
abbreviation SERVER_MASK :: in_addr where "SERVER_MASK \<equiv> 0x0000FFFF"

definition server_cfg :: tun_cfg where
  "server_cfg = \<lparr>cf_ip = SERVER_IP, cf_mask = SERVER_MASK, cf_dns1 = 0x01010101, cf_dns2 = 0x08080808, cf_mtu = 1380\<rparr>"

lemma server_texts:
  "''172.18.0.1'' = dotted SERVER_IP" "''255.255.0.0'' = dotted SERVER_MASK"
  "''1.1.1.1'' = dotted 0x01010101" "''8.8.8.8'' = dotted 0x08080808"
  by code_simp+

lemma setup_tun_sound:
  assumes "setup_tun_interface env ''172.18.0.1'' ''255.255.0.0'' wan b = (b', 0)"
  obtains tun reqs where "b' = b\<lparr>bt_reqs := reqs, bt_tun := Some tun, bt_tun_state := set_state TUN_READY (bt_tun_state b)\<rparr>"
    "cfg tun = server_cfg" "tun_start (Some tun) = 0"
proof -
  obtain tun0 where t0: "tun_create (te_calloc env) TUN_BACKEND_NETLINK_SERVER = Some tun0"
    using assms by (auto simp: setup_tun_interface_def split: option.splits)
  obtain tp1 reqs1 ok1 where r1: "run_steps (tun_steps1 env ''172.18.0.1'' ''255.255.0.0'') (Some tun0) = (tp1, reqs1, ok1)"
    by (metis prod.exhaust)
  obtain cidr tp2 reqs2 ok2 where r2: "run_steps (tun_steps2 env cidr wan) tp1 = (tp2, reqs2, ok2)" and "ok1" "ok2"
    and b': "b' = b\<lparr>bt_reqs := bt_reqs b @ reqs1 @ reqs2, bt_tun := tp2, bt_tun_state := set_state TUN_READY (bt_tun_state b)\<rparr>"
    using assms t0 r1 by (auto simp: setup_tun_interface_def Let_def split: prod.splits if_splits cres.splits)
  let ?k = "(id, True) :: (tun_cfg \<Rightarrow> tun_cfg) \<times> bool"
  let ?e1 = "[?k, (\<lambda>c. c\<lparr>cf_ip := SERVER_IP, cf_mask := SERVER_MASK\<rparr>, validate_mask SERVER_MASK),
    (\<lambda>c. c\<lparr>cf_mtu := 1380\<rparr>, 256 \<le> (1380 :: u16) \<and> (1380 :: u16) \<le> 1380), ?k, ?k,
    (\<lambda>c. c\<lparr>cf_dns1 := 0x01010101, cf_dns2 := 0x08080808\<rparr>, True)]"
  have "list_all2 effect (tun_steps1 env ''172.18.0.1'' ''255.255.0.0'') ?e1"
    unfolding tun_steps1_def Let_def server_texts
    by (intro list.rel_intros effect_calls effect_keeps[OF keeps_calls(1)] effect_keeps[OF keeps_calls(2)]
        effect_keeps[OF keeps_calls(8)])
  moreover have n0: "netlink tun0" using t0 by (auto simp: tun_create_def netlink_def split: if_splits)
  ultimately obtain tun1 where t1: "tp1 = Some tun1" "netlink tun1" "cfg tun1 = fold fst ?e1 (cfg tun0)"
    using run_steps_effect[of _ ?e1 tun0 tp1 reqs1] r1 \<open>ok1\<close> by auto
  have "list_all2 effect (tun_steps2 env cidr wan) [?k, ?k, ?k, ?k, ?k]"
    unfolding tun_steps2_def Let_def
    by (intro list.rel_intros effect_keeps[OF keeps_calls(3)] effect_keeps[OF keeps_calls(4)] effect_keeps[OF keeps_calls(7)]
        effect_keeps[OF keeps_calls(6)] effect_keeps[OF keeps_calls(9)])
  then obtain tun2 where t2: "tp2 = Some tun2" "cfg tun2 = cfg tun1"
    using run_steps_effect[of _ "[?k, ?k, ?k, ?k, ?k]" tun1 tp2 reqs2] r2 \<open>ok2\<close> t1 by auto
  have "tun_steps2 env cidr wan = butlast (tun_steps2 env cidr wan) @ [(True, start_step)]"
    by (simp add: tun_steps2_def Let_def)
  then have "tun_start tp2 = 0" using run_steps_start r2 \<open>ok2\<close> by metis
  then show ?thesis using that[of tun2 "bt_reqs b @ reqs1 @ reqs2"] b' t1 t2 by (simp add: server_cfg_def cfg_def)
qed

lemma create_session_sound:
  assumes "create_session env m = Ok (Some b)"
  shows "bt_cnt b = 1" "bt_calls b = []" "bt_tun b = None" "bt_msquic b = None"
  using assms by (auto simp: create_session_def split: if_splits prod.splits cres.splits)

lemma setup_ips_sound:
  assumes "setup_ip_pool_manager c1 c2 b = (b', 0)" "bt_tun b = Some tun"
  obtains pool where "b' = b\<lparr>bt_ips := Some pool\<rparr>" "ip_pool_ok pool" "ip_leases pool = Map.empty"
    "server_ip pool = t_ip tun" "netmask pool = t_mask tun"
proof -
  obtain pool where "b' = b\<lparr>bt_ips := Some pool\<rparr>" "ip_pool_create c1 c2 (Some tun) = Some pool"
    using assms by (auto simp: setup_ip_pool_manager_def split: cres.splits if_splits option.splits)
  then show ?thesis using that[of pool] ip_pool_create_ok by blast
qed

lemma init_clients_sound:
  assumes "init_client_manager ok pe n b = (b', 0)" "n \<le> SIZE_MAX"
  obtains m pid where "b' = b\<lparr>bt_list := Some (replicate n None), bt_mem := m, bt_client_pool := Some pid\<rparr>"
    "pool_holds pid m {}" "pool_limit pid m = n"
proof -
  obtain a r1 r2 m pid where pe: "pe = (a, r1, r2)" and i: "pool_init a r1 r2 SIZEOF_CLIENT n (bt_mem b) = (m, Ok pid)"
    and b': "b' = b\<lparr>bt_list := Some (replicate n None), bt_mem := m, bt_client_pool := Some pid\<rparr>"
    using assms(1) by (cases pe) (auto simp: init_client_manager_def make_pool_def Let_def split: if_splits prod.splits cres.splits)
  have "a = Some pid" "r1 = 0" "r2 = 0" using i by (auto simp: pool_init_def split: if_splits option.splits)
  then show ?thesis using that[OF b'] pool_init_inv[of pid SIZEOF_CLIENT n "bt_mem b" m] i assms(2)
    by (auto simp: pool_holds_def)
qed

definition listen_calls :: "quic_addr \<Rightarrow> quic_call list" where
  "listen_calls a = [MsQuicOpen2, RegistrationOpen ''msquic server app name'', ConfigurationOpen ''h3'' server_settings,
     ConfigurationLoadCredential (CRED_CERTIFICATE_FILE ''cert/server.cert'' ''cert/server.key''), ListenerOpen,
     ListenerStart ''h3'' (Some a)]"

lemma setup_msquic_sound:
  assumes "setup_msquic env b = (b', 0)"
  obtains x a where "b' = b\<lparr>bt_calls := bt_calls b @ listen_calls a, bt_msquic := Some x\<rparr>" "x_listener x"
    "qa_family a = AF_INET" "qa_port a = 443"
proof -
  from assms obtain a where a: "ipv4_addr (qe_parse env) ''10.10.10.11'' 443 = Some a"
    by (cases "ipv4_addr (qe_parse env) ''10.10.10.11'' 443")
      (auto simp: setup_msquic_def MsQuicRegister_def MsQuicConfigLocalAddr_def Let_def split: option.splits if_splits)
  obtain s1 s2 s3 s4 where q: "qe_listen env = (s1, s2, s3, s4)" by (metis prod.exhaust)
  have "\<exists>x. b' = b\<lparr>bt_calls := bt_calls b @ listen_calls a, bt_msquic := Some x\<rparr> \<and> x_listener x"
    using assms a q
    by (auto simp: setup_msquic_def MsQuicRegister_def MsQuicConfigLocalAddr_def server_MsQuicConfigCredentials_def
        server_MsQuicConfigParameters_def MsQuicListenerStart_def MsQuicCreate_def listen_calls_def Let_def
        simp del: quic_failed.simps split: if_splits)
  moreover have "qa_family a = AF_INET" "qa_port a = 443"
    using a by (auto simp: ipv4_addr_def split: option.splits if_splits)
  ultimately show ?thesis using that by blast
qed

text \<open>The clients' part of the session, as the callbacks see it.\<close>

definition session_of :: "boot \<Rightarrow> (nat \<Rightarrow> client_t) \<Rightarrow> session_t" where
  "session_of b mem = \<lparr>client_list = the (bt_list b), client_mem = mem, client_pool = the (bt_client_pool b),
     s_mem = bt_mem b, s_ips = the (bt_ips b), client_cnt = bt_cnt b\<rparr>"

lemma server_capacity:
  assumes "ip_pool_ok pool" "netmask pool = SERVER_MASK"
  shows "max_clients pool = 65536"
proof -
  have "ntohl SERVER_MASK = 0xFFFF0000" by code_simp
  then show ?thesis using ip_pool_okD(3)[OF assms(1)] assms(2) by simp
qed

lemma server_main_stages:
  assumes "server_main env m = Serving b"
  obtains b0 wan b1 b2 b3 b4 where "create_session (be_session env) m = Ok (Some b0)"
    "setup_tun_interface (be_tun env) ''172.18.0.1'' ''255.255.0.0'' (wi_ifname wan) (b0\<lparr>bt_wan := Some wan\<rparr>) = (b1, 0)"
    "setup_ip_pool_manager (fst (be_ips env)) (snd (be_ips env)) b1 = (b2, 0)"
    "init_client_manager (fst (be_clients env)) (snd (be_clients env)) (max_clients (the (bt_ips b2))) b2 = (b3, 0)"
    "setup_msquic (be_quic env) b3 = (b4, 0)" "b = b4\<lparr>bt_sending := True, bt_send_thread := True, bt_receiving := True, bt_recv_thread := True\<rparr>"
  using assms
  by (auto simp: server_main_def start_threads_def Let_def
      split: cres.splits option.splits prod.splits if_splits)

lemma server_serving:
  assumes "server_main env m = Serving b"
  obtains tun pool pid a where "bt_tun b = Some tun" "cfg tun = server_cfg" "tun_start (Some tun) = 0"
    "ss_state (bt_tun_state b) = TUN_READY" "bt_ips b = Some pool" "ip_pool_ok pool" "ip_leases pool = Map.empty"
    "server_ip pool = SERVER_IP" "netmask pool = SERVER_MASK" "max_clients pool = 65536"
    "\<And>mem. session_of b mem = \<lparr>client_list = replicate 65536 None, client_mem = mem, client_pool = pid, s_mem = bt_mem b,
      s_ips = pool, client_cnt = 1\<rparr>"
    "bt_client_pool b = Some pid" "pool_holds pid (bt_mem b) {}" "pool_limit pid (bt_mem b) = 65536"
    "bt_calls b = listen_calls a" "qa_family a = AF_INET" "qa_port a = 443" "bt_msquic b \<noteq> None"
proof -
  obtain b0 wan b1 b2 b3 b4 where st: "create_session (be_session env) m = Ok (Some b0)"
    "setup_tun_interface (be_tun env) ''172.18.0.1'' ''255.255.0.0'' (wi_ifname wan) (b0\<lparr>bt_wan := Some wan\<rparr>) = (b1, 0)"
    "setup_ip_pool_manager (fst (be_ips env)) (snd (be_ips env)) b1 = (b2, 0)"
    "init_client_manager (fst (be_clients env)) (snd (be_clients env)) (max_clients (the (bt_ips b2))) b2 = (b3, 0)"
    "setup_msquic (be_quic env) b3 = (b4, 0)" "b = b4\<lparr>bt_sending := True, bt_send_thread := True, bt_receiving := True, bt_recv_thread := True\<rparr>"
    by (rule server_main_stages[OF assms])
  obtain tun reqs where t: "b1 = b0\<lparr>bt_wan := Some wan, bt_reqs := reqs, bt_tun := Some tun,
      bt_tun_state := set_state TUN_READY (bt_tun_state b0)\<rparr>" "cfg tun = server_cfg" "tun_start (Some tun) = 0"
    by (rule setup_tun_sound[OF st(2)]) simp
  obtain pool where p: "b2 = b1\<lparr>bt_ips := Some pool\<rparr>" "ip_pool_ok pool" "ip_leases pool = Map.empty"
    "server_ip pool = t_ip tun" "netmask pool = t_mask tun"
    by (rule setup_ips_sound[OF st(3)]) (simp add: t(1))
  have addr: "server_ip pool = SERVER_IP" "netmask pool = SERVER_MASK"
    using p(4,5) t(2) by (simp_all add: cfg_def server_cfg_def)
  have cap: "max_clients pool = 65536" using server_capacity[OF p(2) addr(2)] .
  obtain m' pid where c: "b3 = b2\<lparr>bt_list := Some (replicate 65536 None), bt_mem := m', bt_client_pool := Some pid\<rparr>"
    "pool_holds pid m' {}" "pool_limit pid m' = 65536"
    by (rule init_clients_sound[OF st(4)]) (simp_all add: p(1) cap)
  obtain x a where q: "b4 = b3\<lparr>bt_calls := bt_calls b3 @ listen_calls a, bt_msquic := Some x\<rparr>"
    "qa_family a = AF_INET" "qa_port a = 443"
    by (rule setup_msquic_sound[OF st(5)])
  have sess: "session_of b mem = \<lparr>client_list = replicate 65536 None, client_mem = mem, client_pool = pid, s_mem = bt_mem b,
      s_ips = pool, client_cnt = 1\<rparr>" for mem
    using create_session_sound(1)[OF st(1)] by (simp add: session_of_def st(6) q(1) c(1) p(1) t(1))
  show ?thesis
    by (rule that[OF _ t(2,3) _ _ p(2,3) addr cap sess])
      (use c(2,3) q(2,3) create_session_sound[OF st(1)] in \<open>simp_all add: st(6) q(1) c(1) p(1) t(1)\<close>)
qed

section \<open>Properties\<close>

text \<open>
  C18. A server that serves. If the start sequence comes to its end, then the device has the
  address 172.18.0.1/16, MTU 1380 and the two resolvers, and is started; the address pool is that
  subnet with 65536 entries, none of them leased; the table of clients has as many slots, all free, and satisfies
  its invariant with the counter at one; the pool of client structures has the same limit and has handed
  out none; and the listener has been started on port 443 with an IPv4 address, after opening the
  library, the registration and the configuration, in this order. A start that fails after the session
  was made, and whose cleanup comes to its end, ends the program with exit status 0, the status of success.
\<close>

theorem server_startup:
  "case server_main env m of
     Serving b \<Rightarrow> \<exists>tun pool pid a.
       bt_tun b = Some tun \<and> cfg tun = server_cfg \<and> tun_start (Some tun) = 0 \<and> ss_state (bt_tun_state b) = TUN_READY \<and>
       bt_ips b = Some pool \<and> ip_pool_ok pool \<and> ip_leases pool = Map.empty \<and> server_ip pool = SERVER_IP \<and>
       netmask pool = SERVER_MASK \<and> max_clients pool = 65536 \<and>
       clients_wf (session_of b mem) \<and> set (client_list (session_of b mem)) = {None} \<and> client_cnt (session_of b mem) = 1 \<and>
       bt_client_pool b = Some pid \<and> pool_holds pid (bt_mem b) {} \<and> pool_limit pid (bt_mem b) = 65536 \<and>
       bt_calls b = listen_calls a \<and> qa_family a = AF_INET \<and> qa_port a = 443 \<and> bt_msquic b \<noteq> None
   | Exited code \<Rightarrow> code = (if create_session (be_session env) m = Ok None then 1 else 0)
   | _ \<Rightarrow> True"
proof (cases "server_main env m")
  case (Serving b)
  show ?thesis
  proof (rule server_serving[OF Serving])
    fix tun pool pid a
    assume a: "bt_tun b = Some tun" "cfg tun = server_cfg" "tun_start (Some tun) = 0" "ss_state (bt_tun_state b) = TUN_READY"
      "bt_ips b = Some pool" "ip_pool_ok pool" "ip_leases pool = Map.empty" "server_ip pool = SERVER_IP" "netmask pool = SERVER_MASK"
      "max_clients pool = 65536"
      and sess: "\<And>mem. session_of b mem = \<lparr>client_list = replicate 65536 None, client_mem = mem, client_pool = pid,
        s_mem = bt_mem b, s_ips = pool, client_cnt = 1\<rparr>"
      and c: "bt_client_pool b = Some pid" "pool_holds pid (bt_mem b) {}" "pool_limit pid (bt_mem b) = 65536"
        "bt_calls b = listen_calls a" "qa_family a = AF_INET" "qa_port a = 443" "bt_msquic b \<noteq> None"
    have "clients_wf (session_of b mem)" "set (client_list (session_of b mem)) = {None}" "client_cnt (session_of b mem) = 1"
      unfolding sess using a(10) by (simp_all add: clients_wf_def)
    then show ?thesis using a c Serving by auto
  qed
next
  case (Exited code)
  then show ?thesis
    by (auto simp: server_main_def dest!: boot_error_code split: cres.splits option.splits prod.splits if_splits)
qed simp_all

text \<open>A system on which everything works.\<close>

definition demo_boot_env :: boot_env where
  "demo_boot_env =
     \<lparr>be_session = \<lparr>ne_malloc = True, ne_sync = \<lparr>si_mutex_init = 0, si_attr_init = 0, si_setclock = 0, si_cond_init = 0\<rparr>,
        ne_pool1 = (Some 10, 0, 0), ne_pool2 = (Some 11, 0, 0),
        ne_queue = \<lparr>malloc_queue = True, malloc_ring = True, mutex_init_rc = 0, sem_init_pop_rc = 0, sem_init_push_rc = 0\<rparr>\<rparr>,
      be_signal = (True, True, True),
      be_wan = demo_wan_env,
      be_tun = \<lparr>te_calloc = True, te_sys = (\<lambda>_ _. 0), te_info = (\<lambda>_. \<lparr>si_ifname = ''tun0'', si_flags = 0, si_exec = \<lambda>_. True\<rparr>)\<rparr>,
      be_ips = (True, True), be_clients = (True, (Some 12, 0, 0)),
      be_quic = \<lparr>qe_calloc = True, qe_parse = (\<lambda>_ p. Some \<lparr>qa_family = 2, qa_addr = 0x0B0A0A0A, qa_port = p\<rparr>),
        qe_register = (QUIC_STATUS_SUCCESS, QUIC_STATUS_SUCCESS),
        qe_listen = (QUIC_STATUS_SUCCESS, QUIC_STATUS_SUCCESS, QUIC_STATUS_SUCCESS, QUIC_STATUS_SUCCESS)\<rparr>,
      be_threads = (True, True), be_stop = \<lparr>st_send_join = id, st_recv_join = id\<rparr>\<rparr>"

lemma demo_tun_setup: "snd (setup_tun_interface (be_tun demo_boot_env) ''172.18.0.1'' ''255.255.0.0'' ''eth0'' b) = 0"
  by code_simp

lemma ip_pool_create_works: "validate_mask (t_mask tun) \<Longrightarrow> \<exists>pool. ip_pool_create True True (Some tun) = Some pool"
  by (auto simp: ip_pool_create_def Let_def)

lemma demo_boot: "\<exists>b. server_main demo_boot_env m = Serving b"
proof -
  let ?e = demo_boot_env
  obtain b0 where b0: "create_session (be_session ?e) m = Ok (Some b0)"
    by (simp add: demo_boot_env_def create_session_def state_sync_init_def make_pool_def pool_init_def queue_init_def)
  obtain b1 where b1: "setup_tun_interface (be_tun ?e) ''172.18.0.1'' ''255.255.0.0'' ''eth0''
      (b0\<lparr>bt_wan := Some \<lparr>wi_ifindex = 2, wi_ifname = ''eth0'', wi_gateway = 0xC0A80001, wi_ip = 0x0B0A0A0A,
        wi_ip_str = ''10.10.10.11'', wi_mask = 0x00FFFFFF\<rparr>\<rparr>) = (b1, 0)"
    using demo_tun_setup by (metis prod.collapse)
  obtain tun where tun: "bt_tun b1 = Some tun" "cfg tun = server_cfg" "ss_state (bt_tun_state b1) = TUN_READY"
    by (rule setup_tun_sound[OF b1]) simp
  have "t_mask tun = SERVER_MASK" using tun(2) by (simp add: cfg_def server_cfg_def)
  moreover have "validate_mask SERVER_MASK" by code_simp
  ultimately obtain pool where "ip_pool_create True True (bt_tun b1) = Some pool"
    using ip_pool_create_works[of tun] tun(1) by auto
  then have b2: "setup_ip_pool_manager True True b1 = (b1\<lparr>bt_ips := Some pool\<rparr>, 0)"
    using tun by (simp add: setup_ip_pool_manager_def tun_get_flags_def tun_getter_def)
  obtain b3 where b3: "init_client_manager True (Some 12, 0, 0) (max_clients pool) (b1\<lparr>bt_ips := Some pool\<rparr>) = (b3, 0)"
    by (simp add: init_client_manager_def make_pool_def pool_init_def Let_def)
  obtain b4 where b4: "setup_msquic (be_quic ?e) b3 = (b4, 0)"
    by (simp add: demo_boot_env_def setup_msquic_def MsQuicRegister_def MsQuicConfigLocalAddr_def server_MsQuicConfigCredentials_def
        server_MsQuicConfigParameters_def MsQuicListenerStart_def MsQuicCreate_def ipv4_addr_def Let_def)
  have "be_signal ?e = (True, True, True)" "be_ips ?e = (True, True)" "be_clients ?e = (True, (Some 12, 0, 0))"
    "be_threads ?e = (True, True)" "be_wan ?e = demo_wan_env" by (simp_all add: demo_boot_env_def)
  then show ?thesis
    unfolding server_main_def b0 by (simp add: demo_wan b1 b2 b3 b4 attach_signal_def start_threads_def Let_def)
qed

theorem server_startup_witness:
  "\<forall>m. \<exists>b tun. server_main demo_boot_env m = Serving b \<and> bt_tun b = Some tun \<and> t_ip tun = SERVER_IP \<and> bt_cnt b = 1"
proof
  fix m
  obtain b where b: "server_main demo_boot_env m = Serving b" using demo_boot by blast
  then obtain tun where "bt_tun b = Some tun" "cfg tun = server_cfg" "client_cnt (session_of b undefined) = 1"
    using server_startup[where env = demo_boot_env and m = m and mem = undefined] by auto
  then show "\<exists>b tun. server_main demo_boot_env m = Serving b \<and> bt_tun b = Some tun \<and> t_ip tun = SERVER_IP \<and> bt_cnt b = 1"
    using b by (auto simp: cfg_def server_cfg_def session_of_def)
qed

end
