(* ===== verification/Client_Ctrl.thy ===== *)
theory Client_Ctrl
  imports Tun_Setup Pkt_Ctrl Sync_Prims Quic_Stream
begin

text \<open>
  The client's control channel: what \<^verbatim>\<open>process_ctrl_pkt\<close> of
  \<^verbatim>\<open>client/src/engine/quic.c\<close> does with a configuration it receives. It creates and
  configures the tunnel device with the addresses of the response, routes everything through it,
  installs the firewall rules and reports the outcome through the tunnel state.
\<close>

section \<open>Session\<close>

text \<open>The fields of the client's \<^verbatim>\<open>session_t\<close> the control channel uses; the requests made
  of the system are kept in order.\<close>

record ctrl_session =
  cs_tun :: "tun_iface option"
  cs_tun_state :: state_sync_t
  cs_wan_ifname :: string
  cs_server_ip :: string
  cs_server_port :: u16
  cs_reqs :: "sys_req list"

text \<open>What handling one frame meets: the allocation of the device structure, and for each call of the
  tunnel interface the system's answers and what it says of the device.\<close>

record ctrl_env =
  ce_calloc :: bool
  ce_sys :: "nat \<Rightarrow> sys"
  ce_info :: "nat \<Rightarrow> sys_info"

section \<open>The sequence of calls\<close>

text \<open>The text buffers are zeroed, and a conversion that fails leaves them empty.\<close>

fun text_of :: "string cres \<Rightarrow> string" where
  "text_of (Ok s) = s"
| "text_of _ = []"

definition config_steps :: "ctrl_env \<Rightarrow> ctrl_session \<Rightarrow> pkt_ctrl_config_resp_t \<Rightarrow> u16 \<Rightarrow> tun_step list" where
  "config_steps env s resp mtu =
     (let sys = ce_sys env; info = ce_info env; net = r_ip resp AND r_mask resp;
          ip_str = text_of (in_addr_to_str (Some (r_ip resp)) 16);
          mask_str = text_of (in_addr_to_str (Some (r_mask resp)) 16);
          dns1_str = text_of (in_addr_to_str (Some (r_dns1 resp)) 16);
          dns2_str = text_of (in_addr_to_str (Some (r_dns2 resp)) 16);
          net_cidr = text_of (in_addr_to_cidr (Some net) (Some (r_mask resp)) INET_CIDRSTRLEN)
      in [(True, tun_open (sys 0) (info 0)),
          (True, \<lambda>tp. tun_set_addr (sys 1) tp (Some ip_str) (Some mask_str)),
          (True, \<lambda>tp. tun_set_mtu (sys 2) tp mtu),
          (True, tun_set_up (sys 3) (info 3)),
          (False, tun_rules_clear (sys 4)),
          (True, \<lambda>tp. tun_set_dns (sys 5) tp (Some dns1_str) (Some dns2_str)),
          (True, \<lambda>tp. tun_add_route (sys 6) tp (Some ''0.0.0.0/1'')),
          (True, \<lambda>tp. tun_add_route (sys 7) tp (Some ''128.0.0.0/1'')),
          (True, \<lambda>tp. tun_add_route (sys 8) tp (Some net_cidr)),
          (False, \<lambda>tp. tun_client_rules_add (sys 9) tp (Some (cs_wan_ifname s)) (Some (cs_server_ip s)) (cs_server_port s)),
          (True, start_step)])"

text \<open>The label \<^verbatim>\<open>cleanup\<close>: every call is made, whatever the others return.\<close>

definition cleanup_steps :: "ctrl_env \<Rightarrow> tun_step list" where
  "cleanup_steps env =
     (let sys = ce_sys env; info = ce_info env
      in [(False, tun_flush_routes (sys 10)), (False, tun_clear_dns (sys 11)), (False, tun_rules_clear (sys 12)),
          (False, tun_set_down (sys 13) (info 13)), (False, tun_destroy (sys 14) (info 14))])"

definition client_process_ctrl_pkt :: "ctrl_env \<Rightarrow> pkt_ctrl_t \<Rightarrow> ctrl_session \<Rightarrow> ctrl_session \<times> int" where
  "client_process_ctrl_pkt env pkt_raw s =
     (let pkt = host_order pkt_raw in
      if \<not> frame_ok pkt then (s, 0)
      else if h_type (hdr pkt) = VPN_MSG_TYPE_CONFIG_RESP then
        let resp = resp_of_bytes (raw_padding pkt_raw); mtu = ntohs (r_mtu resp);
            tun = tun_create (ce_calloc env) TUN_BACKEND_NETLINK_CLIENT;
            (tp, reqs, ok) = (case tun of None \<Rightarrow> (None, [], False)
                              | Some _ \<Rightarrow> run_steps (config_steps env s resp mtu) tun)
        in if ok then (s\<lparr>cs_tun := tp, cs_tun_state := set_state TUN_READY (cs_tun_state s), cs_reqs := cs_reqs s @ reqs\<rparr>, 0)
           else (case run_steps (cleanup_steps env) tp of (tp', reqs', _) \<Rightarrow>
                   (s\<lparr>cs_tun_state := set_state TUN_FAIL (cs_tun_state s), cs_reqs := cs_reqs s @ reqs @ reqs'\<rparr>,
                    - ENODEV))
      else (s, 0))"

section \<open>What the sequence does\<close>

lemma text_of_addr [simp]: "text_of (in_addr_to_str (Some a) 16) = dotted a"
  using length_dotted[of a] by (simp add: in_addr_to_str_def inet_ntop_def)

lemma text_of_cidr: "validate_mask m \<Longrightarrow> text_of (in_addr_to_cidr (Some a) (Some m) INET_CIDRSTRLEN) \<noteq> []"
  using length_dotted[of a] by (auto simp: in_addr_to_cidr_def inet_ntop_def snprintf_trunc_def)

definition cfg_of :: "pkt_ctrl_config_resp_t \<Rightarrow> u16 \<Rightarrow> tun_cfg" where
  "cfg_of resp mtu =
     \<lparr>cf_ip = r_ip resp, cf_mask = r_mask resp, cf_dns1 = r_dns1 resp, cf_dns2 = r_dns2 resp, cf_mtu = mtu\<rparr>"

definition acceptable :: "pkt_ctrl_config_resp_t \<Rightarrow> u16 \<Rightarrow> bool" where
  "acceptable resp mtu \<longleftrightarrow> validate_mask (r_mask resp) \<and> 256 \<le> mtu \<and> mtu \<le> 1380"

text \<open>A sequence that comes to its end has given the device the values of the response.\<close>

lemma config_steps_sound:
  assumes "netlink tun" "run_steps (config_steps env s resp mtu) (Some tun) = (tp, reqs, True)"
  shows "\<exists>tun'. tp = Some tun' \<and> cfg tun' = cfg_of resp mtu \<and> acceptable resp mtu \<and> tun_start (Some tun') = 0"
proof -
  let ?k = "(id, True) :: (tun_cfg \<Rightarrow> tun_cfg) \<times> bool"
  let ?effs = "[?k, (\<lambda>c. c\<lparr>cf_ip := r_ip resp, cf_mask := r_mask resp\<rparr>, validate_mask (r_mask resp)),
    (\<lambda>c. c\<lparr>cf_mtu := mtu\<rparr>, 256 \<le> mtu \<and> mtu \<le> 1380), ?k, ?k, (\<lambda>c. c\<lparr>cf_dns1 := r_dns1 resp, cf_dns2 := r_dns2 resp\<rparr>, True),
    ?k, ?k, ?k, ?k, ?k]"
  have "list_all2 effect (config_steps env s resp mtu) ?effs"
    unfolding config_steps_def Let_def text_of_addr
    by (intro list.rel_intros effect_calls effect_keeps[OF keeps_calls(1)] effect_keeps[OF keeps_calls(2)]
        effect_keeps[OF keeps_calls(3)] effect_keeps[OF keeps_calls(4)] effect_keeps[OF keeps_calls(5)]
        effect_keeps[OF keeps_calls(9)])
  from run_steps_effect[OF this assms] obtain tun' where t: "tp = Some tun'" "cfg tun' = fold fst ?effs (cfg tun)"
    "list_all snd ?effs" by blast
  have "config_steps env s resp mtu = butlast (config_steps env s resp mtu) @ [(True, start_step)]"
    by (simp add: config_steps_def Let_def)
  then have "tun_start tp = 0" using run_steps_start assms(2) by metis
  then show ?thesis using t by (auto simp: cfg_of_def acceptable_def cfg_def)
qed

text \<open>On a system that works it comes to its end exactly for acceptable values; the firewall scripts
  play no part in it.\<close>

definition env_works :: "ctrl_env \<Rightarrow> bool" where
  "env_works env \<longleftrightarrow> ce_calloc env \<and> (\<forall>i. sys_works (ce_sys env i)) \<and>
     si_ifname (ce_info env 0) \<noteq> [] \<and> init_priv_data (si_exec (ce_info env 0)) \<noteq> None"

lemma config_steps_complete:
  assumes "env_works env" "t_api tun = Some TUN_BACKEND_NETLINK_CLIENT" "sts_flags tun = 0" "acceptable resp mtu"
  shows "snd (snd (run_steps (config_steps env s resp mtu) (Some tun)))"
proof -
  have w: "sys_works (ce_sys env i)" for i using assms(1) by (simp add: env_works_def)
  have acc: "validate_mask (r_mask resp)" "256 \<le> mtu" "mtu \<le> 1380" using assms(4) by (auto simp: acceptable_def)
  have op: "succeeds (tun_open (ce_sys env 0) (ce_info env 0)) (\<lambda>f. f OR TUN_STATE_OPEN) tun"
    using open_succeeds[OF w, of "ce_info env 0" tun] assms(1,2) by (simp add: env_works_def netlink_def)
  let ?t = "\<lambda>_ :: u64. True"
  let ?es = "[(?t, \<lambda>f. f OR (TUN_STATE_IP_SET OR TUN_STATE_MASK_SET)), (?t, \<lambda>f. f OR TUN_STATE_MTU_SET), (?t, \<lambda>f. f OR TUN_STATE_UP),
    (?t, id), (?t, \<lambda>f. f OR TUN_STATE_DNS_SET), (?t, id), (?t, id), (?t, id), (?t, id),
    (\<lambda>f. f AND TUN_STATE_READY = TUN_STATE_READY, id)]"
  have flow: "flow ?es (0 OR TUN_STATE_OPEN)" by (simp add: TUN_STATE_READY_def)
  have "list_all2 (proceeds TUN_BACKEND_NETLINK_CLIENT) (tl (config_steps env s resp mtu)) ?es"
    unfolding config_steps_def Let_def text_of_addr list.sel
    by (intro list.rel_intros proceeds_calls proceeds_unchecked proceeds_start acc w text_of_cidr) simp_all
  moreover obtain tun' reqs where t: "tun_open (ce_sys env 0) (ce_info env 0) (Some tun) = (Some tun', reqs, 0)" "named tun'"
    "sts_flags tun' = 0 OR TUN_STATE_OPEN" "t_api tun' = Some TUN_BACKEND_NETLINK_CLIENT"
    using op assms(2,3) by (auto simp: succeeds_def)
  ultimately have "snd (snd (run_steps (tl (config_steps env s resp mtu)) (Some tun')))"
    using run_steps_proceeds[OF _ t(2,4)] flow t(3) by metis
  moreover have "config_steps env s resp mtu = (True, tun_open (ce_sys env 0) (ce_info env 0)) # tl (config_steps env s resp mtu)"
    by (simp add: config_steps_def Let_def)
  moreover have "snd (snd (run_steps ((True, tun_open (ce_sys env 0) (ce_info env 0)) # steps) (Some tun))) =
      snd (snd (run_steps steps (Some tun')))" for steps using t(1) by simp
  ultimately show ?thesis by metis
qed

lemma created_tun:
  assumes "tun_create c TUN_BACKEND_NETLINK_CLIENT = Some tun"
  shows "t_api tun = Some TUN_BACKEND_NETLINK_CLIENT" "netlink tun" "sts_flags tun = 0" and "c"
  using assms by (auto simp: tun_create_def netlink_def split: if_splits)

text \<open>A configuration frame: the outcome in terms of its values.\<close>

lemma process_config:
  fixes p defines "resp \<equiv> resp_of_bytes (raw_padding p)" and "mtu \<equiv> ntohs (r_mtu (resp_of_bytes (raw_padding p)))"
  assumes frame: "frame_ok (host_order p)" "h_type (hdr (host_order p)) = VPN_MSG_TYPE_CONFIG_RESP"
  obtains s' where "client_process_ctrl_pkt env p s = (s', 0)" "ss_state (cs_tun_state s') = TUN_READY" "acceptable resp mtu"
      "\<exists>tun. cs_tun s' = Some tun \<and> cfg tun = cfg_of resp mtu \<and> tun_start (Some tun) = 0"
    | s' where "client_process_ctrl_pkt env p s = (s', - ENODEV)" "ss_state (cs_tun_state s') = TUN_FAIL" "cs_tun s' = cs_tun s"
      "\<not> (env_works env \<and> acceptable resp mtu)"
proof -
  let ?run = "case tun_create (ce_calloc env) TUN_BACKEND_NETLINK_CLIENT of None \<Rightarrow> (None, [], False)
    | Some tun \<Rightarrow> run_steps (config_steps env s resp mtu) (Some tun)"
  obtain tp reqs ok where r: "?run = (tp, reqs, ok)" by (metis prod.exhaust)
  have eq: "client_process_ctrl_pkt env p s =
      (if ok then (s\<lparr>cs_tun := tp, cs_tun_state := set_state TUN_READY (cs_tun_state s), cs_reqs := cs_reqs s @ reqs\<rparr>, 0)
       else case run_steps (cleanup_steps env) tp of (tp', reqs', _) \<Rightarrow>
         (s\<lparr>cs_tun_state := set_state TUN_FAIL (cs_tun_state s), cs_reqs := cs_reqs s @ reqs @ reqs'\<rparr>, - ENODEV))"
    using frame r by (cases "tun_create (ce_calloc env) TUN_BACKEND_NETLINK_CLIENT")
      (simp_all add: client_process_ctrl_pkt_def Let_def resp_def mtu_def)
  have sound: "acceptable resp mtu \<and> (\<exists>tun. tp = Some tun \<and> cfg tun = cfg_of resp mtu \<and> tun_start (Some tun) = 0)" if ok
    using r that config_steps_sound[OF created_tun(2), of "ce_calloc env" _ env s resp mtu tp reqs] by (auto split: option.splits)
  have complete: "ok" if e: "env_works env" and a: "acceptable resp mtu"
  proof -
    obtain tun where t: "tun_create (ce_calloc env) TUN_BACKEND_NETLINK_CLIENT = Some tun"
      using e by (auto simp: env_works_def tun_create_def)
    then show ?thesis using config_steps_complete[OF e created_tun(1)[OF t] created_tun(3)[OF t] a, of s] r by simp
  qed
  show ?thesis
  proof (cases ok)
    case True
    then show ?thesis using that(1) eq sound by simp
  next
    case False
    then show ?thesis using that(2) eq complete by (auto split: prod.splits)
  qed
qed

section \<open>Properties\<close>


text \<open>A working system, and one on which every nft script fails.\<close>

definition demo_ctrl_env :: "int \<Rightarrow> ctrl_env" where
  "demo_ctrl_env nft = \<lparr>ce_calloc = True, ce_sys = (\<lambda>_ r. case r of NftScript _ _ \<Rightarrow> nft | _ \<Rightarrow> 0),
     ce_info = (\<lambda>_. \<lparr>si_ifname = ''tun0'', si_flags = 0, si_exec = \<lambda>_. True\<rparr>)\<rparr>"

lemma demo_env_works: "env_works (demo_ctrl_env nft)"
  by (auto simp: env_works_def demo_ctrl_env_def sys_works_def init_priv_data_def in_dirs_def sbin_dirs_def split: sys_req.split)

definition demo_resp_frame :: pkt_ctrl_t where
  "demo_resp_frame = the (pkt_ctrl_create_config_resp True 1 0 1380 0x020012AC 0x0000FFFF 0x01010101 0x08080808)"

definition demo_ctrl_session :: ctrl_session where
  "demo_ctrl_session = \<lparr>cs_tun = None, cs_tun_state = \<lparr>ss_state = TUN_CLOSED\<rparr>, cs_wan_ifname = ''eth0'',
     cs_server_ip = ''192.0.2.1'', cs_server_port = 443, cs_reqs = []\<rparr>"


end
