(* ===== verification/Client_Quic.thy ===== *)
theory Client_Quic
  imports Client_Ctrl Data_Send Quic_Setup
begin

text \<open>
  The client's side of the transport, \<^verbatim>\<open>client/src/engine/quic.c\<close>: the callbacks of the
  connection and of its one stream, and the functions that start them, send on the stream and wait for the
  callbacks. The callbacks run on threads of the library, so what they do between two steps of a
  starting function, or before one of its wake-ups, is an argument of that function.
\<close>

section \<open>State\<close>

record client_q =
  cq :: "quic_ctx option"
  cq_ctrl :: ctrl_session
  cq_con :: state_sync_t
  cq_str :: state_sync_t
  cq_data :: dpath
  cq_recv_pool :: nat
  cq_sends :: spath
  cq_calls :: "quic_call list"
  cq_env :: "nat \<Rightarrow> ctrl_env"
  cq_tick :: nat

definition qcall :: "quic_call \<Rightarrow> client_q \<Rightarrow> client_q" where
  "qcall c s = s\<lparr>cq_calls := cq_calls s @ [c]\<rparr>"

definition set_con :: "int \<Rightarrow> client_q \<Rightarrow> client_q" where
  "set_con v s = s\<lparr>cq_con := set_state v (cq_con s)\<rparr>"

definition set_str :: "int \<Rightarrow> client_q \<Rightarrow> client_q" where
  "set_str v s = s\<lparr>cq_str := set_state v (cq_str s)\<rparr>"

definition set_ctx :: "quic_ctx \<Rightarrow> client_q \<Rightarrow> client_q" where
  "set_ctx x s = s\<lparr>cq := Some x\<rparr>"

lemmas client_upd = qcall_def set_con_def set_str_def set_ctx_def

section \<open>The stream callback\<close>

datatype cstream_event =
    CS_START_COMPLETE bool quic_status | CS_RECEIVE "bytes list" nat | CS_SEND_COMPLETE bool
  | CS_SHUTDOWN_COMPLETE | CS_OTHER

definition client_handle_frame :: "pkt_ctrl_t \<Rightarrow> client_q \<Rightarrow> client_q \<times> int" where
  "client_handle_frame pkt s =
     (case client_process_ctrl_pkt (cq_env s (cq_tick s)) pkt (cq_ctrl s) of
        (c, rc) \<Rightarrow> (s\<lparr>cq_ctrl := c, cq_tick := Suc (cq_tick s)\<rparr>, rc))"

text \<open>The result carries the new value of \<^verbatim>\<open>TotalBufferLength\<close>. Events that only write a
  trace line are one case.\<close>

definition msquic_stream_callback ::
  "nat option \<Rightarrow> cstream_event \<Rightarrow> client_q \<Rightarrow> client_q \<times> (quic_status \<times> nat) cres" where
  "msquic_stream_callback handle ev s =
     (case cq s of None \<Rightarrow> (s, Abort)
      | Some x \<Rightarrow>
     (case ev of
        CS_START_COMPLETE peer_ok st \<Rightarrow>
          (if \<not> (peer_ok \<and> \<not> quic_failed st) then set_str STREAM_CLOSED s else set_str STREAM_OPEN s, Ok (QUIC_STATUS_SUCCESS, 0))
      | CS_RECEIVE bufs recv_bytes \<Rightarrow>
          (case client_stream_receive client_handle_frame bufs recv_bytes s of (s', n, st) \<Rightarrow> (s', Ok (st, n)))
      | CS_SEND_COMPLETE buffer \<Rightarrow> (s, Ok (if buffer then QUIC_STATUS_SUCCESS else QUIC_STATUS_PROTOCOL_ERROR, 0))
      | CS_SHUTDOWN_COMPLETE \<Rightarrow>
          let s1 = set_ctx (x\<lparr>x_stream := None\<rparr>) (set_str STREAM_CLOSED s);
              s2 = (if handle \<noteq> None then qcall (StreamClose handle) s1 else s1);
              s3 = (if x_conn x \<noteq> None then qcall (ConnectionShutdown (x_conn x) 0) s2 else s2)
          in (s3, Ok (QUIC_STATUS_SUCCESS, 0))
      | CS_OTHER \<Rightarrow> (s, Ok (QUIC_STATUS_SUCCESS, 0))))"

section \<open>The connection callback\<close>

datatype cconn_event =
    CC_DATAGRAM_SEND_STATE "nat option" datagram_send_state | CC_DATAGRAM_RECEIVED pool_os "bytes option"
  | CC_TICKET bytes bool | CC_CONNECTED | CC_SHUTDOWN_COMPLETE | CC_OTHER

definition msquic_connect_callback ::
  "nat option \<Rightarrow> cconn_event \<Rightarrow> client_q \<Rightarrow> client_q \<times> quic_status cres" where
  "msquic_connect_callback handle ev s =
     (case cq s of None \<Rightarrow> (s, Abort)
      | Some x \<Rightarrow>
        if x_conn x = None then (s, Abort)
        else (case ev of
          CC_DATAGRAM_SEND_STATE pkt st \<Rightarrow>
            (case datagram_send_state_changed pkt st (cq_sends s) of (sp, r) \<Rightarrow> (s\<lparr>cq_sends := sp\<rparr>, r))
        | CC_DATAGRAM_RECEIVED os buf \<Rightarrow>
            (case client_datagram_received os mutex_ok (cq_recv_pool s) buf (cq_data s) of (d, r) \<Rightarrow> (s\<lparr>cq_data := d\<rparr>, r))
        | CC_TICKET ticket malloc_ok \<Rightarrow>
            if \<not> malloc_ok then (set_ctx (x\<lparr>x_ticket := None\<rparr>) s, Ok QUIC_STATUS_OUT_OF_MEMORY)
            else (set_ctx (x\<lparr>x_ticket := Some ticket\<rparr>) s, Ok QUIC_STATUS_SUCCESS)
        | CC_CONNECTED \<Rightarrow> (set_con SESSION_CONNECTED s, Ok QUIC_STATUS_SUCCESS)
        | CC_SHUTDOWN_COMPLETE \<Rightarrow>
            let s1 = set_ctx (x\<lparr>x_conn := None\<rparr>) (set_con SESSION_DISCONNECTED s)
            in (if handle \<noteq> None then qcall (ConnectionClose handle) s1 else s1, Ok QUIC_STATUS_SUCCESS)
        | CC_OTHER \<Rightarrow> (s, Ok QUIC_STATUS_SUCCESS)))"

section \<open>Events while a function runs\<close>

datatype client_event = OnConn cconn_event | OnStream cstream_event

text \<open>The handles an event comes with are those the callbacks were registered for; a failed assertion
  ends the program.\<close>

definition deliver :: "nat \<Rightarrow> nat \<Rightarrow> client_event \<Rightarrow> client_q \<times> bool \<Rightarrow> client_q \<times> bool" where
  "deliver hc hs ev r =
     (case r of (s, alive) \<Rightarrow>
        if \<not> alive then r
        else case ev of
          OnConn e \<Rightarrow> (case msquic_connect_callback (Some hc) e s of (s', q) \<Rightarrow> (s', q \<noteq> Abort))
        | OnStream e \<Rightarrow> (case msquic_stream_callback (Some hs) e s of (s', q) \<Rightarrow> (s', q \<noteq> Abort)))"

definition deliver_all :: "nat \<Rightarrow> nat \<Rightarrow> client_event list \<Rightarrow> client_q \<times> bool \<Rightarrow> client_q \<times> bool" where
  "deliver_all hc hs evs r = fold (deliver hc hs) evs r"

text \<open>The states a waiting thread finds at its wake-ups, each with the events before it.\<close>

fun wake_states :: "(client_q \<Rightarrow> state_sync_t) \<Rightarrow> nat \<Rightarrow> nat \<Rightarrow> (int \<times> client_event list) list \<Rightarrow> client_q \<times> bool \<Rightarrow> (int \<times> int) list" where
  "wake_states sel hc hs [] r = []"
| "wake_states sel hc hs ((rc, evs) # ws) r =
     (case deliver_all hc hs evs r of (s', alive) \<Rightarrow> (rc, ss_state (sel s')) # wake_states sel hc hs ws (s', alive))"

section \<open>Starting\<close>

record connect_os =
  ko_open :: quic_status
  ko_handle :: nat
  ko_local :: quic_status
  ko_remote :: quic_status
  ko_start :: quic_status
  ko_clock :: "timespec option"

definition with_ctx :: "(quic_ctx \<Rightarrow> quic_ctx) \<Rightarrow> client_q \<Rightarrow> client_q" where
  "with_ctx f s = (case cq s of None \<Rightarrow> s | Some x \<Rightarrow> set_ctx (f x) s)"

text \<open>The wait of both functions: the answer of \<^verbatim>\<open>state_sync_wait_ms_abort\<close> for five seconds,
  and the state after all the events.\<close>

definition wait_state ::
  "timespec option \<Rightarrow> (client_q \<Rightarrow> state_sync_t) \<Rightarrow> int \<Rightarrow> int \<Rightarrow> nat \<Rightarrow> nat \<Rightarrow> (int \<times> client_event list) list
   \<Rightarrow> client_q \<times> bool \<Rightarrow> (client_q \<times> bool) \<times> int cres" where
  "wait_state clock sel target ab hc hs wakes r =
     (let res = state_sync_wait_ms_abort mutex_ok clock (wake_states sel hc hs wakes r) (Some (sel (fst r))) target ab 5000
      in (deliver_all hc hs (concat (map snd wakes)) r,
          case res of Ok v \<Rightarrow> Ok 0 | Block \<Rightarrow> Block | Abort \<Rightarrow> Abort | Err e \<Rightarrow> Err ETIMEDOUT))"

text \<open>The events \<^term>\<open>before\<close> come after \<^verbatim>\<open>ConnectionStart\<close> and before the state is
  set to connecting.\<close>

definition MsQuicConnectionStart ::
  "connect_os \<Rightarrow> client_event list \<Rightarrow> (int \<times> client_event list) list \<Rightarrow> client_q \<Rightarrow> (client_q \<times> bool) \<times> int cres" where
  "MsQuicConnectionStart os before wakes s =
     (case cq s of None \<Rightarrow> ((s, False), Abort)
      | Some x \<Rightarrow>
        let h = ko_handle os; s1 = qcall ConnectionOpen s;
            close = (\<lambda>s. with_ctx (x_conn_update (\<lambda>_. None)) (qcall (ConnectionClose (Some h)) s)) in
        if quic_failed (ko_open os) then ((s1, True), Err ECONNABORTED)
        else let s2 = qcall (SetParamLocal (x_local x)) (set_ctx (x\<lparr>x_conn := Some h\<rparr>) s1) in
          if quic_failed (ko_local os) then ((close s2, True), Err ECONNABORTED)
          else let s3 = qcall (SetParamRemote (x_server x)) s2 in
            if quic_failed (ko_remote os) then ((close s3, True), Err ECONNABORTED)
            else let s4 = qcall (ConnectionStart (case x_server x of None \<Rightarrow> 0 | Some a \<Rightarrow> qa_port a)) s3 in
              if quic_failed (ko_start os) then ((close s4, True), Err ECONNABORTED)
              else (case deliver_all h 0 before (s4, True) of (s5, alive) \<Rightarrow>
                      wait_state (ko_clock os) cq_con SESSION_CONNECTED SESSION_DISCONNECTED h 0 wakes
                        (set_con SESSION_CONNECTING s5, alive)))"

record stream_os =
  to_open :: quic_status
  to_handle :: nat
  to_start :: quic_status
  to_clock :: "timespec option"

definition MsQuicStreamStart ::
  "stream_os \<Rightarrow> nat \<Rightarrow> client_event list \<Rightarrow> (int \<times> client_event list) list \<Rightarrow> client_q \<Rightarrow> (client_q \<times> bool) \<times> int cres" where
  "MsQuicStreamStart os hc before wakes s =
     (if \<not> in_state (cq_con s) SESSION_CONNECTED then ((s, True), Err ECONNABORTED)
      else case cq s of None \<Rightarrow> ((s, False), Abort)
      | Some x \<Rightarrow>
        let h = to_handle os; s1 = qcall (StreamOpen (x_conn x)) s in
        if quic_failed (to_open os) then ((set_str STREAM_CLOSED s1, True), Err ECONNABORTED)
        else let s2 = qcall (StreamStart (Some h)) (set_ctx (x\<lparr>x_stream := Some h\<rparr>) s1) in
          if quic_failed (to_start os)
          then ((set_str STREAM_CLOSED (with_ctx (x_stream_update (\<lambda>_. None)) (qcall (StreamClose (Some h)) s2)), True), Err ECONNABORTED)
          else (case deliver_all hc h before (s2, True) of (s3, alive) \<Rightarrow>
                  wait_state (to_clock os) cq_str STREAM_OPEN STREAM_CLOSED hc h wakes (set_str STREAM_OPENING s3, alive)))"

section \<open>Sending\<close>

text \<open>The buffer must not be null; the second allocation is not checked.\<close>

definition MsQuicStreamSend :: "bool \<Rightarrow> bool \<Rightarrow> quic_status \<Rightarrow> bytes option \<Rightarrow> client_q \<Rightarrow> client_q \<times> int cres" where
  "MsQuicStreamSend malloc_ok malloc_buf st buf s =
     (case cq s of None \<Rightarrow> (s, Abort)
      | Some x \<Rightarrow>
     (case buf of None \<Rightarrow> (s, Abort)
      | Some bs \<Rightarrow>
        if bs = [] then (s, Abort)
        else if \<not> malloc_ok then (qcall (StreamShutdown (x_stream x) FLAG_ABORT) s, Ok (- ENOMEM))
        else if \<not> malloc_buf then (s, Abort)
        else let s1 = qcall (StreamSend (x_stream x) bs) s in
          if quic_failed st then (qcall (StreamShutdown (x_stream x) FLAG_ABORT) s1, Ok (- ECANCELED))
          else (s1, Ok 0)))"

section \<open>What the callbacks leave alone\<close>

text \<open>Handling frames changes the control part of the session only.\<close>

definition same_conn :: "client_q \<Rightarrow> client_q \<Rightarrow> bool" where
  "same_conn s s' \<longleftrightarrow> cq s' = cq s \<and> cq_con s' = cq_con s \<and> cq_str s' = cq_str s \<and> cq_calls s' = cq_calls s"

lemma same_conn_refl [simp]: "same_conn s s"
  by (simp add: same_conn_def)

lemma same_conn_trans: "same_conn s s' \<Longrightarrow> same_conn s' s'' \<Longrightarrow> same_conn s s''"
  by (simp add: same_conn_def)

lemma handle_frame_same: "same_conn s (fst (client_handle_frame p s))"
  by (simp add: client_handle_frame_def same_conn_def split: prod.split)

lemma stream_receive_same:
  assumes "client_stream_receive client_handle_frame bufs n s = (s', k, st)"
  shows "same_conn s s'"
  using client_stream_receive_keeps[of "same_conn s" client_handle_frame s bufs n] assms
  by (auto intro: same_conn_trans[OF _ handle_frame_same])

text \<open>Only two events change the state of the connection.\<close>

definition quiet :: "client_event \<Rightarrow> bool" where
  "quiet ev \<longleftrightarrow> ev \<noteq> OnConn CC_CONNECTED \<and> ev \<noteq> OnConn CC_SHUTDOWN_COMPLETE"

lemma deliver_quiet: "quiet ev \<Longrightarrow> cq_con (fst (deliver hc hs ev r)) = cq_con (fst r)"
proof (cases ev)
  case (OnConn e)
  then show "quiet ev \<Longrightarrow> ?thesis"
    by (cases e) (auto simp: deliver_def quiet_def msquic_connect_callback_def client_upd split: prod.splits option.splits if_splits)
next
  case (OnStream e)
  then show ?thesis
    by (cases e) (auto simp: deliver_def msquic_stream_callback_def client_upd Let_def same_conn_def
        split: prod.splits option.splits if_splits dest!: stream_receive_same)
qed

lemma deliver_all_quiet: "\<forall>ev\<in>set evs. quiet ev \<Longrightarrow> cq_con (fst (deliver_all hc hs evs r)) = cq_con (fst r)"
  unfolding deliver_all_def by (induction evs arbitrary: r) (simp_all add: deliver_quiet)

lemma deliver_all_append: "deliver_all hc hs (xs @ ys) r = deliver_all hc hs ys (deliver_all hc hs xs r)"
  by (simp add: deliver_all_def)

lemma deliver_dead: "deliver_all hc hs evs (s, False) = (s, False)"
  unfolding deliver_all_def by (induction evs) (simp_all add: deliver_def)

lemma deliver_connected:
  assumes "snd (deliver_all hc hs (evs @ [OnConn CC_CONNECTED]) r)"
  shows "ss_state (cq_con (fst (deliver_all hc hs (evs @ [OnConn CC_CONNECTED]) r))) = SESSION_CONNECTED"
  using assms
  by (cases "deliver_all hc hs evs r")
    (auto simp: deliver_all_append deliver_all_def[of _ _ "[_]"] deliver_def msquic_connect_callback_def client_upd
      split: if_splits option.splits)

section \<open>Invariants of the callbacks\<close>

text \<open>What both callbacks keep holds after any sequence of events.\<close>

locale client_invariant =
  fixes inv :: "client_q \<Rightarrow> bool" and hc :: nat
  assumes on_conn: "inv s \<Longrightarrow> inv (fst (msquic_connect_callback (Some hc) e s))"
    and on_stream: "inv s \<Longrightarrow> inv (fst (msquic_stream_callback (Some hs) e' s))"
begin

lemma deliver_keeps: "inv (fst r) \<Longrightarrow> inv (fst (deliver hc hs ev r))"
  using on_conn[of "fst r"] on_stream[of "fst r" hs]
  by (cases ev; cases r) (simp_all add: deliver_def case_prod_unfold)

lemma deliver_all_keeps: "inv (fst r) \<Longrightarrow> inv (fst (deliver_all hc hs evs r))"
  unfolding deliver_all_def by (induction evs arbitrary: r) (simp_all add: deliver_keeps)

lemma wait_state_keeps: "inv (fst r) \<Longrightarrow> inv (fst (fst (wait_state clock sel target ab hc hs wakes r)))"
  by (simp add: wait_state_def Let_def deliver_all_keeps)

end

text \<open>Some say nothing of the handles, of the states of connection and stream and of the calls: starting keeps them too.\<close>

locale client_session_invariant = client_invariant +
  assumes on_ctx: "inv s \<Longrightarrow> inv (s\<lparr>cq := c\<rparr>)" and on_call: "inv s \<Longrightarrow> inv (qcall k s)"
    and on_con: "inv s \<Longrightarrow> inv (set_con v s)" and on_str: "inv s \<Longrightarrow> inv (set_str v s)"
begin

lemma set_ctx_keeps: "inv s \<Longrightarrow> inv (set_ctx x s)"
  by (simp add: set_ctx_def on_ctx)

lemma with_ctx_keeps: "inv s \<Longrightarrow> inv (with_ctx f s)"
  by (simp add: with_ctx_def set_ctx_keeps split: option.split)

lemmas update_keeps = set_ctx_keeps with_ctx_keeps on_call on_con on_str

lemma connection_start_keeps:
  assumes "inv s" "ko_handle os = hc"
  shows "inv (fst (fst (MsQuicConnectionStart os before wakes s)))"
proof (cases "cq s")
  case None
  then show ?thesis using assms by (simp add: MsQuicConnectionStart_def)
next
  case (Some x)
  let ?s4 = "qcall (ConnectionStart (case x_server x of None \<Rightarrow> 0 | Some a \<Rightarrow> qa_port a))
    (qcall (SetParamRemote (x_server x)) (qcall (SetParamLocal (x_local x)) (set_ctx (x\<lparr>x_conn := Some hc\<rparr>) (qcall ConnectionOpen s))))"
  obtain s5 al where d: "deliver_all hc 0 before (?s4, True) = (s5, al)" by (metis prod.exhaust)
  have "inv s5" using deliver_all_keeps[of "(?s4, True)" 0 before] d assms(1) update_keeps by simp
  then have "inv (fst (fst (wait_state (ko_clock os) cq_con SESSION_CONNECTED SESSION_DISCONNECTED hc 0 wakes (set_con SESSION_CONNECTING s5, al))))"
    using wait_state_keeps update_keeps by simp
  then show ?thesis using Some assms d update_keeps
    by (simp add: MsQuicConnectionStart_def Let_def del: quic_failed.simps)
qed

lemma stream_start_keeps:
  assumes "inv s"
  shows "inv (fst (fst (MsQuicStreamStart os hc before wakes s)))"
proof (cases "cq s")
  case None
  then show ?thesis using assms by (simp add: MsQuicStreamStart_def)
next
  case (Some x)
  let ?h = "to_handle os"
  let ?s2 = "qcall (StreamStart (Some ?h)) (set_ctx (x\<lparr>x_stream := Some ?h\<rparr>) (qcall (StreamOpen (x_conn x)) s))"
  obtain s3 al where d: "deliver_all hc ?h before (?s2, True) = (s3, al)" by (metis prod.exhaust)
  have "inv s3" using deliver_all_keeps[of "(?s2, True)" ?h before] d assms(1) update_keeps by simp
  then have "inv (fst (fst (wait_state (to_clock os) cq_str STREAM_OPEN STREAM_CLOSED hc ?h wakes (set_str STREAM_OPENING s3, al))))"
    using wait_state_keeps update_keeps by simp
  then show ?thesis using Some assms d update_keeps
    by (simp add: MsQuicStreamStart_def Let_def del: quic_failed.simps)
qed

lemma stream_send_keeps: "inv s \<Longrightarrow> inv (fst (MsQuicStreamSend m1 m2 st buf s))"
  using update_keeps by (simp add: MsQuicStreamSend_def Let_def del: quic_failed.simps split: option.split)

end

section \<open>Waiting for the connection\<close>

definition connect_ok :: "connect_os \<Rightarrow> bool" where
  "connect_ok os \<longleftrightarrow> \<not> quic_failed (ko_open os) \<and> \<not> quic_failed (ko_local os) \<and> \<not> quic_failed (ko_remote os) \<and>
     \<not> quic_failed (ko_start os) \<and> ss_deadline (ko_clock os) 5000 \<noteq> None"

lemma wait_state_result:
  assumes "ss_deadline clock 5000 \<noteq> None"
  shows "snd (wait_state clock sel target ab hc hs wakes r) =
    (case first_hit target ab (ss_state (sel (fst r)) # fst (observed (wake_states sel hc hs wakes r))) of
       Some (Ok v) \<Rightarrow> Ok 0 | Some _ \<Rightarrow> Err ETIMEDOUT
     | None \<Rightarrow> if snd (observed (wake_states sel hc hs wakes r)) then Err ETIMEDOUT else Block)"
proof -
  have hit: "first_hit target ab sts = None \<or> first_hit target ab sts = Some (Ok 0) \<or> first_hit target ab sts = Some (Err ECONNABORTED)" for sts
    by (induction sts) auto
  show ?thesis
    using assms hit[of "ss_state (sel (fst r)) # fst (observed (wake_states sel hc hs wakes r))"]
      abort_wait_loop_spec[of mutex_ok target ab "wake_states sel hc hs wakes r" "ss_state (sel (fst r))"]
    by (auto simp: wait_state_def Let_def state_sync_wait_ms_abort_def mutex_ok_def)
qed

lemma quiet_states:
  assumes "\<forall>(rc, evs) \<in> set wakes. \<forall>ev\<in>set evs. quiet ev"
  shows "(\<forall>(rc, st) \<in> set (wake_states cq_con hc hs wakes r). st = ss_state (cq_con (fst r))) \<and>
    map fst (wake_states cq_con hc hs wakes r) = map fst wakes"
  using assms
proof (induction wakes arbitrary: r)
  case (Cons w wakes)
  obtain rc evs where w: "w = (rc, evs)" by (cases w)
  obtain s' al where d: "deliver_all hc hs evs r = (s', al)" by (metis prod.exhaust)
  have "cq_con s' = cq_con (fst r)" using deliver_all_quiet[of evs hc hs r] Cons.prems w d by auto
  then show ?case using Cons.IH[of "(s', al)"] Cons.prems w d by auto
qed simp

lemma observed_quiet:
  assumes "\<forall>(rc, st) \<in> set wakes. st = v"
  shows "set (fst (observed wakes)) \<subseteq> {v}" "snd (observed wakes) \<longleftrightarrow> (\<exists>rc \<in> fst ` set wakes. rc \<noteq> 0)"
  using assms by (induction wakes rule: observed.induct) auto

lemma first_hit_none: "set sts \<subseteq> {v} \<Longrightarrow> v \<noteq> target \<Longrightarrow> v \<noteq> ab \<Longrightarrow> first_hit target ab sts = None"
  by (induction sts) auto

section \<open>Properties\<close>

text \<open>
  C39. Connecting. When the requests of the connection succeed, the client's start returns zero if
  the connection is up at the end of the events before its first wake-up. But it sets its state to
  connecting after the connection was started, and so forgets what happened before: if the handshake completes in
  between and nothing more is reported, then the call returns \<^verbatim>\<open>-ETIMEDOUT\<close> when its
  timer expires, and never zero, with the state still connecting, although the connection is up.
\<close>

theorem client_connect_race:
  assumes os: "cq s = Some x" "connect_ok os" and run: "MsQuicConnectionStart os before wakes s = ((s', True), r)"
  shows "((\<exists>rc evs ws. wakes = (rc, evs @ [OnConn CC_CONNECTED]) # ws) \<longrightarrow> r = Ok 0) \<and>
    ((\<forall>(rc, evs) \<in> set wakes. \<forall>ev\<in>set evs. quiet ev) \<longrightarrow>
       ss_state (cq_con s') = SESSION_CONNECTING \<and> r = (if \<exists>rc \<in> fst ` set wakes. rc \<noteq> 0 then Err ETIMEDOUT else Block))"
proof -
  let ?h = "ko_handle os"
  define s4 where "s4 = qcall (ConnectionStart (case x_server x of None \<Rightarrow> 0 | Some a \<Rightarrow> qa_port a))
    (qcall (SetParamRemote (x_server x)) (qcall (SetParamLocal (x_local x)) (set_ctx (x\<lparr>x_conn := Some ?h\<rparr>) (qcall ConnectionOpen s))))"
  obtain s5 al where d: "deliver_all ?h 0 before (s4, True) = (s5, al)" by (metis prod.exhaust)
  define r5 where "r5 = (set_con SESSION_CONNECTING s5, al)"
  have st5: "ss_state (cq_con (fst r5)) = SESSION_CONNECTING" by (simp add: r5_def set_con_def)
  have eq: "wait_state (ko_clock os) cq_con SESSION_CONNECTED SESSION_DISCONNECTED ?h 0 wakes r5 = ((s', True), r)"
    using run os d by (simp add: MsQuicConnectionStart_def connect_ok_def Let_def s4_def r5_def del: quic_failed.simps)
  then have fin: "deliver_all ?h 0 (concat (map snd wakes)) r5 = (s', True)" by (simp add: wait_state_def Let_def)
  note res = wait_state_result[of "ko_clock os" cq_con SESSION_CONNECTED SESSION_DISCONNECTED ?h 0 wakes r5]
  have dl: "ss_deadline (ko_clock os) 5000 \<noteq> None" using os(2) by (simp add: connect_ok_def)
  have "r = Ok 0" if w: "wakes = (rc, evs @ [OnConn CC_CONNECTED]) # ws" for rc evs ws
  proof -
    obtain s6 al6 where d6: "deliver_all ?h 0 (evs @ [OnConn CC_CONNECTED]) r5 = (s6, al6)" by (metis prod.exhaust)
    have "deliver_all ?h 0 (concat (map snd ws)) (s6, al6) = (s', True)"
      using fin w d6 deliver_all_append[of ?h 0 "evs @ [OnConn CC_CONNECTED]" "concat (map snd ws)" r5] by simp
    then have "al6" using deliver_dead[of ?h 0 _ s6] by (cases al6) auto
    then have "ss_state (cq_con s6) = SESSION_CONNECTED" using deliver_connected[of ?h 0 evs r5] d6 by simp
    then have "SESSION_CONNECTED = hd (fst (observed (wake_states cq_con ?h 0 wakes r5))) \<and>
        fst (observed (wake_states cq_con ?h 0 wakes r5)) \<noteq> []"
      using w d6 by (cases "observed (wake_states cq_con ?h 0 ws (s6, al6))") auto
    then have "first_hit SESSION_CONNECTED SESSION_DISCONNECTED (SESSION_CONNECTING # fst (observed (wake_states cq_con ?h 0 wakes r5))) = Some (Ok 0)"
      by (cases "fst (observed (wake_states cq_con ?h 0 wakes r5))") auto
    then show ?thesis using res[OF dl] eq st5 by simp
  qed
  moreover have "ss_state (cq_con s') = SESSION_CONNECTING \<and> r = (if \<exists>rc \<in> fst ` set wakes. rc \<noteq> 0 then Err ETIMEDOUT else Block)"
    if q: "\<forall>(rc, evs) \<in> set wakes. \<forall>ev\<in>set evs. quiet ev"
  proof -
    note ws = quiet_states[OF q, of ?h 0 r5]
    have "fst ` set (wake_states cq_con ?h 0 wakes r5) = fst ` set wakes" using ws by (metis list.set_map)
    moreover have "first_hit SESSION_CONNECTED SESSION_DISCONNECTED (SESSION_CONNECTING # fst (observed (wake_states cq_con ?h 0 wakes r5))) = None"
      using observed_quiet(1)[of "wake_states cq_con ?h 0 wakes r5" SESSION_CONNECTING] ws st5 by (intro first_hit_none[of _ SESSION_CONNECTING]) auto
    moreover have "\<forall>ev\<in>set (concat (map snd wakes)). quiet ev" using q by auto
    ultimately show ?thesis
      using res[OF dl] eq st5 fin deliver_all_quiet[of "concat (map snd wakes)" ?h 0 r5]
        observed_quiet(2)[of "wake_states cq_con ?h 0 wakes r5" SESSION_CONNECTING] ws by simp
  qed
  ultimately show ?thesis by blast
qed

text \<open>A client about to connect.\<close>

definition demo_client :: client_q where
  "demo_client = \<lparr>cq = MsQuicCreate True, cq_ctrl = demo_ctrl_session, cq_con = \<lparr>ss_state = SESSION_DISCONNECTED\<rparr>,
     cq_str = \<lparr>ss_state = STREAM_CLOSED\<rparr>,
     cq_data = \<lparr>d_mem = pmem_empty, d_queue = \<lparr>q_size = 1, q_ptr = None, q_head = 0, q_tail = 0, q_pending = 0,
       push_semaphore = 1, pop_semaphore = 0\<rparr>, d_pkt = (\<lambda>_. \<lparr>buf_Buffer = None, buf_Length = 0, pd_data = []\<rparr>), d_writes = []\<rparr>,
     cq_recv_pool = 0,
     cq_sends = \<lparr>sp_mem = pmem_empty, sp_pkt = (\<lambda>_. \<lparr>buf_Buffer = None, buf_Length = 0, pd_data = []\<rparr>), sp_sent = [], sp_flight = []\<rparr>,
     cq_calls = [], cq_env = (\<lambda>_. demo_ctrl_env 0), cq_tick = 0\<rparr>"

definition demo_connect :: connect_os where
  "demo_connect = \<lparr>ko_open = QUIC_STATUS_SUCCESS, ko_handle = 5, ko_local = QUIC_STATUS_SUCCESS, ko_remote = QUIC_STATUS_SUCCESS,
     ko_start = QUIC_STATUS_PENDING, ko_clock = Some clock_demo\<rparr>"

lemma demo_connect_ok: "connect_ok demo_connect"
  by (simp add: connect_ok_def demo_connect_def ss_deadline_def state_sync_timespec_add_ms_def clock_demo_def)

lemma demo_connect_alive:
  "snd (fst (MsQuicConnectionStart demo_connect [] [(0, [OnConn CC_CONNECTED])] demo_client))"
  "snd (fst (MsQuicConnectionStart demo_connect [OnConn CC_CONNECTED] [(110, [])] demo_client))"
  by (simp_all add: MsQuicConnectionStart_def demo_connect_def demo_client_def MsQuicCreate_def wait_state_def deliver_all_def
      deliver_def msquic_connect_callback_def client_upd Let_def)

theorem client_connect_race_witness:
  "snd (MsQuicConnectionStart demo_connect [] [(0, [OnConn CC_CONNECTED])] demo_client) = Ok 0 \<and>
   snd (MsQuicConnectionStart demo_connect [OnConn CC_CONNECTED] [(110, [])] demo_client) = Err ETIMEDOUT"
proof -
  obtain x where x: "cq demo_client = Some x" by (simp add: demo_client_def MsQuicCreate_def)
  obtain s1 r1 s2 r2 where
    r: "MsQuicConnectionStart demo_connect [] [(0, [OnConn CC_CONNECTED])] demo_client = ((s1, True), r1)"
       "MsQuicConnectionStart demo_connect [OnConn CC_CONNECTED] [(110, [])] demo_client = ((s2, True), r2)"
    using demo_connect_alive by (metis prod.collapse)
  show ?thesis
    using client_connect_race[OF x demo_connect_ok r(1)] client_connect_race[OF x demo_connect_ok r(2)] r by force
qed

text \<open>How often the handle of the connection has been closed, and whether it is still held.\<close>

definition closes :: "nat \<Rightarrow> quic_call list \<Rightarrow> nat" where
  "closes h calls = count_list calls (ConnectionClose (Some h))"

definition conn_inv :: "nat \<Rightarrow> nat \<Rightarrow> client_q \<Rightarrow> bool" where
  "conn_inv h n s \<longleftrightarrow> (\<exists>x. cq s = Some x \<and> x_api x \<and> (x_conn x = None \<or> x_conn x = Some h) \<and>
     closes h (cq_calls s) + (if x_conn x = Some h then 1 else 0) = n)"

lemma closes_simps [simp]:
  "closes h (xs @ ys) = closes h xs + closes h ys" "closes h [] = 0"
  "closes h (c # cs) = (if c = ConnectionClose (Some h) then 1 else 0) + closes h cs"
  by (simp_all add: closes_def)

lemma connect_callback_inv: "conn_inv h n s \<Longrightarrow> conn_inv h n (fst (msquic_connect_callback (Some h) e s))"
proof -
  assume "conn_inv h n s"
  then obtain x where x: "cq s = Some x" "x_api x" "x_conn x = None \<or> x_conn x = Some h"
    "closes h (cq_calls s) + (if x_conn x = Some h then 1 else 0) = n" by (auto simp: conn_inv_def)
  show ?thesis
  proof (cases "x_conn x")
    case None
    then show ?thesis using x by (simp add: conn_inv_def msquic_connect_callback_def)
  next
    case (Some h')
    then show ?thesis using x by (cases e) (auto simp: conn_inv_def msquic_connect_callback_def client_upd split: prod.splits)
  qed
qed

lemma stream_callback_inv: "conn_inv h n s \<Longrightarrow> conn_inv h n (fst (msquic_stream_callback hs e s))"
proof -
  assume inv: "conn_inv h n s"
  then obtain x where x: "cq s = Some x" by (auto simp: conn_inv_def)
  show ?thesis
  proof (cases e)
    case (CS_RECEIVE bufs k)
    obtain s' m st where "client_stream_receive client_handle_frame bufs k s = (s', m, st)" by (metis prod.exhaust)
    then show ?thesis using inv x CS_RECEIVE stream_receive_same[of bufs k s s' m st]
      by (simp add: conn_inv_def msquic_stream_callback_def same_conn_def)
  qed (use inv x in \<open>auto simp: conn_inv_def msquic_stream_callback_def client_upd Let_def\<close>)
qed

interpretation conn: client_invariant "conn_inv h n" h for h n
  by unfold_locales (simp_all add: connect_callback_inv stream_callback_inv)

lemmas deliver_all_inv = conn.deliver_all_keeps

text \<open>What the start function leaves.\<close>

lemma connect_start_inv:
  assumes "cq s = Some x" "x_api x" "x_conn x = None" "closes (ko_handle os) (cq_calls s) = 0"
  shows "conn_inv (ko_handle os) (if quic_failed (ko_open os) then 0 else 1) (fst (fst (MsQuicConnectionStart os before wakes s)))"
proof (cases "quic_failed (ko_open os) \<or> quic_failed (ko_local os) \<or> quic_failed (ko_remote os) \<or> quic_failed (ko_start os)")
  case True
  then show ?thesis using assms
    by (auto simp: MsQuicConnectionStart_def Let_def conn_inv_def with_ctx_def client_upd simp del: quic_failed.simps)
next
  case ok: False
  let ?h = "ko_handle os"
  define s4 where "s4 = qcall (ConnectionStart (case x_server x of None \<Rightarrow> 0 | Some a \<Rightarrow> qa_port a))
    (qcall (SetParamRemote (x_server x)) (qcall (SetParamLocal (x_local x)) (set_ctx (x\<lparr>x_conn := Some ?h\<rparr>) (qcall ConnectionOpen s))))"
  obtain s5 al where d: "deliver_all ?h 0 before (s4, True) = (s5, al)" by (metis prod.exhaust)
  have "conn_inv ?h 1 s4" using assms by (simp add: s4_def client_upd conn_inv_def)
  then have "conn_inv ?h 1 s5" using deliver_all_inv[of ?h 1 "(s4, True)" 0 before] d by simp
  then have "conn_inv ?h 1 (set_con SESSION_CONNECTING s5)" by (simp add: conn_inv_def set_con_def)
  moreover have "fst (MsQuicConnectionStart os before wakes s) =
      deliver_all ?h 0 (concat (map snd wakes)) (set_con SESSION_CONNECTING s5, al)"
    using assms(1) ok d by (simp add: MsQuicConnectionStart_def Let_def s4_def wait_state_def del: quic_failed.simps)
  ultimately show ?thesis using ok deliver_all_inv[of ?h 1 "(set_con SESSION_CONNECTING s5, al)"] by simp
qed



end
