(* ===== verification/Client_Engine.thy ===== *)
theory Client_Engine
  imports Client_Quic Engine_Base
begin

text \<open>
  The client from its start to the point where it forwards packets: \<^verbatim>\<open>domain.c\<close>,
  \<^verbatim>\<open>session.c\<close> and \<^verbatim>\<open>vpn_client_engine.c\<close> of \<^verbatim>\<open>client/src/engine\<close>.
  What the system, the resolver and the library answer, and the events the callbacks deliver
  meanwhile, are arguments.
\<close>

section \<open>Names\<close>

datatype sockaddr = SockIn in_addr u16 | SockIn6 bytes u16 | SockOther nat

text \<open>What \<^verbatim>\<open>getaddrinfo\<close> gives for a family and a name: an error, success without a
  result, or a first entry with or without an address.\<close>

datatype gai = GaiError int | GaiNull | GaiEntry "sockaddr option"

abbreviation AF_UNSPEC :: nat where "AF_UNSPEC \<equiv> 0"
abbreviation AF_INET6 :: nat where "AF_INET6 \<equiv> 10"

type_synonym resolver = "nat \<Rightarrow> string \<Rightarrow> gai"

text \<open>The functions return -1 for every failure, which is the error 1 here. An address of a family that was not asked
  for is read through the wrong structure.\<close>

definition resolve_hostname_ipv4 :: "resolver \<Rightarrow> string option \<Rightarrow> bool \<Rightarrow> in_addr cres" where
  "resolve_hostname_ipv4 getaddrinfo host out =
     (case host of None \<Rightarrow> Err 1
      | Some h \<Rightarrow> if \<not> out then Err 1
        else (case getaddrinfo AF_INET h of
                GaiEntry (Some (SockIn a p)) \<Rightarrow> Ok a | GaiEntry (Some _) \<Rightarrow> Abort | _ \<Rightarrow> Err 1))"

definition resolve_hostname_ipv6 :: "resolver \<Rightarrow> string option \<Rightarrow> bool \<Rightarrow> bytes cres" where
  "resolve_hostname_ipv6 getaddrinfo host out =
     (case host of None \<Rightarrow> Err 1
      | Some h \<Rightarrow> if \<not> out then Err 1
        else (case getaddrinfo AF_INET6 h of
                GaiEntry (Some (SockIn6 a p)) \<Rightarrow> Ok a | GaiEntry (Some _) \<Rightarrow> Abort | _ \<Rightarrow> Err 1))"

definition resolve_hostname_ipv4_str :: "resolver \<Rightarrow> string option \<Rightarrow> bool \<Rightarrow> nat \<Rightarrow> string cres" where
  "resolve_hostname_ipv4_str getaddrinfo host buf len =
     (case host of None \<Rightarrow> Err 1
      | Some h \<Rightarrow> if \<not> buf \<or> len < 16 then Err 1
        else (case getaddrinfo AF_INET h of
                GaiEntry (Some (SockIn a p)) \<Rightarrow> (case inet_ntop a len of Ok str \<Rightarrow> Ok str | _ \<Rightarrow> Err 1)
              | GaiEntry (Some _) \<Rightarrow> Abort | _ \<Rightarrow> Err 1))"

definition resolve_hostname_ipv6_str ::
  "(bytes \<Rightarrow> nat \<Rightarrow> string option) \<Rightarrow> resolver \<Rightarrow> string option \<Rightarrow> bool \<Rightarrow> nat \<Rightarrow> string cres" where
  "resolve_hostname_ipv6_str ntop6 getaddrinfo host buf len =
     (case host of None \<Rightarrow> Err 1
      | Some h \<Rightarrow> if \<not> buf \<or> len < 46 then Err 1
        else (case getaddrinfo AF_INET6 h of
                GaiEntry (Some (SockIn6 a p)) \<Rightarrow> (case ntop6 a len of Some str \<Rightarrow> Ok str | None \<Rightarrow> Err 1)
              | GaiEntry (Some _) \<Rightarrow> Abort | _ \<Rightarrow> Err 1))"

definition resolve_hostname :: "resolver \<Rightarrow> string option \<Rightarrow> bool \<Rightarrow> sockaddr cres" where
  "resolve_hostname getaddrinfo host out =
     (case host of None \<Rightarrow> Err 1
      | Some h \<Rightarrow> if \<not> out then Err 1
        else (case getaddrinfo AF_UNSPEC h of
                GaiEntry (Some (SockIn a p)) \<Rightarrow> Ok (SockIn a p)
              | GaiEntry (Some (SockIn6 a p)) \<Rightarrow> Ok (SockIn6 a p)
              | _ \<Rightarrow> Err 1))"

text \<open>The text of an IPv6 address is the system's.\<close>

definition sockaddr_to_str :: "(bytes \<Rightarrow> nat \<Rightarrow> string option) \<Rightarrow> sockaddr option \<Rightarrow> bool \<Rightarrow> nat \<Rightarrow> string cres" where
  "sockaddr_to_str ntop6 addr buf len =
     (case addr of None \<Rightarrow> Err 1
      | Some sa \<Rightarrow> if \<not> buf \<or> len < 46 then Err 1
        else (case sa of
                SockIn a p \<Rightarrow> (case inet_ntop a len of Ok str \<Rightarrow> Ok str | _ \<Rightarrow> Err 1)
              | SockIn6 a p \<Rightarrow> (case ntop6 a len of Some str \<Rightarrow> Ok str | None \<Rightarrow> Err 1)
              | SockOther f \<Rightarrow> Err 1))"

section \<open>The session\<close>

record vpn_config_t =
  server_hostname :: string
  server_port :: u16

record csession_env =
  xs_malloc :: bool
  xs_resolve :: resolver
  xs_sync1 :: state_sync_init_os
  xs_sync2 :: state_sync_init_os
  xs_sync3 :: state_sync_init_os
  xs_pool1 :: pool_env
  xs_pool2 :: pool_env
  xs_queue :: queue_init_os
  xs_pkt :: "nat \<Rightarrow> pkt_data_t"

abbreviation CLIENT_QUEUE :: nat where "CLIENT_QUEUE \<equiv> 64 * 1024 * 1024"

record cengine =
  en_q :: client_q
  en_wan :: "net_iface_t option"
  en_send_pool :: nat
  en_sending :: bool
  en_send_thread :: bool
  en_receiving :: bool
  en_recv_thread :: bool

definition init_state :: "state_sync_init_os \<Rightarrow> int \<Rightarrow> state_sync_t option" where
  "init_state os v = (case state_sync_init os (Some \<lparr>ss_state = 0\<rparr>) v of (st, rc) \<Rightarrow> if rc \<noteq> 0 then None else st)"

text \<open>The fields of a session when everything it needs is there. The two pools have memories of their own.\<close>

definition fresh_session ::
  "csession_env \<Rightarrow> vpn_config_t \<Rightarrow> (nat \<Rightarrow> ctrl_env) \<Rightarrow> string \<Rightarrow> state_sync_t \<times> state_sync_t \<times> state_sync_t
   \<Rightarrow> pmem \<times> nat \<Rightarrow> pmem \<times> nat \<Rightarrow> nat queue_t \<Rightarrow> cengine" where
  "fresh_session env config cenv addr_str sts sp rp q =
     (case sts of (st, con, str) \<Rightarrow>
      \<lparr>en_q =
         \<lparr>cq = None,
          cq_ctrl = \<lparr>cs_tun = None, cs_tun_state = st, cs_wan_ifname = [], cs_server_ip = snprintf_trunc 16 addr_str,
            cs_server_port = server_port config, cs_reqs = []\<rparr>,
          cq_con = con, cq_str = str,
          cq_data = \<lparr>d_mem = fst rp, d_queue = q, d_pkt = xs_pkt env, d_writes = []\<rparr>, cq_recv_pool = snd rp,
          cq_sends = \<lparr>sp_mem = fst sp, sp_pkt = xs_pkt env, sp_sent = [], sp_flight = []\<rparr>,
          cq_calls = [], cq_env = cenv, cq_tick = 0\<rparr>,
       en_wan = None, en_send_pool = snd sp, en_sending = False, en_send_thread = False, en_receiving = False,
       en_recv_thread = False\<rparr>)"

text \<open>The states in turn, then the pools and the queue; the first failure ends it. What the label
  \<^verbatim>\<open>err\<close> destroys was never handed out.\<close>

definition session_create :: "csession_env \<Rightarrow> vpn_config_t \<Rightarrow> pmem \<Rightarrow> pmem \<Rightarrow> (nat \<Rightarrow> ctrl_env) \<Rightarrow> cengine option cres" where
  "session_create env config ms mr cenv =
     (if \<not> xs_malloc env then Ok None
      else case resolve_hostname_ipv4_str (xs_resolve env) (Some (server_hostname config)) True 16 of
        Err _ \<Rightarrow> Ok None
      | Ok addr_str \<Rightarrow>
        (case (init_state (xs_sync1 env) TUN_CLOSED, init_state (xs_sync2 env) SESSION_DISCONNECTED, init_state (xs_sync3 env) STREAM_CLOSED) of
           (Some st, Some con, Some str) \<Rightarrow>
             (case make_pool (xs_pool1 env) SIZEOF_PKT_DATA 0 ms of
                (ms1, Ok p1) \<Rightarrow>
                  (case make_pool (xs_pool2 env) SIZEOF_PKT_DATA 0 mr of
                     (mr1, Ok p2) \<Rightarrow>
                       (case queue_init (xs_queue env) CLIENT_QUEUE of
                          Ok q \<Rightarrow> Ok (Some (fresh_session env config cenv addr_str (st, con, str) (ms1, p1) (mr1, p2) q))
                        | Err _ \<Rightarrow> Ok None
                        | _ \<Rightarrow> Abort)
                   | (mr1, Err _) \<Rightarrow> Ok None
                   | _ \<Rightarrow> Abort)
              | (ms1, Err _) \<Rightarrow> Ok None
              | _ \<Rightarrow> Abort)
         | _ \<Rightarrow> Ok None)
      | _ \<Rightarrow> Abort)"

section \<open>The transport\<close>

record csetup_env =
  xq_calloc :: bool
  xq_register :: "quic_status \<times> quic_status"
  xq_parse :: "string \<Rightarrow> u16 \<Rightarrow> quic_addr option"
  xq_params :: quic_status
  xq_cred :: quic_status
  xq_connect :: connect_os
  xq_before1 :: "client_event list"
  xq_wakes1 :: "(int \<times> client_event list) list"
  xq_stream :: stream_os
  xq_before2 :: "client_event list"
  xq_wakes2 :: "(int \<times> client_event list) list"

definition put_ctx :: "client_q \<Rightarrow> ctx_out \<Rightarrow> client_q \<times> int" where
  "put_ctx s out = (case out of (x, calls, rc) \<Rightarrow> (s\<lparr>cq := Some x, cq_calls := cq_calls s @ calls\<rparr>, rc))"

text \<open>The configuration functions up to the credentials, in order, each checked.\<close>

definition configure_msquic :: "csetup_env \<Rightarrow> string \<Rightarrow> quic_ctx \<Rightarrow> client_q \<Rightarrow> client_q \<times> int" where
  "configure_msquic env wan_ip x0 s0 =
     (case put_ctx s0 (MsQuicRegister (fst (xq_register env)) (snd (xq_register env)) x0 (Some ''msquic client app name'')) of (s1, r1) \<Rightarrow>
      if r1 \<noteq> 0 then (s1, - 1)
      else case put_ctx s1 (MsQuicConfigAddr (xq_parse env) (the (cq s1)) (Some wan_ip) (Some (cs_server_ip (cq_ctrl s1)))
                              (cs_server_port (cq_ctrl s1))) of (s2, r2) \<Rightarrow>
      if r2 \<noteq> 0 then (s2, - 1)
      else case put_ctx s2 (client_MsQuicConfigParameters (xq_params env) (the (cq s2)) (Some ''h3'')) of (s3, r3) \<Rightarrow>
      if r3 \<noteq> 0 then (s3, - 1)
      else case put_ctx s3 (client_MsQuicConfigCredentials (xq_cred env) (the (cq s3))) of (s4, r4) \<Rightarrow>
      if r4 \<noteq> 0 then (s4, - 1) else (s4, 0))"

text \<open>\<^verbatim>\<open>setup_msquic\<close>; the flag says that no assertion has failed.\<close>

definition client_setup_msquic :: "csetup_env \<Rightarrow> string \<Rightarrow> client_q \<Rightarrow> (client_q \<times> bool) \<times> int cres" where
  "client_setup_msquic env wan_ip s =
     (case MsQuicCreate (xq_calloc env) of None \<Rightarrow> ((s, True), Ok (- 1))
      | Some x0 \<Rightarrow>
     (case configure_msquic env wan_ip x0 (s\<lparr>cq := Some x0\<rparr>) of (s4, r4) \<Rightarrow>
        if r4 \<noteq> 0 then ((s4, True), Ok (- 1))
        else (case MsQuicConnectionStart (xq_connect env) (xq_before1 env) (xq_wakes1 env) s4 of
          ((s5, al5), Ok _) \<Rightarrow>
            (case MsQuicStreamStart (xq_stream env) (ko_handle (xq_connect env)) (xq_before2 env) (xq_wakes2 env) s5 of
               ((s6, al6), Ok _) \<Rightarrow> ((s6, al5 \<and> al6), Ok 0)
             | ((s6, al6), Block) \<Rightarrow> ((s6, al6), Block)
             | ((s6, al6), Abort) \<Rightarrow> ((s6, al6), Abort)
             | (r, Err _) \<Rightarrow> (r, Ok (- 1)))
        | (r, Block) \<Rightarrow> (r, Block)
        | (r, Abort) \<Rightarrow> (r, Abort)
        | (r, Err _) \<Rightarrow> (r, Ok (- 1)))))"

section \<open>The request\<close>

text \<open>The events delivered until the wait for the tunnel returns.\<close>

definition tun_state_of :: "client_q \<Rightarrow> state_sync_t" where
  "tun_state_of s = cs_tun_state (cq_ctrl s)"

fun wait_events :: "int \<Rightarrow> nat \<Rightarrow> nat \<Rightarrow> (int \<times> client_event list) list \<Rightarrow> client_q \<times> bool \<Rightarrow> client_q \<times> bool" where
  "wait_events target hc hs [] r = r"
| "wait_events target hc hs ((rc, evs) # ws) r =
     (if ss_state (tun_state_of (fst r)) = target then r
      else let r' = deliver_all hc hs evs r in if rc \<noteq> 0 then r' else wait_events target hc hs ws r')"

record creq_env =
  xr_calloc :: bool
  xr_malloc :: bool
  xr_malloc_buf :: bool
  xr_send :: quic_status
  xr_clock :: "timespec option"
  xr_wakes :: "(int \<times> client_event list) list"

definition request_virtip :: "creq_env \<Rightarrow> nat \<Rightarrow> nat \<Rightarrow> client_q \<Rightarrow> (client_q \<times> bool) \<times> int cres" where
  "request_virtip env hc hs s =
     (let pkt = pkt_ctrl_create_config_req (xr_calloc env) 0 2 (Some ''quic vpn client'') in
      case MsQuicStreamSend (xr_malloc env) (xr_malloc_buf env) (xr_send env) (map_option pkt_bytes pkt) s of
        (s1, Ok rc) \<Rightarrow>
          if rc \<noteq> 0 then ((s1, True), Ok (- 1))
          else (wait_events TUN_READY hc hs (xr_wakes env) (s1, True),
                case state_sync_wait_ms mutex_ok (xr_clock env) (wake_states tun_state_of hc hs (xr_wakes env) (s1, True))
                       (Some (tun_state_of s1)) TUN_READY 5000 of
                  Ok _ \<Rightarrow> Ok 0 | Block \<Rightarrow> Block | Abort \<Rightarrow> Abort | Err _ \<Rightarrow> Ok (- 1))
      | (s1, _) \<Rightarrow> ((s1, False), Abort))"

section \<open>Threads\<close>

definition client_start_threads :: "bool \<Rightarrow> bool \<Rightarrow> cengine \<Rightarrow> cengine \<times> int" where
  "client_start_threads create_send create_recv e =
     (let e1 = e\<lparr>en_sending := True\<rparr> in
      if \<not> create_send then (e1, - 1)
      else let e2 = e1\<lparr>en_send_thread := True, en_receiving := True\<rparr> in
        if \<not> create_recv then (e2, - 1) else (e2\<lparr>en_recv_thread := True\<rparr>, 0))"

section \<open>Start and cleanup\<close>

record cboot_env =
  xe_session :: csession_env
  xe_wan :: wan_env
  xe_setup :: csetup_env
  xe_req :: creq_env
  xe_threads :: "bool \<times> bool"
  xe_stop :: "client_q stop_env"
  xe_sys :: "nat \<Rightarrow> sys"
  xe_info :: "nat \<Rightarrow> sys_info"

definition client_cleanup_steps :: "cboot_env \<Rightarrow> tun_step list" where
  "client_cleanup_steps env =
     (let sys = xe_sys env; info = xe_info env in
      [(False, tun_flush_routes (sys 0)), (False, tun_clear_dns (sys 1)), (False, tun_rules_clear (sys 2)),
       (False, tun_destroy (sys 3) (info 3))])"

definition client_stop_threads :: "client_q stop_env \<Rightarrow> cengine \<Rightarrow> cengine cres" where
  "client_stop_threads env e =
     cbind (if en_sending e
            then cbind (join_thread (st_send_join env) (en_send_thread e) (en_q e)) (\<lambda>s. Ok (e\<lparr>en_sending := False, en_q := s\<rparr>))
            else Ok e) (\<lambda>e1.
      if en_receiving e1
      then cbind (push_sentinel (d_queue (cq_data (en_q e1)))) (\<lambda>q.
           cbind (join_thread (st_recv_join env) (en_recv_thread e1) ((en_q e1)\<lparr>cq_data := (cq_data (en_q e1))\<lparr>d_queue := q\<rparr>\<rparr>)) (\<lambda>s.
             Ok (e1\<lparr>en_receiving := False, en_q := s\<rparr>)))
      else Ok e1)"

text \<open>The device, with its state, and then the transport.\<close>

definition remove_tun :: "cboot_env \<Rightarrow> client_q \<Rightarrow> client_q" where
  "remove_tun env s =
     (case cs_tun (cq_ctrl s) of None \<Rightarrow> s
      | Some tun \<Rightarrow>
        (case run_steps (client_cleanup_steps env) (Some tun) of (tp, reqs, _) \<Rightarrow>
           s\<lparr>cq_ctrl := (cq_ctrl s)\<lparr>cs_tun := None, cs_tun_state := destroy_sync (cs_tun_state (cq_ctrl s)),
               cs_reqs := cs_reqs (cq_ctrl s) @ reqs\<rparr>\<rparr>))"

definition remove_msquic :: "client_q \<Rightarrow> client_q" where
  "remove_msquic s =
     (case cq s of None \<Rightarrow> s | Some x \<Rightarrow> s\<lparr>cq := None, cq_calls := cq_calls s @ client_MsQuicShutdown x\<rparr>)"

definition client_vpn_engine_cleanup :: "cboot_env \<Rightarrow> cengine \<Rightarrow> cengine cres" where
  "client_vpn_engine_cleanup env e =
     cbind (client_stop_threads (xe_stop env) e) (\<lambda>e1.
      let s = remove_msquic (remove_tun env (en_q e1));
          s1 = s\<lparr>cq_con := destroy_sync (cq_con s), cq_str := destroy_sync (cq_str s)\<rparr>
      in cbind (destroy_pool (Some (en_send_pool e1)) (sp_mem (cq_sends s1))) (\<lambda>ms.
         cbind (destroy_pool (Some (cq_recv_pool s1)) (d_mem (cq_data s1))) (\<lambda>mr.
         cbind (destroy_queue (d_queue (cq_data s1))) (\<lambda>_.
         Ok (e1\<lparr>en_wan := None, en_q := s1\<lparr>cq_sends := (cq_sends s1)\<lparr>sp_mem := ms\<rparr>, cq_data := (cq_data s1)\<lparr>d_mem := mr\<rparr>\<rparr>\<rparr>)))))"

text \<open>How \<^verbatim>\<open>vpn_engine_start\<close> ends: with a session, with null after the cleanup, not at all, or
  at a failed assertion or an undefined operation.\<close>

datatype cboot_result = Started cengine | Failed "cengine option" | StillWaiting | AssertFailed

definition engine_error :: "cboot_env \<Rightarrow> cengine option \<Rightarrow> cboot_result" where
  "engine_error env sp =
     (case sp of None \<Rightarrow> Failed None
      | Some e \<Rightarrow> (case client_vpn_engine_cleanup env e of
          Ok e' \<Rightarrow> Failed (Some e') | Block \<Rightarrow> StillWaiting | _ \<Rightarrow> AssertFailed))"

definition vpn_engine_start :: "cboot_env \<Rightarrow> vpn_config_t \<Rightarrow> pmem \<Rightarrow> pmem \<Rightarrow> (nat \<Rightarrow> ctrl_env) \<Rightarrow> cboot_result" where
  "vpn_engine_start env config ms mr cenv =
     (case session_create (xe_session env) config ms mr cenv of
        Ok None \<Rightarrow> engine_error env None
      | Ok (Some e0) \<Rightarrow>
        (case detect_default_wan (xe_wan env) of
           Block \<Rightarrow> StillWaiting
         | Ok wan \<Rightarrow>
           let s0 = en_q e0; s1 = s0\<lparr>cq_ctrl := (cq_ctrl s0)\<lparr>cs_wan_ifname := wi_ifname wan\<rparr>\<rparr>; e1 = e0\<lparr>en_wan := Some wan\<rparr> in
           (case client_setup_msquic (xe_setup env) (wi_ip_str wan) s1 of
              ((s2, al2), Ok rc2) \<Rightarrow>
                if \<not> al2 then AssertFailed
                else if rc2 \<noteq> 0 then engine_error env (Some (e1\<lparr>en_q := s2\<rparr>))
                else (case request_virtip (xe_req env) (ko_handle (xq_connect (xe_setup env))) (to_handle (xq_stream (xe_setup env))) s2 of
                   ((s3, al3), Ok rc3) \<Rightarrow>
                     if \<not> al3 then AssertFailed
                     else if rc3 \<noteq> 0 then engine_error env (Some (e1\<lparr>en_q := s3\<rparr>))
                     else (case client_start_threads (fst (xe_threads env)) (snd (xe_threads env)) (e1\<lparr>en_q := s3\<rparr>) of (e3, rc) \<Rightarrow>
                       if rc \<noteq> 0 then engine_error env (Some e3) else Started e3)
                 | (r, Block) \<Rightarrow> StillWaiting
                 | _ \<Rightarrow> AssertFailed)
            | (r, Block) \<Rightarrow> StillWaiting
            | _ \<Rightarrow> AssertFailed)
         | _ \<Rightarrow> engine_error env (Some e0))
      | _ \<Rightarrow> AssertFailed)"

section \<open>The device is ready when the state says so\<close>

definition usable_tun :: "tun_iface \<Rightarrow> bool" where
  "usable_tun tun \<longleftrightarrow> tun_start (Some tun) = 0 \<and> validate_mask (t_mask tun) \<and> 256 \<le> t_mtu tun \<and> t_mtu tun \<le> 1380"

definition ready_inv :: "client_q \<Rightarrow> bool" where
  "ready_inv s \<longleftrightarrow> (ss_state (cs_tun_state (cq_ctrl s)) = TUN_READY \<longrightarrow> (\<exists>tun. cs_tun (cq_ctrl s) = Some tun \<and> usable_tun tun))"

lemma handle_frame_ready: "ready_inv s \<Longrightarrow> ready_inv (fst (client_handle_frame p s))"
proof (cases "frame_ok (host_order p) \<and> h_type (hdr (host_order p)) = VPN_MSG_TYPE_CONFIG_RESP")
  case False
  then show "ready_inv s \<Longrightarrow> ?thesis"
    by (auto simp: ready_inv_def client_handle_frame_def client_process_ctrl_pkt_def Let_def)
next
  case True
  let ?env = "cq_env s (cq_tick s)"
  show ?thesis
    by (rule process_config[of p ?env "cq_ctrl s"])
      (use True in \<open>auto simp: ready_inv_def client_handle_frame_def usable_tun_def cfg_def cfg_of_def acceptable_def\<close>)
qed

lemma ready_upd:
  "ready_inv s \<Longrightarrow> ready_inv (s\<lparr>cq := c\<rparr>)" "ready_inv s \<Longrightarrow> ready_inv (qcall k s)"
  "ready_inv s \<Longrightarrow> ready_inv (set_con v s)" "ready_inv s \<Longrightarrow> ready_inv (set_str v s)"
  "ready_inv s \<Longrightarrow> ready_inv (set_ctx x s)" "ready_inv s \<Longrightarrow> ready_inv (s\<lparr>cq_calls := ks\<rparr>)"
  "ready_inv s \<Longrightarrow> ready_inv (s\<lparr>cq_data := d\<rparr>)" "ready_inv s \<Longrightarrow> ready_inv (s\<lparr>cq_sends := sp\<rparr>)"
  by (simp_all add: ready_inv_def client_upd)

lemma connect_callback_ready: "ready_inv s \<Longrightarrow> ready_inv (fst (msquic_connect_callback h e s))"
  using ready_upd by (cases e) (auto simp: msquic_connect_callback_def Let_def split: option.split prod.split)

lemma stream_callback_ready: "ready_inv s \<Longrightarrow> ready_inv (fst (msquic_stream_callback h e s))"
proof (cases e)
  case (CS_RECEIVE bufs n)
  then show "ready_inv s \<Longrightarrow> ?thesis"
    using client_stream_receive_keeps[of ready_inv client_handle_frame s bufs n] handle_frame_ready
    by (auto simp: msquic_stream_callback_def split: option.split prod.split)
qed (use ready_upd in \<open>auto simp: msquic_stream_callback_def Let_def split: option.split\<close>)

interpretation ready: client_session_invariant ready_inv hc for hc
  by unfold_locales (auto intro: connect_callback_ready stream_callback_ready ready_upd)

section \<open>Calls\<close>

fun is_send :: "quic_call \<Rightarrow> bool" where
  "is_send (StreamSend h bs) = True"
| "is_send _ = False"

text \<open>What has been sent on the stream, and that the connection has been asked for.\<close>

definition calls_inv :: "quic_call list \<Rightarrow> client_q \<Rightarrow> bool" where
  "calls_inv sent s \<longleftrightarrow> filter is_send (cq_calls s) = sent \<and> ConnectionOpen \<in> set (cq_calls s)"

lemma calls_upd:
  "calls_inv sent s \<Longrightarrow> calls_inv sent (s\<lparr>cq := c\<rparr>)" "calls_inv sent s \<Longrightarrow> \<not> is_send k \<Longrightarrow> calls_inv sent (qcall k s)"
  "calls_inv sent s \<Longrightarrow> calls_inv sent (set_con v s)" "calls_inv sent s \<Longrightarrow> calls_inv sent (set_str v s)"
  "calls_inv sent s \<Longrightarrow> calls_inv sent (set_ctx x s)" "calls_inv sent s \<Longrightarrow> calls_inv sent (with_ctx f s)"
  "calls_inv sent s \<Longrightarrow> calls_inv sent (s\<lparr>cq_data := d\<rparr>)" "calls_inv sent s \<Longrightarrow> calls_inv sent (s\<lparr>cq_sends := sp\<rparr>)"
  by (simp_all add: calls_inv_def client_upd with_ctx_def split: option.split)

lemma connect_callback_calls: "calls_inv sent s \<Longrightarrow> calls_inv sent (fst (msquic_connect_callback h e s))"
  using calls_upd by (cases e) (auto simp: msquic_connect_callback_def Let_def split: option.split prod.split)

lemma stream_callback_calls: "calls_inv sent s \<Longrightarrow> calls_inv sent (fst (msquic_stream_callback h e s))"
proof (cases e)
  case (CS_RECEIVE bufs n)
  then show "calls_inv sent s \<Longrightarrow> ?thesis"
    by (auto simp: msquic_stream_callback_def calls_inv_def same_conn_def split: option.split prod.split dest!: stream_receive_same)
qed (use calls_upd in \<open>auto simp: msquic_stream_callback_def Let_def split: option.split\<close>)

interpretation calls: client_invariant "calls_inv sent" hc for sent hc
  by unfold_locales (auto intro: connect_callback_calls stream_callback_calls)

text \<open>Both together with the invariant of the connection.\<close>

definition run_inv :: "nat \<Rightarrow> nat \<Rightarrow> quic_call list \<Rightarrow> client_q \<Rightarrow> bool" where
  "run_inv h n sent s \<longleftrightarrow> ready_inv s \<and> conn_inv h n s \<and> calls_inv sent s"

interpretation run: client_invariant "run_inv h n sent" h for h n sent
  by unfold_locales (auto simp: run_inv_def intro: ready.on_conn ready.on_stream conn.on_conn conn.on_stream calls.on_conn calls.on_stream)

section \<open>The stages of a start\<close>

text \<open>Until the connection is asked for there is no handle, and no call that a later one answers to.\<close>

definition plain :: "quic_call \<Rightarrow> bool" where
  "plain c \<longleftrightarrow> \<not> is_send c \<and> c \<noteq> ConnectionOpen \<and> (\<forall>h. c \<noteq> ConnectionClose h)"

definition idle_inv :: "client_q \<Rightarrow> bool" where
  "idle_inv s \<longleftrightarrow> list_all plain (cq_calls s) \<and> (\<forall>x. cq s = Some x \<longrightarrow> x_conn x = None)"

lemma plain_calls:
  assumes "list_all plain calls"
  shows "filter is_send calls = []" "closes h calls = 0" "ConnectionOpen \<notin> set calls"
  using assms by (induction calls) (auto simp: plain_def)

lemma configure_stage:
  assumes "configure_msquic env ip x0 s0 = (s', rc)" "cq s0 = Some x0" "x_conn x0 = None" "idle_inv s0" "ready_inv s0"
  shows "idle_inv s' \<and> ready_inv s' \<and> (\<exists>x. cq s' = Some x \<and> x_conn x = None \<and> (rc = 0 \<longrightarrow> x_api x))"
  using assms
  by (auto simp: configure_msquic_def put_ctx_def MsQuicRegister_def MsQuicConfigAddr_def client_MsQuicConfigParameters_def
      client_MsQuicConfigCredentials_def Let_def idle_inv_def ready_inv_def plain_def
      simp del: quic_failed.simps split: if_splits prod.splits option.splits)

lemma connection_stage:
  assumes "idle_inv s" "ready_inv s" "cq s = Some x" "x_api x" "x_conn x = None"
  shows "run_inv (ko_handle os) (if quic_failed (ko_open os) then 0 else 1) [] (fst (fst (MsQuicConnectionStart os before wakes s)))"
proof -
  let ?h = "ko_handle os"
  note p = plain_calls[of "cq_calls s"]
  have pl: "list_all plain (cq_calls s)" using assms(1) by (simp add: idle_inv_def)
  have "calls_inv [] (fst (fst (MsQuicConnectionStart os before wakes s)))"
  proof -
    let ?s1 = "qcall ConnectionOpen s"
    let ?s4 = "qcall (ConnectionStart (case x_server x of None \<Rightarrow> 0 | Some a \<Rightarrow> qa_port a))
      (qcall (SetParamRemote (x_server x)) (qcall (SetParamLocal (x_local x)) (set_ctx (x\<lparr>x_conn := Some ?h\<rparr>) ?s1)))"
    have s1: "calls_inv [] ?s1" using p(1)[OF pl] by (simp add: calls_inv_def qcall_def)
    obtain s5 al where d: "deliver_all ?h 0 before (?s4, True) = (s5, al)" by (metis prod.exhaust)
    have "calls_inv [] s5" using calls.deliver_all_keeps[of "[]" "(?s4, True)" ?h 0 before] d s1 calls_upd by simp
    then have "calls_inv [] (fst (fst (wait_state (ko_clock os) cq_con SESSION_CONNECTED SESSION_DISCONNECTED ?h 0 wakes (set_con SESSION_CONNECTING s5, al))))"
      using calls.wait_state_keeps calls_upd by simp
    then show ?thesis using assms(3) d s1 calls_upd by (simp add: MsQuicConnectionStart_def Let_def del: quic_failed.simps)
  qed
  then show ?thesis
    using connect_start_inv[OF assms(3-5), of os before wakes] p(2)[OF pl] ready.connection_start_keeps[OF assms(2)]
    by (simp add: run_inv_def del: quic_failed.simps)
qed

lemma run_upd:
  assumes "run_inv h n sent s"
  shows "plain k \<Longrightarrow> run_inv h n sent (qcall k s)" "run_inv h n sent (set_str v s)"
    "run_inv h n sent (with_ctx (x_stream_update f) s)" "cq s = Some x \<Longrightarrow> run_inv h n sent (set_ctx (x\<lparr>x_stream := g\<rparr>) s)"
    "run_inv h n (sent @ [StreamSend g bs]) (qcall (StreamSend g bs) s)"
  using assms by (auto simp: run_inv_def ready_inv_def conn_inv_def calls_inv_def plain_def client_upd with_ctx_def split: option.split)

lemma stream_stage:
  assumes "run_inv h n sent s"
  shows "run_inv h n sent (fst (fst (MsQuicStreamStart os h before wakes s)))"
proof (cases "cq s")
  case None
  then show ?thesis using assms by (simp add: MsQuicStreamStart_def)
next
  case (Some x)
  let ?h = "to_handle os"
  let ?s1 = "qcall (StreamOpen (x_conn x)) s"
  let ?s2 = "qcall (StreamStart (Some ?h)) (set_ctx (x\<lparr>x_stream := Some ?h\<rparr>) ?s1)"
  have pl: "plain (StreamOpen g)" "plain (StreamStart g)" "plain (StreamClose g)" for g by (simp_all add: plain_def)
  have s1: "run_inv h n sent ?s1" "cq ?s1 = Some x" using run_upd(1)[OF assms pl(1)] Some by (simp_all add: qcall_def)
  have s2: "run_inv h n sent ?s2" using run_upd(1)[OF run_upd(4)[OF s1] pl(2)] .
  obtain s3 al where d: "deliver_all h ?h before (?s2, True) = (s3, al)" by (metis prod.exhaust)
  have "run_inv h n sent s3" using run.deliver_all_keeps[of h n sent "(?s2, True)" ?h before] d s2 by simp
  then have "run_inv h n sent (fst (fst (wait_state (to_clock os) cq_str STREAM_OPEN STREAM_CLOSED h ?h wakes (set_str STREAM_OPENING s3, al))))"
    using run.wait_state_keeps run_upd(2) by simp
  moreover have "run_inv h n sent (set_str STREAM_CLOSED (with_ctx (x_stream_update (\<lambda>_. None)) (qcall (StreamClose (Some ?h)) ?s2)))"
    using run_upd(2)[OF run_upd(3)[OF run_upd(1)[OF s2 pl(3)]]] .
  ultimately show ?thesis using Some assms d s1(1) run_upd(2)
    by (simp add: MsQuicStreamStart_def Let_def del: quic_failed.simps)
qed

text \<open>How many handles a start has to close.\<close>

definition handles :: "csetup_env \<Rightarrow> nat" where
  "handles env = (if quic_failed (ko_open (xq_connect env)) then 0 else 1)"

lemma setup_stage:
  assumes "client_setup_msquic env ip s = ((s', al), r)" "idle_inv s" "ready_inv s"
  shows "ready_inv s' \<and> (idle_inv s' \<and> r \<noteq> Ok 0 \<or> run_inv (ko_handle (xq_connect env)) (handles env) [] s')"
proof (cases "MsQuicCreate (xq_calloc env)")
  case None
  then show ?thesis using assms by (auto simp: client_setup_msquic_def)
next
  case (Some x0)
  let ?h = "ko_handle (xq_connect env)" and ?n = "handles env"
  have x0: "x_conn x0 = None" using Some by (auto simp: MsQuicCreate_def split: if_splits)
  obtain s4 r4 where c: "configure_msquic env ip x0 (s\<lparr>cq := Some x0\<rparr>) = (s4, r4)" by (metis prod.exhaust)
  have s4: "idle_inv s4" "ready_inv s4" "\<exists>x. cq s4 = Some x \<and> x_conn x = None \<and> (r4 = 0 \<longrightarrow> x_api x)"
    using configure_stage[OF c] x0 assms(2,3) ready_upd(1) by (auto simp: idle_inv_def)
  obtain s5 al5 r5 where k: "MsQuicConnectionStart (xq_connect env) (xq_before1 env) (xq_wakes1 env) s4 = ((s5, al5), r5)"
    by (metis prod.exhaust)
  obtain s6 al6 r6 where t: "MsQuicStreamStart (xq_stream env) ?h (xq_before2 env) (xq_wakes2 env) s5 = ((s6, al6), r6)"
    by (metis prod.exhaust)
  show ?thesis
  proof (cases "r4 = 0")
    case False
    then show ?thesis using assms(1) Some c s4 by (auto simp: client_setup_msquic_def)
  next
    case True
    then obtain x where "cq s4 = Some x" "x_api x" "x_conn x = None" using s4(3) by auto
    then have 5: "run_inv ?h ?n [] s5"
      using connection_stage[OF s4(1,2), of x "xq_connect env" "xq_before1 env" "xq_wakes1 env"] k
      unfolding handles_def by (simp del: quic_failed.simps)
    then have "run_inv ?h ?n [] s6" using stream_stage[OF 5, of "xq_stream env" "xq_before2 env" "xq_wakes2 env"] t by simp
    then have "run_inv ?h ?n [] s'"
      using assms(1) Some c True k t 5 by (auto simp: client_setup_msquic_def split: cres.splits)
    then show ?thesis by (simp add: run_inv_def)
  qed
qed

lemma wait_events_keeps: "run_inv h n sent (fst r) \<Longrightarrow> run_inv h n sent (fst (wait_events target h hs ws r))"
  by (induction target h hs ws r rule: wait_events.induct) (auto simp: Let_def run.deliver_all_keeps)

lemma wait_events_target:
  "timed_wait_loop target mutex_ok (wake_states tun_state_of hc hs ws r) (ss_state (tun_state_of (fst r))) = Ok v \<Longrightarrow>
   ss_state (tun_state_of (fst (wait_events target hc hs ws r))) = target"
proof (induction ws arbitrary: r)
  case Nil
  then show ?case by (simp add: timed_wait_loop.simps split: if_splits)
next
  case (Cons w ws)
  obtain rc evs where w: "w = (rc, evs)" by (cases w)
  obtain s' al where d: "deliver_all hc hs evs r = (s', al)" by (metis prod.exhaust)
  show ?case using Cons w d
    by (subst (asm) (2) timed_wait_loop.simps) (auto simp: Let_def mutex_ok_def split: if_splits)
qed

lemma request_stage:
  assumes "request_virtip env h hs s = ((s', al), r)" "run_inv h n [] s"
  shows "\<exists>sent. run_inv h n sent s' \<and> (r = Ok 0 \<longrightarrow> ss_state (tun_state_of s') = TUN_READY \<and>
    (\<exists>g req. sent = [StreamSend g (pkt_bytes req)] \<and> pkt_ctrl_create_config_req True 0 2 (Some ''quic vpn client'') = Some req))"
proof -
  let ?pkt = "pkt_ctrl_create_config_req (xr_calloc env) 0 2 (Some ''quic vpn client'')"
  obtain s1 rs where st: "MsQuicStreamSend (xr_malloc env) (xr_malloc_buf env) (xr_send env) (map_option pkt_bytes ?pkt) s = (s1, rs)"
    by (metis prod.exhaust)
  have pl: "plain (StreamShutdown g f)" for g f by (simp add: plain_def)
  have 1: "\<exists>sent. run_inv h n sent s1 \<and> (rs = Ok 0 \<longrightarrow> (\<exists>g req. sent = [StreamSend g (pkt_bytes req)] \<and> ?pkt = Some req))"
    using st run_upd(1)[OF assms(2) pl] run_upd(5)[OF assms(2)] run_upd(1)[OF run_upd(5)[OF assms(2)] pl] assms(2)
    by (fastforce simp: MsQuicStreamSend_def Let_def simp del: quic_failed.simps split: option.splits if_splits)
  then obtain sent where 2: "run_inv h n sent s1" "rs = Ok 0 \<longrightarrow> (\<exists>g req. sent = [StreamSend g (pkt_bytes req)] \<and> ?pkt = Some req)" by blast
  have 3: "run_inv h n sent (fst (wait_events TUN_READY h hs (xr_wakes env) (s1, True)))" using wait_events_keeps[of h n sent "(s1, True)"] 2 by simp
  have "?pkt = Some req \<Longrightarrow> pkt_ctrl_create_config_req True 0 2 (Some ''quic vpn client'') = Some req" for req
    by (cases "xr_calloc env") (simp_all add: pkt_ctrl_create_config_req_def)
  moreover have "ss_state (tun_state_of (fst (wait_events TUN_READY h hs (xr_wakes env) (s1, True)))) = TUN_READY"
    if "state_sync_wait_ms mutex_ok (xr_clock env) (wake_states tun_state_of h hs (xr_wakes env) (s1, True))
                       (Some (tun_state_of s1)) TUN_READY 5000 = Ok v" for v
    using that wait_events_target[of TUN_READY h hs "xr_wakes env" "(s1, True)" v]
    by (auto simp: state_sync_wait_ms_def split: option.splits if_splits)
  ultimately show ?thesis using assms(1) st 2 3
    by (auto simp: request_virtip_def Let_def split: cres.splits if_splits)
qed

text \<open>What the cleanup leaves.\<close>

lemma cleanup_stage:
  assumes "client_vpn_engine_cleanup env e = Ok e'" "\<not> en_sending e" "\<not> en_receiving e"
    and "idle_inv (en_q e) \<or> (\<exists>sent. run_inv h n sent (en_q e))"
  shows "cq (en_q e') = None \<and> cs_tun (cq_ctrl (en_q e')) = None \<and> en_wan e' = None \<and>
    closes h (cq_calls (en_q e')) = (if ConnectionOpen \<in> set (cq_calls (en_q e')) then n else 0)"
proof -
  let ?s = "remove_msquic (remove_tun env (en_q e))"
  have "client_stop_threads (xe_stop env) e = Ok e" using assms(2,3) by (simp add: client_stop_threads_def)
  then have q: "cq (en_q e') = cq ?s" "cq_ctrl (en_q e') = cq_ctrl ?s" "cq_calls (en_q e') = cq_calls ?s" "en_wan e' = None"
    using assms(1) by (auto simp: client_vpn_engine_cleanup_def Let_def cbind_Ok)
  have t: "cq (remove_tun env s) = cq s" "cq_calls (remove_tun env s) = cq_calls s" "cs_tun (cq_ctrl (remove_tun env s)) = None" for s
    by (auto simp: remove_tun_def split: option.split prod.split)
  have none: "cq ?s = None" "cs_tun (cq_ctrl ?s) = None" using t by (auto simp: remove_msquic_def split: option.split)
  have calls: "cq_calls ?s = cq_calls (en_q e) @ (case cq (en_q e) of None \<Rightarrow> [] | Some x \<Rightarrow> client_MsQuicShutdown x)"
    using t by (simp add: remove_msquic_def split: option.split)
  have "closes h (cq_calls ?s) = (if ConnectionOpen \<in> set (cq_calls ?s) then n else 0)"
    using assms(4)
  proof
    assume i: "idle_inv (en_q e)"
    then have "list_all plain (cq_calls ?s)" unfolding calls
      by (auto simp: idle_inv_def client_MsQuicShutdown_def plain_def split: option.split)
    from plain_calls(2,3)[OF this] show ?thesis by simp
  next
    assume "\<exists>sent. run_inv h n sent (en_q e)"
    then show ?thesis unfolding calls
      by (auto simp: run_inv_def conn_inv_def calls_inv_def client_MsQuicShutdown_def)
  qed
  then show ?thesis using q none by simp
qed

lemma session_create_stage:
  assumes "session_create env config ms mr cenv = Ok (Some e)"
  shows "idle_inv (en_q e)" "ready_inv (en_q e)" "\<not> en_sending e" "\<not> en_receiving e"
    "ready_inv ((en_q e)\<lparr>cq_ctrl := (cq_ctrl (en_q e))\<lparr>cs_wan_ifname := w\<rparr>\<rparr>)"
    "idle_inv ((en_q e)\<lparr>cq_ctrl := (cq_ctrl (en_q e))\<lparr>cs_wan_ifname := w\<rparr>\<rparr>)"
    "\<not> en_send_thread e" "\<not> en_recv_thread e"
  using assms
  by (auto simp: session_create_def fresh_session_def idle_inv_def ready_inv_def init_state_def state_sync_init_def Let_def
      split: if_splits cres.splits option.splits prod.splits)

text \<open>When threads were started a failure is never cleaned up: the thread that is missing is joined.\<close>

lemma threads_missing:
  assumes "client_start_threads ts tr e = (e', rc)" "rc \<noteq> 0" "\<not> en_send_thread e" "\<not> en_recv_thread e"
  shows "client_vpn_engine_cleanup env e' \<noteq> Ok e''"
  using assms
  by (auto simp: client_start_threads_def client_vpn_engine_cleanup_def client_stop_threads_def join_thread_def cbind_Ok Let_def
      split: if_splits)

text \<open>The ways a start can go: it ends at once, it is cleaned up before the threads are started, or the threads are started.\<close>

definition early_stop :: "cboot_env \<Rightarrow> cengine \<Rightarrow> bool" where
  "early_stop env e \<longleftrightarrow> \<not> en_sending e \<and> \<not> en_receiving e \<and>
     (idle_inv (en_q e) \<or> (\<exists>sent. run_inv (ko_handle (xq_connect (xe_setup env))) (handles (xe_setup env)) sent (en_q e)))"

definition configured :: "client_q \<Rightarrow> bool" where
  "configured s \<longleftrightarrow> (\<exists>tun g req. ss_state (cs_tun_state (cq_ctrl s)) = TUN_READY \<and> cs_tun (cq_ctrl s) = Some tun \<and> usable_tun tun \<and>
     filter is_send (cq_calls s) = [StreamSend g (pkt_bytes req)] \<and>
     pkt_ctrl_create_config_req True 0 2 (Some ''quic vpn client'') = Some req)"

lemma engine_stages:
  assumes "session_create (xe_session env) config ms mr cenv = Ok (Some e0)" "detect_default_wan (xe_wan env) = Ok wan"
  shows "vpn_engine_start env config ms mr cenv \<in> {StillWaiting, AssertFailed} \<or>
    (\<exists>e. early_stop env e \<and> vpn_engine_start env config ms mr cenv = engine_error env (Some e)) \<or>
    (\<exists>e e3 rc. client_start_threads (fst (xe_threads env)) (snd (xe_threads env)) e = (e3, rc) \<and> \<not> en_send_thread e \<and>
       \<not> en_recv_thread e \<and> configured (en_q e) \<and>
       vpn_engine_start env config ms mr cenv = (if rc \<noteq> 0 then engine_error env (Some e3) else Started e3))"
proof -
  let ?h = "ko_handle (xq_connect (xe_setup env))" and ?n = "handles (xe_setup env)"
  let ?s1 = "(en_q e0)\<lparr>cq_ctrl := (cq_ctrl (en_q e0))\<lparr>cs_wan_ifname := wi_ifname wan\<rparr>\<rparr>"
  let ?e = "\<lambda>s. e0\<lparr>en_wan := Some wan, en_q := s\<rparr>"
  note s0 = session_create_stage[OF assms(1)]
  obtain s2 al2 r2 where q: "client_setup_msquic (xe_setup env) (wi_ip_str wan) ?s1 = ((s2, al2), r2)" by (metis prod.exhaust)
  obtain s3 al3 r3 where v: "request_virtip (xe_req env) ?h (to_handle (xq_stream (xe_setup env))) s2 = ((s3, al3), r3)"
    by (metis prod.exhaust)
  obtain e3 rc where t: "client_start_threads (fst (xe_threads env)) (snd (xe_threads env)) (?e s3) = (e3, rc)"
    by (metis prod.exhaust)
  have two: "idle_inv s2 \<and> r2 \<noteq> Ok 0 \<or> run_inv ?h ?n [] s2" using setup_stage[OF q s0(6,5)] by blast
  then have early2: "early_stop env (?e s2)" using s0(3,4) by (auto simp: early_stop_def)
  show ?thesis
  proof (cases "r2 = Ok 0")
    case False
    then show ?thesis using assms q early2 by (cases r2) (auto simp: vpn_engine_start_def Let_def)
  next
    case True
    then obtain sent where three: "run_inv ?h ?n sent s3" "r3 = Ok 0 \<longrightarrow> ss_state (tun_state_of s3) = TUN_READY \<and>
      (\<exists>g req. sent = [StreamSend g (pkt_bytes req)] \<and> pkt_ctrl_create_config_req True 0 2 (Some ''quic vpn client'') = Some req)"
      using request_stage[OF v, of ?n] two by blast
    then have early3: "early_stop env (?e s3)" using s0(3,4) by (auto simp: early_stop_def)
    have conf: "configured (en_q (?e s3))" if "r3 = Ok 0"
      using three that by (auto simp: configured_def run_inv_def ready_inv_def calls_inv_def tun_state_of_def)
    show ?thesis
    proof (cases "r3 = Ok 0")
      case False
      then show ?thesis using assms q v True early3 by (cases r3) (auto simp: vpn_engine_start_def Let_def)
    next
      case r3: True
      have flags: "\<not> en_send_thread (?e s3)" "\<not> en_recv_thread (?e s3)" using s0(7,8) by simp_all
      have "vpn_engine_start env config ms mr cenv =
          (if \<not> al2 \<or> \<not> al3 then AssertFailed else if rc \<noteq> 0 then engine_error env (Some e3) else Started e3)"
        using assms q v True r3 t by (simp add: vpn_engine_start_def Let_def)
      moreover have ?thesis if "vpn_engine_start env config ms mr cenv = (if rc \<noteq> 0 then engine_error env (Some e3) else Started e3)"
        using t flags conf[OF r3] that by blast
      ultimately show ?thesis by (cases "al2 \<and> al3") auto
    qed
  qed
qed

section \<open>Properties\<close>


section \<open>A start that is answered\<close>

text \<open>The bytes of one acceptable configuration, in whatever buffers, on a system that works.\<close>

lemma receive_config:
  fixes p defines "resp \<equiv> resp_of_bytes (raw_padding p)" and "mtu \<equiv> ntohs (r_mtu (resp_of_bytes (raw_padding p)))"
  assumes frame: "length (pkt_bytes p) = PKTCTRLSIZ" "pkt_of_bytes (pkt_bytes p) = p" "frame_ok (host_order p)"
      "h_type (hdr (host_order p)) = VPN_MSG_TYPE_CONFIG_RESP"
    and ok: "acceptable resp mtu" "env_works (cq_env s (cq_tick s))" and bufs: "concat bufs = pkt_bytes p"
  obtains s' tun where "client_stream_receive client_handle_frame bufs PKTCTRLSIZ s = (s', PKTCTRLSIZ, QUIC_STATUS_SUCCESS)"
    "ss_state (tun_state_of s') = TUN_READY" "cs_tun (cq_ctrl s') = Some tun" "cfg tun = cfg_of resp mtu" "tun_start (Some tun) = 0"
    "cq_calls s' = cq_calls s"
proof -
  obtain c tun where c: "client_process_ctrl_pkt (cq_env s (cq_tick s)) p (cq_ctrl s) = (c, 0)" "ss_state (cs_tun_state c) = TUN_READY"
    "cs_tun c = Some tun" "cfg tun = cfg_of resp mtu" "tun_start (Some tun) = 0"
    by (rule process_config[OF frame(3,4), of "cq_env s (cq_tick s)" "cq_ctrl s"]) (use ok in \<open>auto simp: resp_def mtu_def\<close>)
  let ?s' = "s\<lparr>cq_ctrl := c, cq_tick := Suc (cq_tick s)\<rparr>"
  have h: "client_handle_frame p s = (?s', 0)" using c(1) by (simp add: client_handle_frame_def)
  have ne: "pkt_bytes p \<noteq> []" using frame(1) by auto
  have fr: "frames (pkt_bytes p) = [p] \<and> whole (pkt_bytes p) = PKTCTRLSIZ" using frames_single[OF frame(1)] frame(2) by simp
  have "client_stream_receive client_handle_frame bufs (length (pkt_bytes p)) s = (?s', PKTCTRLSIZ, QUIC_STATUS_SUCCESS)"
    unfolding client_stream_receive_frames[OF bufs ne] using fr h by simp
  then show ?thesis using that[of ?s' tun] c frame(1) by (simp add: tun_state_of_def)
qed

text \<open>The answers a request needs, and the client with the answer of the server at its first wake-up.\<close>

definition request_works :: "creq_env \<Rightarrow> bool" where
  "request_works env \<longleftrightarrow> xr_calloc env \<and> xr_malloc env \<and> xr_malloc_buf env \<and> \<not> quic_failed (xr_send env) \<and>
     ss_deadline (xr_clock env) 5000 \<noteq> None"

definition answered_by :: "cboot_env \<Rightarrow> bytes list \<Rightarrow> cboot_env" where
  "answered_by env bufs = env\<lparr>xe_req := (xe_req env)\<lparr>xr_wakes := [(0, [OnStream (CS_RECEIVE bufs PKTCTRLSIZ)])]\<rparr>\<rparr>"

lemma request_answered:
  assumes s: "cq s = Some x" "ss_state (tun_state_of s) = TUN_CLOSED" and env: "request_works env"
    and wakes: "xr_wakes env = [(0, [OnStream (CS_RECEIVE bufs PKTCTRLSIZ)])]"
    and req: "pkt_ctrl_create_config_req True 0 2 (Some ''quic vpn client'') = Some req"
    and recv: "client_stream_receive client_handle_frame bufs PKTCTRLSIZ (qcall (StreamSend (x_stream x) (pkt_bytes req)) s) =
      (s', PKTCTRLSIZ, QUIC_STATUS_SUCCESS)" "ss_state (tun_state_of s') = TUN_READY"
  shows "request_virtip env hc hs s = ((s', True), Ok 0)"
proof -
  define s1 where "s1 = qcall (StreamSend (x_stream x) (pkt_bytes req)) s"
  have s1: "cq s1 = Some x" "ss_state (tun_state_of s1) = TUN_CLOSED" using s by (simp_all add: s1_def qcall_def tun_state_of_def)
  have d: "deliver_all hc hs [OnStream (CS_RECEIVE bufs PKTCTRLSIZ)] (s1, True) = (s', True)"
    using s1(1) recv(1) by (simp add: deliver_all_def deliver_def msquic_stream_callback_def s1_def[symmetric])
  have "length (pkt_bytes req) \<noteq> 0" by (simp add: pkt_bytes_def hdr_bytes_def)
  then have "MsQuicStreamSend (xr_malloc env) (xr_malloc_buf env) (xr_send env) (Some (pkt_bytes req)) s = (s1, Ok 0)"
    using s(1) env by (auto simp: MsQuicStreamSend_def s1_def request_works_def simp del: quic_failed.simps)
  then show ?thesis using req d recv(2) s1(2) env
    by (auto simp: request_virtip_def wakes Let_def state_sync_wait_ms_def timed_wait_loop.simps mutex_ok_def request_works_def)
qed

text \<open>The session that knows its uplink, and the start when every stage of it works.\<close>

definition with_uplink :: "net_iface_t \<Rightarrow> cengine \<Rightarrow> client_q" where
  "with_uplink wan e = (en_q e)\<lparr>cq_ctrl := (cq_ctrl (en_q e))\<lparr>cs_wan_ifname := wi_ifname wan\<rparr>\<rparr>"

lemma engine_started:
  assumes "session_create (xe_session env) config ms mr cenv = Ok (Some e0)" "detect_default_wan (xe_wan env) = Ok wan"
    and "client_setup_msquic (xe_setup env) (wi_ip_str wan) (with_uplink wan e0) = ((s2, True), Ok 0)"
    and "request_virtip (xe_req env) (ko_handle (xq_connect (xe_setup env))) (to_handle (xq_stream (xe_setup env))) s2 = ((s3, True), Ok 0)"
    and "xe_threads env = (True, True)"
  obtains e where "vpn_engine_start env config ms mr cenv = Started e" "en_q e = s3"
proof -
  have "vpn_engine_start env config ms mr cenv = Started (e0\<lparr>en_wan := Some wan, en_q := s3, en_sending := True, en_send_thread := True,
      en_receiving := True, en_recv_thread := True\<rparr>)"
    using assms by (simp add: vpn_engine_start_def with_uplink_def client_start_threads_def Let_def)
  then show ?thesis using that by simp
qed

text \<open>
  A start that comes to its request: session, uplink, connection and stream are there in the state \<open>s\<close> with the context
  \<open>x\<close>, the system answers the calls that follow, and the threads can be created. Then it succeeds on any
  acceptable configuration, and what it has sent is its request.
\<close>

definition comes_to_request :: "cboot_env \<Rightarrow> vpn_config_t \<Rightarrow> pmem \<Rightarrow> pmem \<Rightarrow> (nat \<Rightarrow> ctrl_env) \<Rightarrow> client_q \<Rightarrow> quic_ctx \<Rightarrow> bool" where
  "comes_to_request env config ms mr cenv s x \<longleftrightarrow>
     (\<exists>e0 wan. session_create (xe_session env) config ms mr cenv = Ok (Some e0) \<and> detect_default_wan (xe_wan env) = Ok wan \<and>
        client_setup_msquic (xe_setup env) (wi_ip_str wan) (with_uplink wan e0) = ((s, True), Ok 0)) \<and>
     cq s = Some x \<and> ss_state (tun_state_of s) = TUN_CLOSED \<and> request_works (xe_req env) \<and>
     env_works (cq_env s (cq_tick s)) \<and> xe_threads env = (True, True)"

lemma start_answered:
  fixes p defines "resp \<equiv> resp_of_bytes (raw_padding p)" and "mtu \<equiv> ntohs (r_mtu (resp_of_bytes (raw_padding p)))"
  assumes frame: "length (pkt_bytes p) = PKTCTRLSIZ" "pkt_of_bytes (pkt_bytes p) = p" "frame_ok (host_order p)"
      "h_type (hdr (host_order p)) = VPN_MSG_TYPE_CONFIG_RESP"
    and ok: "acceptable resp mtu" and bufs: "concat bufs = pkt_bytes p"
    and start: "comes_to_request env config ms mr cenv s x"
    and req: "pkt_ctrl_create_config_req True 0 2 (Some ''quic vpn client'') = Some req"
  obtains e tun where "vpn_engine_start (answered_by env bufs) config ms mr cenv = Started e"
    "ss_state (tun_state_of (en_q e)) = TUN_READY" "cs_tun (cq_ctrl (en_q e)) = Some tun" "cfg tun = cfg_of resp mtu"
    "tun_start (Some tun) = 0" "cq_calls (en_q e) = cq_calls s @ [StreamSend (x_stream x) (pkt_bytes req)]"
proof -
  let ?env = "answered_by env bufs"
  obtain e0 wan where st: "session_create (xe_session ?env) config ms mr cenv = Ok (Some e0)" "detect_default_wan (xe_wan ?env) = Ok wan"
      "client_setup_msquic (xe_setup ?env) (wi_ip_str wan) (with_uplink wan e0) = ((s, True), Ok 0)" "xe_threads ?env = (True, True)"
    and s: "cq s = Some x" "ss_state (tun_state_of s) = TUN_CLOSED" "request_works (xe_req ?env)" "env_works (cq_env s (cq_tick s))"
    using start by (auto simp: comes_to_request_def answered_by_def request_works_def)
  let ?s1 = "qcall (StreamSend (x_stream x) (pkt_bytes req)) s"
  have works: "env_works (cq_env ?s1 (cq_tick ?s1))" and calls: "cq_calls ?s1 = cq_calls s @ [StreamSend (x_stream x) (pkt_bytes req)]"
    using s(4) by (simp_all add: qcall_def)
  obtain s3 tun where r: "client_stream_receive client_handle_frame bufs PKTCTRLSIZ ?s1 = (s3, PKTCTRLSIZ, QUIC_STATUS_SUCCESS)"
    "ss_state (tun_state_of s3) = TUN_READY" "cs_tun (cq_ctrl s3) = Some tun" "cfg tun = cfg_of resp mtu" "tun_start (Some tun) = 0"
    "cq_calls s3 = cq_calls ?s1"
    using receive_config[OF frame, of ?s1 bufs] ok works bufs unfolding resp_def mtu_def by metis
  have w: "xr_wakes (xe_req ?env) = [(0, [OnStream (CS_RECEIVE bufs PKTCTRLSIZ)])]" by (simp add: answered_by_def)
  obtain e where "vpn_engine_start ?env config ms mr cenv = Started e" "en_q e = s3"
    by (rule engine_started[OF st(1-3) request_answered[OF s(1-3) w req r(1,2)] st(4)])
  then show ?thesis using that r calls by auto
qed

text \<open>A start on a system that works, against a server that answers in time.\<close>

definition demo_cboot :: cboot_env where
  "demo_cboot =
     \<lparr>xe_session = \<lparr>xs_malloc = True, xs_resolve = (\<lambda>_ _. GaiEntry (Some (SockIn 0x0B0A0A0A 0))),
        xs_sync1 = \<lparr>si_mutex_init = 0, si_attr_init = 0, si_setclock = 0, si_cond_init = 0\<rparr>,
        xs_sync2 = \<lparr>si_mutex_init = 0, si_attr_init = 0, si_setclock = 0, si_cond_init = 0\<rparr>,
        xs_sync3 = \<lparr>si_mutex_init = 0, si_attr_init = 0, si_setclock = 0, si_cond_init = 0\<rparr>,
        xs_pool1 = (Some 10, 0, 0), xs_pool2 = (Some 11, 0, 0),
        xs_queue = \<lparr>malloc_queue = True, malloc_ring = True, mutex_init_rc = 0, sem_init_pop_rc = 0, sem_init_push_rc = 0\<rparr>,
        xs_pkt = (\<lambda>_. \<lparr>buf_Buffer = None, buf_Length = 0, pd_data = []\<rparr>)\<rparr>,
      xe_wan = demo_wan_env,
      xe_setup = \<lparr>xq_calloc = True, xq_register = (QUIC_STATUS_SUCCESS, QUIC_STATUS_SUCCESS),
        xq_parse = (\<lambda>_ p. Some \<lparr>qa_family = 2, qa_addr = 0x0B0A0A0A, qa_port = p\<rparr>),
        xq_params = QUIC_STATUS_SUCCESS, xq_cred = QUIC_STATUS_SUCCESS, xq_connect = demo_connect, xq_before1 = [],
        xq_wakes1 = [(0, [OnConn CC_CONNECTED])],
        xq_stream = \<lparr>to_open = QUIC_STATUS_SUCCESS, to_handle = 9, to_start = QUIC_STATUS_PENDING, to_clock = Some clock_demo\<rparr>,
        xq_before2 = [], xq_wakes2 = [(0, [OnStream (CS_START_COMPLETE True QUIC_STATUS_SUCCESS)])]\<rparr>,
      xe_req = \<lparr>xr_calloc = True, xr_malloc = True, xr_malloc_buf = True, xr_send = QUIC_STATUS_PENDING, xr_clock = Some clock_demo,
        xr_wakes = [(0, [OnStream (CS_RECEIVE [pkt_bytes demo_resp_frame] PKTCTRLSIZ)])]\<rparr>,
      xe_threads = (True, True), xe_stop = \<lparr>st_send_join = id, st_recv_join = id\<rparr>,
      xe_sys = (\<lambda>_ _. 0), xe_info = (\<lambda>_. \<lparr>si_ifname = ''tun0'', si_flags = 0, si_exec = \<lambda>_. True\<rparr>)\<rparr>"

lemma demo_deadline: "ss_deadline (Some clock_demo) 5000 \<noteq> None"
  by (simp add: ss_deadline_def state_sync_timespec_add_ms_def clock_demo_def)

lemma demo_setup:
  assumes "cq s = None" "cs_tun (cq_ctrl s) = None"
  obtains s' x where "client_setup_msquic (xe_setup demo_cboot) ip s = ((s', True), Ok 0)" "cq s' = Some x" "x_stream x = Some 9"
    "cq_env s' = cq_env s" "cq_ctrl s' = cq_ctrl s"
proof -
  obtain x0 where x0: "MsQuicCreate True = Some x0" "x_conn x0 = None" by (simp add: MsQuicCreate_def)
  let ?st = "xe_setup demo_cboot"
  obtain s4 x4 where 4: "configure_msquic ?st ip x0 (s\<lparr>cq := Some x0\<rparr>) = (s4, 0)" "cq s4 = Some x4"
      "cq_env s4 = cq_env s" "cq_ctrl s4 = cq_ctrl s"
    by (simp add: configure_msquic_def put_ctx_def MsQuicRegister_def MsQuicConfigAddr_def client_MsQuicConfigParameters_def
      client_MsQuicConfigCredentials_def Let_def ipv4_addr_def demo_cboot_def)
  have dl: "\<exists>ts. ss_deadline (Some clock_demo) 5000 = Some ts" using demo_deadline by blast
  then obtain ts where ts: "ss_deadline (Some clock_demo) 5000 = Some ts" by blast
  let ?r5 = "MsQuicConnectionStart demo_connect [] [(0, [OnConn CC_CONNECTED])] s4"
  have "snd (fst ?r5) \<and> snd ?r5 = Ok 0 \<and> cq (fst (fst ?r5)) \<noteq> None \<and> cq_env (fst (fst ?r5)) = cq_env s \<and>
      cq_ctrl (fst (fst ?r5)) = cq_ctrl s \<and> ss_state (cq_con (fst (fst ?r5))) = SESSION_CONNECTED"
    using 4 ts by (simp add: MsQuicConnectionStart_def demo_connect_def wait_state_def deliver_all_def deliver_def msquic_connect_callback_def
        state_sync_wait_ms_abort_def abort_wait_loop.simps mutex_ok_def client_upd Let_def)
  then obtain s5 x5 where 5: "?r5 = ((s5, True), Ok 0)" "cq s5 = Some x5"
      "cq_env s5 = cq_env s" "cq_ctrl s5 = cq_ctrl s" "ss_state (cq_con s5) = SESSION_CONNECTED" by (cases ?r5) auto
  let ?r6 = "MsQuicStreamStart (xq_stream ?st) 5 [] [(0, [OnStream (CS_START_COMPLETE True QUIC_STATUS_SUCCESS)])] s5"
  have "snd (fst ?r6) \<and> snd ?r6 = Ok 0 \<and> map_option x_stream (cq (fst (fst ?r6))) = Some (Some 9) \<and> cq_env (fst (fst ?r6)) = cq_env s \<and>
      cq_ctrl (fst (fst ?r6)) = cq_ctrl s"
    using 5 ts by (simp add: MsQuicStreamStart_def demo_cboot_def wait_state_def deliver_all_def deliver_def msquic_stream_callback_def
        state_sync_wait_ms_abort_def abort_wait_loop.simps mutex_ok_def client_upd Let_def)
  then obtain s6 x6 where 6: "?r6 = ((s6, True), Ok 0)"
      "cq s6 = Some x6" "x_stream x6 = Some 9" "cq_env s6 = cq_env s" "cq_ctrl s6 = cq_ctrl s" by (cases ?r6) auto
  have "xq_connect ?st = demo_connect" "xq_before1 ?st = []" "xq_wakes1 ?st = [(0, [OnConn CC_CONNECTED])]" "xq_before2 ?st = []"
    "xq_wakes2 ?st = [(0, [OnStream (CS_START_COMPLETE True QUIC_STATUS_SUCCESS)])]" "xq_calloc ?st" "ko_handle demo_connect = 5"
    by (simp_all add: demo_cboot_def demo_connect_def)
  then have "client_setup_msquic ?st ip s = ((s6, True), Ok 0)" using x0 4(1) 5(1) 6(1) by (simp add: client_setup_msquic_def)
  then show ?thesis using that 6 by blast
qed

lemma demo_frame:
  "length (pkt_bytes demo_resp_frame) = PKTCTRLSIZ" "pkt_of_bytes (pkt_bytes demo_resp_frame) = demo_resp_frame"
  "frame_ok (host_order demo_resp_frame)" "h_type (hdr (host_order demo_resp_frame)) = VPN_MSG_TYPE_CONFIG_RESP"
  "acceptable (resp_of_bytes (raw_padding demo_resp_frame)) (ntohs (r_mtu (resp_of_bytes (raw_padding demo_resp_frame))))"
proof -
  have "validate_mask (r_mask (resp_of_bytes (raw_padding demo_resp_frame)))" "ntohs (r_mtu (resp_of_bytes (raw_padding demo_resp_frame))) = 1380"
    by code_simp+
  then show "acceptable (resp_of_bytes (raw_padding demo_resp_frame)) (ntohs (r_mtu (resp_of_bytes (raw_padding demo_resp_frame))))"
    by (simp add: acceptable_def)
qed code_simp+

lemma demo_request_works: "request_works (xe_req demo_cboot)"
  using demo_deadline by (simp add: request_works_def demo_cboot_def)

lemma demo_session:
  obtains e0 where "session_create (xe_session demo_cboot) \<lparr>server_hostname = ''vpn.example'', server_port = 443\<rparr> ms mr (\<lambda>_. demo_ctrl_env 0) = Ok (Some e0)"
    "cq (en_q e0) = None" "cs_tun (cq_ctrl (en_q e0)) = None" "cq_env (en_q e0) = (\<lambda>_. demo_ctrl_env 0)"
    "ss_state (cs_tun_state (cq_ctrl (en_q e0))) = TUN_CLOSED"
  using length_dotted[of "0x0B0A0A0A"]
  by (simp add: demo_cboot_def session_create_def fresh_session_def init_state_def state_sync_init_def make_pool_def pool_init_def
      queue_init_def resolve_hostname_ipv4_str_def inet_ntop_def Let_def)

lemma demo_comes_to_request:
  obtains s x where
    "comes_to_request demo_cboot \<lparr>server_hostname = ''vpn.example'', server_port = 443\<rparr> ms mr (\<lambda>_. demo_ctrl_env 0) s x"
proof (rule demo_session[of ms mr])
  have w: "xe_wan demo_cboot = demo_wan_env" "xe_threads demo_cboot = (True, True)" by (simp_all add: demo_cboot_def)
  then obtain wan where wan: "detect_default_wan (xe_wan demo_cboot) = Ok wan" using demo_wan by simp
  fix e0
  assume e0: "session_create (xe_session demo_cboot) \<lparr>server_hostname = ''vpn.example'', server_port = 443\<rparr> ms mr (\<lambda>_. demo_ctrl_env 0) = Ok (Some e0)"
    "cq (en_q e0) = None" "cs_tun (cq_ctrl (en_q e0)) = None" "cq_env (en_q e0) = (\<lambda>_. demo_ctrl_env 0)"
    "ss_state (cs_tun_state (cq_ctrl (en_q e0))) = TUN_CLOSED"
  let ?s1 = "with_uplink wan e0"
  have s1: "cq ?s1 = None" "cs_tun (cq_ctrl ?s1) = None" using e0 by (simp_all add: with_uplink_def)
  obtain s2 x where s2: "client_setup_msquic (xe_setup demo_cboot) (wi_ip_str wan) ?s1 = ((s2, True), Ok 0)" "cq s2 = Some x"
    "cq_env s2 = cq_env ?s1" "cq_ctrl s2 = cq_ctrl ?s1"
    by (rule demo_setup[OF s1, of "wi_ip_str wan"])
  have "ss_state (tun_state_of s2) = TUN_CLOSED" "env_works (cq_env s2 (cq_tick s2))"
    using s2(3,4) e0(4,5) demo_env_works[of 0] by (simp_all add: tun_state_of_def with_uplink_def)
  then show ?thesis using that[of s2 x] e0(1) wan s2(1,2) w(2) demo_request_works unfolding comes_to_request_def by blast
qed

lemma demo_start: "\<exists>e. vpn_engine_start demo_cboot \<lparr>server_hostname = ''vpn.example'', server_port = 443\<rparr> ms mr (\<lambda>_. demo_ctrl_env 0) = Started e"
proof -
  obtain s x where c: "comes_to_request demo_cboot \<lparr>server_hostname = ''vpn.example'', server_port = 443\<rparr> ms mr (\<lambda>_. demo_ctrl_env 0) s x"
    by (rule demo_comes_to_request)
  have b: "concat [pkt_bytes demo_resp_frame] = pkt_bytes demo_resp_frame" by simp
  obtain req where req: "pkt_ctrl_create_config_req True 0 2 (Some ''quic vpn client'') = Some req"
    by (simp add: pkt_ctrl_create_config_req_def)
  have "answered_by demo_cboot [pkt_bytes demo_resp_frame] = demo_cboot" by (simp add: answered_by_def demo_cboot_def)
  then show ?thesis using start_answered[OF demo_frame b c req] by metis
qed


end
