(* ===== verification/View_Config.thy ===== *)
theory View_Config
  imports Client_Engine
begin

text \<open>
  The settings a user types into the client's window, \<^verbatim>\<open>view_controls_read_config\<close> of
  \<^verbatim>\<open>client/src/ui/view_controls.c\<close>: the port through \<^verbatim>\<open>strtoul\<close> and a cast to 16
  bits, the host name copied into its array.
\<close>

section \<open>Reading\<close>

definition is_space :: "char \<Rightarrow> bool" where
  "is_space c \<longleftrightarrow> c = CHR '' '' \<or> (9 \<le> (of_char c :: nat) \<and> (of_char c :: nat) \<le> 13)"

definition digits_value :: "string \<Rightarrow> nat" where
  "digits_value ds = foldl (\<lambda>v c. 10 * v + (of_char c - 48)) 0 ds"

text \<open>\<^verbatim>\<open>strtoul\<close> in base ten: blanks, a sign, digits; the largest value when they do not fit, and the
  negated value after a minus sign.\<close>

definition strtoul10 :: "string \<Rightarrow> u64" where
  "strtoul10 s =
     (let t = dropWhile is_space s;
          (neg, u) = (case t of [] \<Rightarrow> (False, t)
                      | c # cs \<Rightarrow> if c = CHR ''-'' then (True, cs) else if c = CHR ''+'' then (False, cs) else (False, t));
          v = digits_value (takeWhile is_digit u)
      in if 2 ^ 64 \<le> v then - 1 else if neg then - of_nat v else of_nat v)"

abbreviation MAX_HOST_NAME :: nat where "MAX_HOST_NAME \<equiv> 255"

definition view_controls_read_config :: "string option \<Rightarrow> string option \<Rightarrow> vpn_config_t" where
  "view_controls_read_config port addr =
     \<lparr>server_hostname = (case addr of None \<Rightarrow> [] | Some t \<Rightarrow> take (MAX_HOST_NAME - 1) t),
      server_port = (case port of None \<Rightarrow> 0 | Some t \<Rightarrow> ucast (strtoul10 t))\<rparr>"

section \<open>Decimal text\<close>

lemma digits_value_snoc: "d < 10 \<Longrightarrow> digits_value (ds @ [char_of (48 + d)]) = 10 * digits_value ds + d"
  by (simp add: digits_value_def of_char_digit[unfolded digit_def])

lemma digits_value_show: "digits_value (show_nat n) = n"
proof (induction n rule: show_nat.induct)
  case (1 n)
  show ?case
  proof (cases "n < 10")
    case True
    then show ?thesis using digits_value_snoc[of n "[]"] by (subst show_nat.simps) (simp add: digits_value_def)
  next
    case False
    then show ?thesis using 1 digits_value_snoc[of "n mod 10" "show_nat (n div 10)"] by (subst show_nat.simps) simp
  qed
qed

lemma show_nat_digits: "list_all is_digit (show_nat n) \<and> show_nat n \<noteq> []"
proof (induction n rule: show_nat.induct)
  case (1 n)
  have "is_digit (char_of (48 + d))" if "d < 10" for d :: nat using is_digit_digit[OF that] by (simp add: digit_def)
  then show ?case using 1 by (subst (1 2) show_nat.simps) auto
qed

lemma strtoul10_show:
  assumes "n < 2 ^ 64"
  shows "strtoul10 (show_nat n) = of_nat n"
proof -
  obtain c cs where c: "show_nat n = c # cs" "list_all is_digit (c # cs)" using show_nat_digits[of n] by (cases "show_nat n") auto
  have "is_digit c" using c(2) by simp
  then have d: "\<not> is_space c" "c \<noteq> CHR ''-''" "c \<noteq> CHR ''+''" by (auto simp: is_digit_def is_space_def)
  have "takeWhile is_digit (show_nat n) = show_nat n" using show_nat_digits[of n] by (simp add: list_all_iff takeWhile_eq_all_conv)
  then show ?thesis using assms d c(1) digits_value_show[of n] by (simp add: strtoul10_def Let_def)
qed

text \<open>
  The port a user types in decimal is taken modulo 65536, without an error: it is the number typed exactly when that is a
  port. A host name loses what does not fit its array.
\<close>

theorem read_config_port:
  assumes "n < 2 ^ 64"
  shows "server_port (view_controls_read_config (Some (show_nat n)) addr) = of_nat n \<and>
    (unat (server_port (view_controls_read_config (Some (show_nat n)) addr)) = n \<longleftrightarrow> n < 65536)"
proof -
  have p: "server_port (view_controls_read_config (Some (show_nat n)) addr) = of_nat n"
    using strtoul10_show[OF assms] by (simp add: view_controls_read_config_def unsigned_of_nat word_of_nat_eq_iff)
  have "unat (of_nat n :: u16) = n \<longleftrightarrow> n < 65536"
    by (simp add: unat_of_nat mod_eq_self_iff_div_eq_0 div_eq_0_iff)
  then show ?thesis using p by simp
qed

theorem read_config_port_witness:
  "server_port (view_controls_read_config (Some (show_nat 65979)) None) = 443"
  using read_config_port[of 65979 None] by simp

end
