(* ===== verification/View_Logger.thy ===== *)
theory View_Logger
  imports Prelude
begin

text \<open>
  The log view of the client's window, \<^verbatim>\<open>client/src/ui/view_logger.c\<close>. The output of all threads goes into a
  pipe; the window's thread reads the pipe in pieces and appends them to the text it shows. The two functions of the library on
  UTF-8 are parameters.
\<close>

section \<open>The view\<close>

text \<open>The bytes in the pipe, and the text shown.\<close>

record view_logger_t =
  lg_pipe :: bytes
  lg_text :: bytes

definition view_logger_create :: view_logger_t where
  "view_logger_create = \<lparr>lg_pipe = [], lg_text = []\<rparr>"

abbreviation LOG_CHUNK :: nat where "LOG_CHUNK \<equiv> 1023"

text \<open>A line of the log enters the pipe that standard output and standard error have become.\<close>

definition log_write :: "bytes \<Rightarrow> view_logger_t \<Rightarrow> view_logger_t" where
  "log_write line s = s\<lparr>lg_pipe := lg_pipe s @ line\<rparr>"

text \<open>One call of the handler, with the number of bytes the channel has ready. A piece that is not valid is replaced as a whole;
  the text is inserted up to its first zero byte.\<close>

definition on_log_received :: "(bytes \<Rightarrow> bool) \<Rightarrow> (bytes \<Rightarrow> bytes) \<Rightarrow> nat \<Rightarrow> view_logger_t \<Rightarrow> view_logger_t" where
  "on_log_received g_utf8_validate g_utf8_make_valid ready s =
     (let bytes_read = min (min ready (length (lg_pipe s))) LOG_CHUNK; buf = take bytes_read (lg_pipe s) in
      if bytes_read = 0 then s
      else let text_to_insert = (if g_utf8_validate buf then buf else g_utf8_make_valid buf)
           in s\<lparr>lg_pipe := drop bytes_read (lg_pipe s), lg_text := lg_text s @ takeWhile (\<lambda>b. b \<noteq> 0) text_to_insert\<rparr>)"

section \<open>What is shown\<close>

datatype log_step = Write bytes | Ready nat

fun log_run :: "(bytes \<Rightarrow> bool) \<Rightarrow> (bytes \<Rightarrow> bytes) \<Rightarrow> log_step list \<Rightarrow> view_logger_t \<Rightarrow> view_logger_t" where
  "log_run val mk [] s = s"
| "log_run val mk (Write line # es) s = log_run val mk es (log_write line s)"
| "log_run val mk (Ready n # es) s = log_run val mk es (on_log_received val mk n s)"

fun written :: "log_step list \<Rightarrow> bytes" where
  "written [] = []"
| "written (Write line # es) = line @ written es"
| "written (Ready n # es) = written es"

definition plain :: "bytes \<Rightarrow> bool" where
  "plain bs \<longleftrightarrow> (\<forall>b\<in>set bs. 0 < b \<and> b < 128)"

text \<open>Text in plain characters, which the library takes for valid, is shown byte for byte and in order, however the writing
  and the reading interleave: what was written is what is shown followed by what is in the pipe.\<close>

lemma log_received_plain:
  assumes "\<And>bs. plain bs \<Longrightarrow> val bs" "plain (lg_pipe s)"
  shows "lg_text (on_log_received val mk n s) @ lg_pipe (on_log_received val mk n s) = lg_text s @ lg_pipe s"
    "plain (lg_pipe (on_log_received val mk n s))"
proof -
  let ?n = "min (min n (length (lg_pipe s))) LOG_CHUNK"
  let ?buf = "take ?n (lg_pipe s)"
  have p: "plain ?buf" "plain (drop ?n (lg_pipe s))" using assms(2) by (auto simp: plain_def dest: in_set_takeD in_set_dropD)
  then have "takeWhile (\<lambda>b. b \<noteq> 0) ?buf = ?buf" by (auto simp: plain_def takeWhile_eq_all_conv)
  moreover have "val ?buf" using assms(1) p(1) .
  ultimately have r: "on_log_received val mk n s =
      (if ?n = 0 then s else s\<lparr>lg_pipe := drop ?n (lg_pipe s), lg_text := lg_text s @ ?buf\<rparr>)"
    unfolding on_log_received_def Let_def by (simp only: if_True)
  show "lg_text (on_log_received val mk n s) @ lg_pipe (on_log_received val mk n s) = lg_text s @ lg_pipe s"
    unfolding r by simp
  show "plain (lg_pipe (on_log_received val mk n s))" unfolding r using p(2) assms(2) by simp
qed

lemma log_shown:
  assumes "\<And>bs. plain bs \<Longrightarrow> val bs" "plain (written es)" "plain (lg_pipe s)"
  shows "lg_text (log_run val mk es s) @ lg_pipe (log_run val mk es s) = lg_text s @ lg_pipe s @ written es"
  using assms(2,3)
proof (induction es arbitrary: s)
  case (Cons e es)
  show ?case
  proof (cases e)
    case (Write line)
    then have "plain (written es)" "plain (lg_pipe (log_write line s))"
      using Cons.prems by (auto simp: plain_def log_write_def)
    then show ?thesis using Cons.IH[of "log_write line s"] Write by (simp add: log_write_def)
  next
    case (Ready n)
    then show ?thesis using Cons.IH[of "on_log_received val mk n s"] Cons.prems log_received_plain[of val s mk n] assms(1) by simp
  qed
qed simp

text \<open>Whatever is written, every piece shown is one the library takes for valid, if what it makes of a piece is.\<close>

lemma log_pieces_valid:
  assumes "\<And>bs. val (mk bs)" "\<And>bs. val bs \<Longrightarrow> 0 \<notin> set bs"
  shows "\<exists>piece. lg_text (on_log_received val mk n s) = lg_text s @ piece \<and> (piece = [] \<or> val piece)"
proof -
  define k where "k = min (min n (length (lg_pipe s))) LOG_CHUNK"
  let ?text = "if val (take k (lg_pipe s)) then take k (lg_pipe s) else mk (take k (lg_pipe s))"
  have v: "val ?text" using assms(1) by simp
  have tw: "takeWhile (\<lambda>b. b \<noteq> 0) bs = bs" if "0 \<notin> set bs" for bs :: bytes
    using that by (induction bs) auto
  have "on_log_received val mk n s = (if k = 0 then s
      else s\<lparr>lg_pipe := drop k (lg_pipe s), lg_text := lg_text s @ takeWhile (\<lambda>b. b \<noteq> 0) ?text\<rparr>)"
    unfolding on_log_received_def Let_def k_def ..
  then show ?thesis using v unfolding tw[OF assms(2)[OF v]] by (cases "k = 0") auto
qed

end
