(* ===== verification/Vpn_App.thy ===== *)
theory Vpn_App
  imports Sync_Prims
begin

text \<open>
  The client with a window: \<^verbatim>\<open>client/src/app/vpn_app.c\<close>, the handlers of
  \<^verbatim>\<open>gtk_app.c\<close>, \<^verbatim>\<open>window_main.c\<close> and \<^verbatim>\<open>view_controls.c\<close> that call it,
  and \<^verbatim>\<open>main\<close> of \<^verbatim>\<open>vpn_client_gtk.c\<close>. One thread runs the window, one more thread is
  created for every start of the engine. Their steps interleave; each use of the shared state is one step, as its
  mutex makes it. Whether the engine starts is open: every outcome is allowed. Of the widgets only the window and the
  text of its button are kept.
\<close>

section \<open>State\<close>

text \<open>Where the engine's thread is: before \<^verbatim>\<open>vpn_engine_start\<close>; after it, before the
  state is set; before the button is relabelled; in its loop; before the cleanup; before the last \<^verbatim>\<open>state_sync_set\<close>;
  before the button is relabelled again; at its end.\<close>

datatype engine_pc = ECreated | EFailed | EStarted | ELabelStop | ELoop | EClean | ELast | ELabelStart | EDone

text \<open>
  What the window's thread does when \<^verbatim>\<open>vpn_app_stop_engine\<close> returns. After a click it goes back to its
  loop. When the window is destroyed the application quits, and the handler of the shutdown stops the engine once
  more; then the loop has ended and \<^verbatim>\<open>vpn_app_destroy\<close> stops it a last time and frees the structure.
\<close>

datatype ui_after = Resume | Closed | Shutdown | Free

datatype ui_pc =
    UiInit | UiIdle | UiClick | UiClickStopped | UiStart | UiSetStarting | UiCreate
  | UiStop ui_after | UiCheckStarting ui_after | UiWait ui_after | UiSetStopping ui_after | UiJoin ui_after
  | UiFreed | UiUndefined

text \<open>\<^verbatim>\<open>vpn_app_t\<close>: \<open>a_window\<close> says whether \<^verbatim>\<open>main_window\<close> is set, \<open>a_label\<close> is the text of the button
  once there are controls. The last three fields are not the program's: the threads that have been joined, and the sessions
  made and cleaned up so far.\<close>

record app_sys =
  a_state :: state_sync_t
  a_session :: "nat option"
  a_thread :: "nat option"
  a_window :: bool
  a_label :: "string option"
  a_ui :: ui_pc
  a_engines :: "nat \<rightharpoonup> engine_pc"
  a_joined :: "nat set"
  a_made :: "nat list"
  a_cleaned :: "nat list"

abbreviation START_LABEL :: string where "START_LABEL \<equiv> ''Start VPN Engine''"
abbreviation STOP_LABEL :: string where "STOP_LABEL \<equiv> ''Stop VPN Engine''"

definition app_init :: app_sys where
  "app_init = \<lparr>a_state = \<lparr>ss_state = APP_STOPPED\<rparr>, a_session = None, a_thread = None, a_window = False, a_label = None,
     a_ui = UiInit, a_engines = Map.empty, a_joined = {}, a_made = [], a_cleaned = []\<rparr>"

text \<open>The result of the allocation is used before \<^verbatim>\<open>main\<close> looks at it.\<close>

definition vpn_app_create :: "bool \<Rightarrow> app_sys cres" where
  "vpn_app_create calloc_ok = (if calloc_ok then Ok app_init else Abort)"

section \<open>The engine's thread\<close>

abbreviation at_pc :: "nat \<Rightarrow> engine_pc \<Rightarrow> app_sys \<Rightarrow> app_sys" where
  "at_pc t pc s \<equiv> s\<lparr>a_engines := (a_engines s)(t \<mapsto> pc)\<rparr>"

text \<open>One step of \<^verbatim>\<open>engine_thread_routine\<close>. The argument is what the engine's start returns,
  a session not made before. \<^const>\<open>None\<close> when the thread has no step.\<close>

definition engine_thread_routine :: "nat option \<Rightarrow> nat \<Rightarrow> app_sys \<Rightarrow> app_sys option" where
  "engine_thread_routine start t s =
     (case a_engines s t of None \<Rightarrow> None
      | Some ECreated \<Rightarrow>
          (case start of None \<Rightarrow> Some (at_pc t EFailed (s\<lparr>a_session := None\<rparr>))
           | Some x \<Rightarrow> if x \<in> set (a_made s) then None
               else Some (at_pc t EStarted (s\<lparr>a_session := Some x, a_made := a_made s @ [x]\<rparr>)))
      | Some EFailed \<Rightarrow> Some (at_pc t EDone (s\<lparr>a_state := set_state APP_STOPPED (a_state s)\<rparr>))
      | Some EStarted \<Rightarrow> Some (at_pc t ELabelStop (s\<lparr>a_state := set_state APP_RUNNING (a_state s)\<rparr>))
      | Some ELabelStop \<Rightarrow> Some (at_pc t ELoop (s\<lparr>a_label := Some STOP_LABEL\<rparr>))
      | Some ELoop \<Rightarrow> Some (if in_state (a_state s) APP_RUNNING then s else at_pc t EClean s)
      | Some EClean \<Rightarrow>
          Some (at_pc t ELast (case a_session s of None \<Rightarrow> s
                               | Some x \<Rightarrow> s\<lparr>a_session := None, a_cleaned := a_cleaned s @ [x]\<rparr>))
      | Some ELast \<Rightarrow> Some (at_pc t ELabelStart (s\<lparr>a_state := set_state APP_STOPPED (a_state s)\<rparr>))
      | Some ELabelStart \<Rightarrow> Some (at_pc t EDone (s\<lparr>a_label := Some START_LABEL\<rparr>))
      | Some EDone \<Rightarrow> None)"

section \<open>The window's thread\<close>

text \<open>What the toolkit reports: the application is activated, the button clicked, the window closed, the application told
  to quit. \<open>NoLoop\<close> is a start that never comes to the loop: the process cannot be made a daemon, or another instance
  of the program takes the activation.\<close>

datatype ui_event = Activate | Click | Close | Quit | NoLoop

text \<open>\<^verbatim>\<open>view_controls_create\<close>, called by \<^verbatim>\<open>window_main_create\<close>, makes the button.\<close>

definition view_controls_create :: "app_sys \<Rightarrow> app_sys" where
  "view_controls_create s = s\<lparr>a_label := Some START_LABEL\<rparr>"

definition on_activate :: "app_sys \<Rightarrow> app_sys" where
  "on_activate s = (if a_window s then s else (view_controls_create s)\<lparr>a_window := True\<rparr>)"

text \<open>The end of a call of \<^verbatim>\<open>vpn_app_stop_engine\<close>: \<^verbatim>\<open>on_window_destroy\<close> and \<^verbatim>\<open>on_shutdown\<close> forget
  the window then.\<close>

fun ui_return :: "ui_after \<Rightarrow> ui_pc" where
  "ui_return Resume = UiIdle"
| "ui_return Closed = UiStop Shutdown"
| "ui_return Shutdown = UiStop Free"
| "ui_return Free = UiFreed"

definition ui_leave :: "ui_after \<Rightarrow> app_sys \<Rightarrow> app_sys" where
  "ui_leave k s = s\<lparr>a_ui := ui_return k, a_window := (a_window s \<and> k \<noteq> Closed \<and> k \<noteq> Shutdown)\<rparr>"

text \<open>\<^verbatim>\<open>vpn_app_start_engine\<close>; the result of \<^verbatim>\<open>pthread_create\<close> is not looked
  at. The number of a thread that is created is given, and not one of an earlier thread.\<close>

definition vpn_app_start_engine :: "nat option \<Rightarrow> ui_pc \<Rightarrow> app_sys \<Rightarrow> app_sys option" where
  "vpn_app_start_engine created pc s =
     (case pc of
        UiStart \<Rightarrow> Some (s\<lparr>a_ui := if in_state (a_state s) APP_STOPPED then UiSetStarting else UiIdle\<rparr>)
      | UiSetStarting \<Rightarrow> Some (s\<lparr>a_state := set_state APP_STARTING (a_state s), a_ui := UiCreate\<rparr>)
      | UiCreate \<Rightarrow>
          (case created of None \<Rightarrow> Some (s\<lparr>a_ui := UiIdle\<rparr>)
           | Some t \<Rightarrow> if a_engines s t \<noteq> None then None
               else Some (at_pc t ECreated (s\<lparr>a_thread := Some t, a_ui := UiIdle\<rparr>)))
      | _ \<Rightarrow> None)"

text \<open>\<^verbatim>\<open>vpn_app_stop_engine\<close>. The wait and the join have no step until what they wait for
  has happened; joining twice, or joining the zero handle, is undefined.\<close>

definition vpn_app_stop_engine :: "ui_pc \<Rightarrow> app_sys \<Rightarrow> app_sys option" where
  "vpn_app_stop_engine pc s =
     (case pc of
        UiStop k \<Rightarrow> Some (if in_state (a_state s) APP_STOPPED then ui_leave k s else s\<lparr>a_ui := UiCheckStarting k\<rparr>)
      | UiCheckStarting k \<Rightarrow> Some (s\<lparr>a_ui := if in_state (a_state s) APP_STARTING then UiWait k else UiSetStopping k\<rparr>)
      | UiWait k \<Rightarrow> if in_state (a_state s) APP_RUNNING then Some (s\<lparr>a_ui := UiSetStopping k\<rparr>) else None
      | UiSetStopping k \<Rightarrow> Some (s\<lparr>a_state := set_state APP_STOPPING (a_state s), a_ui := UiJoin k\<rparr>)
      | UiJoin k \<Rightarrow>
          (case a_thread s of None \<Rightarrow> Some (s\<lparr>a_ui := UiUndefined\<rparr>)
           | Some t \<Rightarrow>
             if t \<in> a_joined s then Some (s\<lparr>a_ui := UiUndefined\<rparr>)
             else if a_engines s t = Some EDone then Some (ui_leave k (s\<lparr>a_joined := insert t (a_joined s)\<rparr>))
             else None)
      | _ \<Rightarrow> None)"

text \<open>The handlers. A click or a close needs a window. A click tests the state twice.\<close>

definition ui_step :: "ui_event \<Rightarrow> nat option \<Rightarrow> app_sys \<Rightarrow> app_sys option" where
  "ui_step ev created s =
     (case a_ui s of
        UiInit \<Rightarrow> Some (s\<lparr>a_ui := if ev = NoLoop then UiStop Free else UiIdle\<rparr>)
      | UiIdle \<Rightarrow>
          (case ev of
             Activate \<Rightarrow> Some (on_activate s)
           | Click \<Rightarrow> if a_window s then Some (s\<lparr>a_ui := UiClick\<rparr>) else None
           | Close \<Rightarrow> if a_window s then Some (s\<lparr>a_ui := UiStop Closed\<rparr>) else None
           | Quit \<Rightarrow> Some (s\<lparr>a_ui := UiStop Shutdown\<rparr>)
           | NoLoop \<Rightarrow> None)
      | UiClick \<Rightarrow> Some (s\<lparr>a_ui := if in_state (a_state s) APP_RUNNING then UiStop Resume else UiClickStopped\<rparr>)
      | UiClickStopped \<Rightarrow> Some (s\<lparr>a_ui := if in_state (a_state s) APP_STOPPED then UiStart else UiIdle\<rparr>)
      | UiFreed \<Rightarrow> None
      | UiUndefined \<Rightarrow> None
      | pc \<Rightarrow> (case vpn_app_start_engine created pc s of Some s' \<Rightarrow> Some s' | None \<Rightarrow> vpn_app_stop_engine pc s))"

section \<open>Interleaving\<close>

inductive app_step :: "app_sys \<Rightarrow> app_sys \<Rightarrow> bool" where
  ui: "ui_step ev created s = Some s' \<Longrightarrow> app_step s s'"
| engine: "engine_thread_routine start t s = Some s' \<Longrightarrow> app_step s s'"

inductive_cases app_stepE: "app_step s s'"

inductive app_run :: "app_sys \<Rightarrow> app_sys \<Rightarrow> bool" where
  refl: "app_run s s"
| step: "app_run s s' \<Longrightarrow> app_step s' s'' \<Longrightarrow> app_run s s''"

section \<open>Invariant\<close>

definition live :: "app_sys \<Rightarrow> nat \<Rightarrow> bool" where
  "live s t \<longleftrightarrow> (\<exists>pc. a_engines s t = Some pc \<and> pc \<noteq> EDone)"

definition dead :: "app_sys \<Rightarrow> bool" where
  "dead s \<longleftrightarrow> (\<forall>t. \<not> live s t)"

fun joining :: "ui_pc \<Rightarrow> bool" where
  "joining (UiJoin k) \<longleftrightarrow> True"
| "joining _ \<longleftrightarrow> False"

text \<open>What the application has by the place its thread is at: the state, the session, the text of the button; and that
  the window waits for a thread that has been told to stop.\<close>

fun pc_ok :: "app_sys \<Rightarrow> engine_pc \<Rightarrow> bool" where
  "pc_ok s ECreated \<longleftrightarrow> ss_state (a_state s) = APP_STARTING \<and> a_session s = None \<and> a_label s = Some START_LABEL"
| "pc_ok s EFailed \<longleftrightarrow> ss_state (a_state s) = APP_STARTING \<and> a_session s = None \<and> a_label s = Some START_LABEL"
| "pc_ok s EStarted \<longleftrightarrow> ss_state (a_state s) = APP_STARTING \<and> a_session s \<noteq> None \<and> a_label s = Some START_LABEL"
| "pc_ok s ELabelStop \<longleftrightarrow> (ss_state (a_state s) = APP_RUNNING \<or> ss_state (a_state s) = APP_STOPPING \<and> joining (a_ui s)) \<and>
     a_session s \<noteq> None \<and> a_label s = Some START_LABEL"
| "pc_ok s ELoop \<longleftrightarrow> (ss_state (a_state s) = APP_RUNNING \<or> ss_state (a_state s) = APP_STOPPING \<and> joining (a_ui s)) \<and>
     a_session s \<noteq> None \<and> a_label s = Some STOP_LABEL"
| "pc_ok s EClean \<longleftrightarrow> ss_state (a_state s) = APP_STOPPING \<and> joining (a_ui s) \<and> a_session s \<noteq> None \<and> a_label s = Some STOP_LABEL"
| "pc_ok s ELast \<longleftrightarrow> ss_state (a_state s) = APP_STOPPING \<and> joining (a_ui s) \<and> a_session s = None \<and> a_label s = Some STOP_LABEL"
| "pc_ok s ELabelStart \<longleftrightarrow> ss_state (a_state s) = APP_STOPPED \<and> joining (a_ui s) \<and> a_session s = None \<and> a_label s = Some STOP_LABEL"
| "pc_ok s EDone \<longleftrightarrow> True"

text \<open>What the place of the window's thread says of the application.\<close>

definition after_ok :: "app_sys \<Rightarrow> ui_after \<Rightarrow> bool" where
  "after_ok s k \<longleftrightarrow> (k = Resume \<longrightarrow> a_window s) \<and> (k = Free \<longrightarrow> \<not> a_window s)"

fun ui_ok :: "app_sys \<Rightarrow> ui_pc \<Rightarrow> bool" where
  "ui_ok s UiInit \<longleftrightarrow> \<not> a_window s \<and> a_label s = None"
| "ui_ok s UiIdle \<longleftrightarrow> (a_label s \<noteq> None \<longrightarrow> a_window s)"
| "ui_ok s UiClick \<longleftrightarrow> a_window s"
| "ui_ok s UiClickStopped \<longleftrightarrow> a_window s"
| "ui_ok s UiStart \<longleftrightarrow> ss_state (a_state s) = APP_STOPPED \<and> dead s \<and> a_window s"
| "ui_ok s UiSetStarting \<longleftrightarrow> ss_state (a_state s) = APP_STOPPED \<and> dead s \<and> a_window s"
| "ui_ok s UiCreate \<longleftrightarrow> ss_state (a_state s) = APP_STARTING \<and> dead s \<and> a_window s"
| "ui_ok s (UiStop k) \<longleftrightarrow> after_ok s k"
| "ui_ok s (UiCheckStarting k) \<longleftrightarrow> after_ok s k"
| "ui_ok s (UiWait k) \<longleftrightarrow> after_ok s k"
| "ui_ok s (UiSetStopping k) \<longleftrightarrow> ss_state (a_state s) \<noteq> APP_STARTING \<and> after_ok s k"
| "ui_ok s (UiJoin k) \<longleftrightarrow> (ss_state (a_state s) = APP_STOPPING \<or> ss_state (a_state s) = APP_STOPPED) \<and> after_ok s k"
| "ui_ok s UiFreed \<longleftrightarrow> dead s \<and> \<not> a_window s"
| "ui_ok s UiUndefined \<longleftrightarrow> True"

abbreviation owned :: "nat option \<Rightarrow> nat list" where
  "owned sess \<equiv> case sess of None \<Rightarrow> [] | Some x \<Rightarrow> [x]"

text \<open>Every session made is cleaned up, in order and once, but the current one.\<close>

definition sessions_ok :: "nat list \<Rightarrow> nat list \<Rightarrow> nat option \<Rightarrow> bool" where
  "sessions_ok made cleaned sess \<longleftrightarrow> made = cleaned @ owned sess \<and> distinct made"

definition app_inv :: "app_sys \<Rightarrow> bool" where
  "app_inv s \<longleftrightarrow>
     (\<forall>t. live s t \<longrightarrow> a_thread s = Some t \<and> t \<notin> a_joined s \<and> pc_ok s (the (a_engines s t))) \<and>
     (dead s \<longrightarrow> a_session s = None \<and> ss_state (a_state s) \<noteq> APP_RUNNING \<and> a_label s \<noteq> Some STOP_LABEL) \<and>
     (\<forall>t. a_thread s = Some t \<longrightarrow> a_engines s t \<noteq> None) \<and>
     (\<forall>t\<in>a_joined s. a_engines s t = Some EDone) \<and>
     sessions_ok (a_made s) (a_cleaned s) (a_session s) \<and>
     (a_window s \<longrightarrow> a_label s \<noteq> None) \<and> a_label s \<in> {None, Some START_LABEL, Some STOP_LABEL} \<and> ui_ok s (a_ui s)"

lemma app_invD:
  assumes "app_inv s"
  shows "live s t \<Longrightarrow> a_thread s = Some t" "live s t \<Longrightarrow> t \<notin> a_joined s" "live s t \<Longrightarrow> pc_ok s (the (a_engines s t))"
    "dead s \<Longrightarrow> a_session s = None" "dead s \<Longrightarrow> ss_state (a_state s) \<noteq> APP_RUNNING" "dead s \<Longrightarrow> a_label s \<noteq> Some STOP_LABEL"
    "a_thread s = Some t \<Longrightarrow> a_engines s t \<noteq> None" "t \<in> a_joined s \<Longrightarrow> a_engines s t = Some EDone"
    "sessions_ok (a_made s) (a_cleaned s) (a_session s)" "a_window s \<Longrightarrow> a_label s \<noteq> None"
    "a_label s \<in> {None, Some START_LABEL, Some STOP_LABEL}" "ui_ok s (a_ui s)"
  using assms unfolding app_inv_def by (blast, blast, blast, blast, blast, blast, blast, blast, blast, blast, blast, blast)

lemma live_pc: "live s t \<Longrightarrow> \<exists>pc. a_engines s t = Some pc \<and> pc \<noteq> EDone"
  by (simp add: live_def)

text \<open>A thread at each of its places knows the text of the button.\<close>

lemma pc_ok_label: "pc_ok s pc \<Longrightarrow> pc \<noteq> EDone \<Longrightarrow> a_label s \<noteq> None"
  by (cases pc) auto

lemma dead_label: "app_inv s \<Longrightarrow> a_label s = None \<Longrightarrow> dead s"
  using app_invD(3)[of s] pc_ok_label[of s] unfolding dead_def live_def by (metis option.sel)

text \<open>A stopped application has no thread, unless the window is waiting for it.\<close>

lemma stopped_dead:
  assumes "app_inv s" "ss_state (a_state s) = APP_STOPPED" "\<not> joining (a_ui s)"
  shows "dead s"
proof -
  have "\<not> live s t" for t
  proof
    assume "live s t"
    then show False using app_invD(3)[OF assms(1), of t] assms(2,3) by (cases "the (a_engines s t)") (auto simp: live_def)
  qed
  then show ?thesis by (simp add: dead_def)
qed

text \<open>The window's thread moves on; it leaves its join only when no thread runs.\<close>

lemma ui_move_inv:
  assumes inv: "app_inv s" and "joining (a_ui s) \<longrightarrow> dead s" "w \<longrightarrow> a_window s" "ui_ok (s\<lparr>a_ui := u, a_window := w\<rparr>) u"
  shows "app_inv (s\<lparr>a_ui := u, a_window := w\<rparr>)"
proof -
  let ?s = "s\<lparr>a_ui := u, a_window := w\<rparr>"
  have lv: "live ?s = live s" "dead ?s = dead s" by (simp_all add: live_def fun_eq_iff dead_def)
  have "pc_ok ?s (the (a_engines s t))" if "live s t" for t
  proof -
    have "\<not> joining (a_ui s)" using assms(2) that by (auto simp: dead_def)
    then show ?thesis using app_invD(3)[OF inv that] by (cases "the (a_engines s t)") auto
  qed
  then show ?thesis using inv assms(3,4) unfolding app_inv_def lv by simp
qed

lemma ui_pc_inv:
  assumes "app_inv s" "joining (a_ui s) \<longrightarrow> dead s" "ui_ok (s\<lparr>a_ui := u\<rparr>) u"
  shows "app_inv (s\<lparr>a_ui := u\<rparr>)"
  using ui_move_inv[of s "a_window s" u] assms by simp

lemma init_inv: "app_inv app_init"
  by (simp add: app_inv_def app_init_def live_def dead_def sessions_ok_def)

text \<open>The invariant when no thread runs.\<close>

lemma app_inv_dead:
  assumes "dead s"
  shows "app_inv s \<longleftrightarrow> a_session s = None \<and> ss_state (a_state s) \<noteq> APP_RUNNING \<and> a_label s \<noteq> Some STOP_LABEL \<and>
    (\<forall>t. a_thread s = Some t \<longrightarrow> a_engines s t \<noteq> None) \<and> (\<forall>t\<in>a_joined s. a_engines s t = Some EDone) \<and>
    sessions_ok (a_made s) (a_cleaned s) (a_session s) \<and> (a_window s \<longrightarrow> a_label s \<noteq> None) \<and>
    a_label s \<in> {None, Some START_LABEL, Some STOP_LABEL} \<and> ui_ok s (a_ui s)"
proof -
  have "\<not> live s t" for t using assms by (simp add: dead_def)
  then show ?thesis unfolding app_inv_def using assms by blast
qed

lemma dead_upd [simp]:
  "dead (s\<lparr>a_ui := u\<rparr>) = dead s" "dead (s\<lparr>a_window := w\<rparr>) = dead s" "dead (s\<lparr>a_state := st\<rparr>) = dead s"
  "dead (s\<lparr>a_label := l\<rparr>) = dead s" "dead (s\<lparr>a_joined := j\<rparr>) = dead s"
  by (simp_all add: dead_def live_def)

lemma start_inv:
  assumes inv: "app_inv s" and st: "vpn_app_start_engine created (a_ui s) s = Some s'"
  shows "app_inv s'"
proof (cases "a_ui s")
  case UiStart
  then show ?thesis using st app_invD(12)[OF inv] ui_pc_inv[OF inv, of UiSetStarting] by (auto simp: vpn_app_start_engine_def)
next
  case UiSetStarting
  then have d: "dead s" "a_window s" using app_invD(12)[OF inv] by simp_all
  have "s' = s\<lparr>a_state := set_state APP_STARTING (a_state s), a_ui := UiCreate\<rparr>"
    using st UiSetStarting by (simp add: vpn_app_start_engine_def)
  then show ?thesis using inv d app_inv_dead[of s] app_inv_dead[of s'] by auto
next
  case UiCreate
  then have d: "ss_state (a_state s) = APP_STARTING" "dead s" "a_window s" using app_invD(12)[OF inv] by simp_all
  show ?thesis
  proof (cases created)
    case None
    then show ?thesis using st UiCreate d ui_pc_inv[OF inv, of UiIdle] by (auto simp: vpn_app_start_engine_def)
  next
    case (Some t)
    then have t: "a_engines s t = None" and s': "s' = at_pc t ECreated (s\<lparr>a_thread := Some t, a_ui := UiIdle\<rparr>)"
      using st UiCreate by (auto simp: vpn_app_start_engine_def split: if_splits)
    have "t \<notin> a_joined s" using app_invD(8)[OF inv] t by force
    moreover have "live s' u \<longleftrightarrow> u = t" for u using d(2) by (auto simp: s' live_def dead_def)
    moreover have "a_label s = Some START_LABEL" using app_invD(6,10,11)[OF inv] d by auto
    ultimately show ?thesis using inv d t unfolding app_inv_def by (auto simp: s' dead_def)
  qed
qed (use st in \<open>simp_all add: vpn_app_start_engine_def\<close>)

lemma leave_inv:
  assumes "app_inv s" "dead s" "after_ok s k"
  shows "app_inv (ui_leave k s)"
  unfolding ui_leave_def
  by (rule ui_move_inv[OF assms(1)]) (use assms in \<open>cases k; auto simp: after_ok_def app_invD(10)\<close>)+

lemma join_inv: "app_inv s \<Longrightarrow> a_engines s t = Some EDone \<Longrightarrow> dead s \<Longrightarrow> app_inv (s\<lparr>a_joined := insert t (a_joined s)\<rparr>)"
  using app_inv_dead[of s] app_inv_dead[of "s\<lparr>a_joined := insert t (a_joined s)\<rparr>"] by (cases "a_ui s") (auto simp: after_ok_def)

lemma stop_inv:
  assumes inv: "app_inv s" and st: "vpn_app_stop_engine (a_ui s) s = Some s'"
  shows "app_inv s'"
proof (cases "a_ui s")
  case (UiStop k)
  then have k: "after_ok s k" using app_invD(12)[OF inv] by simp
  show ?thesis
  proof (cases "ss_state (a_state s) = APP_STOPPED")
    case True
    then show ?thesis using st UiStop leave_inv[OF inv stopped_dead[OF inv True] k] by (simp add: vpn_app_stop_engine_def)
  next
    case False
    then show ?thesis using st UiStop k ui_pc_inv[OF inv, of "UiCheckStarting k"]
      by (auto simp: vpn_app_stop_engine_def after_ok_def)
  qed
next
  case (UiSetStopping k)
  then have ui: "ss_state (a_state s) \<noteq> APP_STARTING" "after_ok s k" using app_invD(12)[OF inv] by simp_all
  have s': "s' = s\<lparr>a_state := set_state APP_STOPPING (a_state s), a_ui := UiJoin k\<rparr>"
    using st UiSetStopping by (simp add: vpn_app_stop_engine_def)
  have lv: "live s' = live s" "dead s' = dead s" by (simp_all add: s' live_def fun_eq_iff dead_def)
  have "pc_ok s' (the (a_engines s t))" if "live s t" for t
    using app_invD(3)[OF inv that] ui UiSetStopping by (cases "the (a_engines s t)") (auto simp: s')
  then show ?thesis using inv ui(2) unfolding app_inv_def lv by (simp add: s' after_ok_def)
next
  case (UiJoin k)
  then have k: "after_ok s k" using app_invD(12)[OF inv] by simp
  have one: "dead s" if "\<not> (\<exists>t. a_thread s = Some t \<and> t \<notin> a_joined s \<and> a_engines s t \<noteq> Some EDone)"
    using that app_invD(1,2)[OF inv] unfolding dead_def live_def by (metis option.inject)
  show ?thesis
  proof (cases "s' = s\<lparr>a_ui := UiUndefined\<rparr>")
    case True
    then have "dead s" using st UiJoin one by (auto simp: vpn_app_stop_engine_def ui_leave_def split: option.splits if_splits)
    then show ?thesis using True ui_pc_inv[OF inv, of UiUndefined] by simp
  next
    case False
    then obtain t where t: "a_thread s = Some t" "a_engines s t = Some EDone"
      and s': "s' = ui_leave k (s\<lparr>a_joined := insert t (a_joined s)\<rparr>)"
      using st UiJoin by (auto simp: vpn_app_stop_engine_def split: option.splits if_splits)
    then have d: "dead s" using one by simp
    show ?thesis unfolding s' by (rule leave_inv[OF join_inv[OF inv t(2) d]]) (use d k in \<open>simp_all add: after_ok_def\<close>)
  qed
qed (use st app_invD(12)[OF inv] ui_pc_inv[OF inv] in \<open>auto simp: vpn_app_stop_engine_def after_ok_def split: if_splits\<close>)

lemma activate_inv:
  assumes inv: "app_inv s" and ui: "a_ui s = UiIdle"
  shows "app_inv (on_activate s)"
proof (cases "a_window s")
  case False
  then have "a_label s = None" using app_invD(12)[OF inv] ui by auto
  moreover from this have "dead s" by (rule dead_label[OF inv])
  moreover have "on_activate s = s\<lparr>a_label := Some START_LABEL, a_window := True\<rparr>"
    using False by (simp add: on_activate_def view_controls_create_def)
  ultimately show ?thesis using inv ui app_inv_dead[of s] app_inv_dead[of "on_activate s"] by auto
qed (use inv in \<open>simp add: on_activate_def\<close>)

lemma ui_step_inv:
  assumes inv: "app_inv s" and st: "ui_step ev created s = Some s'"
  shows "app_inv s'"
proof (cases "a_ui s")
  case UiInit
  then show ?thesis using st app_invD(12)[OF inv] ui_pc_inv[OF inv] by (auto simp: ui_step_def after_ok_def split: if_splits)
next
  case UiIdle
  note moves = activate_inv[OF inv UiIdle] ui_pc_inv[OF inv, of UiClick] ui_pc_inv[OF inv, of "UiStop Closed"]
    ui_pc_inv[OF inv, of "UiStop Shutdown"]
  show ?thesis using st UiIdle moves by (cases ev) (auto simp: ui_step_def after_ok_def split: if_splits)
next
  case UiClick
  then show ?thesis using st app_invD(12)[OF inv] ui_pc_inv[OF inv] by (auto simp: ui_step_def after_ok_def split: if_splits)
next
  case UiClickStopped
  then show ?thesis using st app_invD(12)[OF inv] stopped_dead[OF inv] ui_pc_inv[OF inv]
    by (auto simp: ui_step_def split: if_splits)
qed (use st start_inv[OF inv] stop_inv[OF inv] in \<open>auto simp: ui_step_def split: option.splits\<close>)

text \<open>A step of the running thread, to a place before its end or to its end.\<close>

definition same_threads :: "nat \<Rightarrow> app_sys \<Rightarrow> app_sys \<Rightarrow> bool" where
  "same_threads t s s' \<longleftrightarrow> (\<forall>u. u \<noteq> t \<longrightarrow> a_engines s' u = a_engines s u) \<and> a_thread s' = a_thread s \<and>
     a_joined s' = a_joined s \<and> a_ui s' = a_ui s \<and> a_window s' = a_window s"

text \<open>What the window's thread relies on survives the engine's steps: the state leaves starting only for running or stopped,
  and stopping only for stopped.\<close>

lemma ui_ok_moves:
  assumes "ui_ok s u" "\<not> dead s" "a_window s' = a_window s" "a_label s \<noteq> None"
    and "ss_state (a_state s') = ss_state (a_state s) \<or>
      ss_state (a_state s) = APP_STARTING \<and> ss_state (a_state s') = APP_RUNNING \<or>
      ss_state (a_state s') = APP_STOPPED \<and> (ss_state (a_state s) = APP_STARTING \<or> ss_state (a_state s) = APP_STOPPING)"
  shows "ui_ok s' u"
  using assms by (cases u) (auto simp: after_ok_def)

lemma engine_goes_on:
  assumes inv: "app_inv s" and lv: "live s t" and st: "same_threads t s s'" "a_engines s' t = Some pc" "pc \<noteq> EDone"
    and new: "pc_ok s' pc" "sessions_ok (a_made s') (a_cleaned s') (a_session s')"
      "a_label s' \<in> {Some START_LABEL, Some STOP_LABEL}" "ui_ok s' (a_ui s)"
  shows "app_inv s'"
proof -
  note cur = app_invD(1,2)[OF inv lv]
  have "u = t" if "live s' u" for u
    using that app_invD(1)[OF inv, of u] cur(1) st(1) by (cases "u = t") (auto simp: live_def same_threads_def)
  moreover have "\<not> dead s'" using st(2,3) by (auto simp: live_def dead_def)
  moreover have "a_engines s' u = Some EDone" if "u \<in> a_joined s" for u
    using app_invD(8)[OF inv that] cur(2) that st(1) by (auto simp: same_threads_def)
  ultimately show ?thesis using st cur new unfolding app_inv_def by (auto simp: same_threads_def)
qed

lemma engine_ends:
  assumes inv: "app_inv s" and lv: "live s t" and st: "same_threads t s s'" "a_engines s' t = Some EDone"
    and new: "ss_state (a_state s') = APP_STOPPED" "a_session s' = None" "a_session s = None" "a_made s' = a_made s"
      "a_cleaned s' = a_cleaned s" "a_label s' = Some START_LABEL" "ui_ok s' (a_ui s)"
  shows "app_inv s'"
proof -
  note cur = app_invD(1,2)[OF inv lv]
  have lv': "\<not> live s' u" for u
    using app_invD(1)[OF inv, of u] cur(1) st by (cases "u = t") (auto simp: live_def same_threads_def)
  moreover have "a_engines s' u = Some EDone" if "u \<in> a_joined s" for u
    using app_invD(8)[OF inv that] cur(2) that st(1) by (auto simp: same_threads_def)
  ultimately show ?thesis using st cur new app_invD(9)[OF inv] unfolding app_inv_def by (auto simp: same_threads_def)
qed

lemma engine_inv:
  assumes inv: "app_inv s" and st: "engine_thread_routine start t s = Some s'"
  shows "app_inv s'"
proof -
  obtain pc where pc: "a_engines s t = Some pc" "pc \<noteq> EDone"
    using st by (auto simp: engine_thread_routine_def split: option.splits engine_pc.splits)
  then have lv: "live s t" by (simp add: live_def)
  then have nd: "\<not> dead s" by (auto simp: dead_def)
  have ok: "pc_ok s pc" using app_invD(3)[OF inv lv] pc(1) by simp
  have st': "same_threads t s s'"
    using st pc(1) by (cases pc) (auto simp: engine_thread_routine_def same_threads_def split: option.splits if_splits)
  have win: "a_window s' = a_window s" using st' by (simp add: same_threads_def)
  note ui = ui_ok_moves[OF app_invD(12)[OF inv] nd win pc_ok_label[OF ok pc(2)]]
  note on = engine_goes_on[OF inv lv st'] and off = engine_ends[OF inv lv st'] and own = app_invD(9)[OF inv, unfolded sessions_ok_def]
  have ui': "ui_ok s' (a_ui s)"
    by (rule ui) (use st pc ok in \<open>cases pc; auto simp: engine_thread_routine_def split: option.splits if_splits\<close>)
  show ?thesis
  proof (cases pc)
    case ECreated
    then show ?thesis using st pc ok ui' own
      by (intro on[of "if start = None then EFailed else EStarted"])
        (auto simp: engine_thread_routine_def sessions_ok_def split: option.splits if_splits)
  next
    case EFailed
    then show ?thesis using st pc ok ui' by (intro off) (auto simp: engine_thread_routine_def)
  next
    case EStarted
    then show ?thesis using st pc ok ui' own by (intro on[of ELabelStop]) (auto simp: engine_thread_routine_def sessions_ok_def)
  next
    case ELabelStop
    then show ?thesis using st pc ok ui' own by (intro on[of ELoop]) (auto simp: engine_thread_routine_def sessions_ok_def)
  next
    case ELoop
    show ?thesis
    proof (cases "s' = s")
      case False
      then show ?thesis using ELoop st pc ok ui' own
        by (intro on[of EClean]) (auto simp: engine_thread_routine_def sessions_ok_def split: if_splits)
    qed (use inv in simp)
  next
    case EClean
    then show ?thesis using st pc ok ui' own by (intro on[of ELast]) (auto simp: engine_thread_routine_def sessions_ok_def)
  next
    case ELast
    then show ?thesis using st pc ok ui' own by (intro on[of ELabelStart]) (auto simp: engine_thread_routine_def sessions_ok_def)
  next
    case ELabelStart
    then show ?thesis using st pc ok ui' by (intro off) (auto simp: engine_thread_routine_def)
  qed (use pc in simp)
qed

lemma app_run_inv: "app_run s s' \<Longrightarrow> app_inv s \<Longrightarrow> app_inv s'"
  by (induction rule: app_run.induct) (auto elim!: app_stepE intro: ui_step_inv engine_inv)

section \<open>Properties\<close>

text \<open>How far the thread is from its end once it has been told to stop.\<close>

fun steps_left :: "engine_pc \<Rightarrow> nat" where
  "steps_left ELabelStop = 5"
| "steps_left ELoop = 4"
| "steps_left EClean = 3"
| "steps_left ELast = 2"
| "steps_left ELabelStart = 1"
| "steps_left EDone = 0"
| "steps_left _ = 6"

text \<open>The steps the thread takes alone.\<close>

fun run_engine :: "nat \<Rightarrow> nat \<Rightarrow> app_sys \<Rightarrow> app_sys" where
  "run_engine t 0 s = s"
| "run_engine t (Suc n) s = (case engine_thread_routine None t s of None \<Rightarrow> s | Some s' \<Rightarrow> run_engine t n s')"

definition told_to_stop :: "app_sys \<Rightarrow> bool" where
  "told_to_stop s \<longleftrightarrow> joining (a_ui s) \<and> (ss_state (a_state s) = APP_STOPPING \<or> ss_state (a_state s) = APP_STOPPED)"

lemma stop_steps:
  assumes "app_inv s" "a_engines s t = Some pc" "pc \<noteq> EDone" "told_to_stop s"
  shows "\<exists>s' pc'. engine_thread_routine None t s = Some s' \<and> a_engines s' t = Some pc' \<and> Suc (steps_left pc') = steps_left pc \<and>
    told_to_stop s' \<and> (pc' = EDone \<longrightarrow> ss_state (a_state s') = APP_STOPPED) \<and>
    a_ui s' = a_ui s \<and> a_thread s' = a_thread s \<and> a_joined s' = a_joined s"
proof -
  have "pc_ok s pc" using app_invD(3)[OF assms(1), of t] assms(2,3) by (simp add: live_def)
  then show ?thesis using assms(2-4) by (cases pc) (auto simp: engine_thread_routine_def told_to_stop_def)
qed

lemma run_engine_ends:
  assumes "app_inv s" "a_engines s t = Some pc" "pc \<noteq> EDone" "told_to_stop s" "steps_left pc \<le> n"
  shows "a_engines (run_engine t n s) t = Some EDone \<and> ss_state (a_state (run_engine t n s)) = APP_STOPPED \<and>
    a_ui (run_engine t n s) = a_ui s \<and> a_thread (run_engine t n s) = a_thread s \<and> a_joined (run_engine t n s) = a_joined s \<and>
    app_inv (run_engine t n s)"
  using assms
proof (induction n arbitrary: s pc)
  case 0
  then show ?case by (cases pc) auto
next
  case (Suc n)
  obtain s' pc' where s': "engine_thread_routine None t s = Some s'" "a_engines s' t = Some pc'"
    "Suc (steps_left pc') = steps_left pc" "told_to_stop s'" "pc' = EDone \<longrightarrow> ss_state (a_state s') = APP_STOPPED"
    "a_ui s' = a_ui s" "a_thread s' = a_thread s" "a_joined s' = a_joined s"
    using stop_steps[OF Suc.prems(1-4)] by blast
  have inv: "app_inv s'" using engine_inv[OF Suc.prems(1) s'(1)] .
  show ?case
  proof (cases "pc' = EDone")
    case True
    then have "run_engine t n s' = s'" using s'(2) by (cases n) (auto simp: engine_thread_routine_def)
    then show ?thesis using s' True inv by simp
  next
    case False
    then show ?thesis using Suc.IH[OF inv s'(2) False s'(4)] s' Suc.prems(5) by simp
  qed
qed

lemma run_engine_label: "a_label s \<noteq> None \<Longrightarrow> a_label (run_engine t n s) \<noteq> None"
proof (induction n arbitrary: s)
  case (Suc n)
  have "a_label s' \<noteq> None" if "engine_thread_routine None t s = Some s'" for s'
    using that Suc.prems by (auto simp: engine_thread_routine_def split: option.splits engine_pc.splits if_splits)
  then show ?case using Suc by (auto split: option.splits)
qed simp

text \<open>A window that waits for its thread gets it.\<close>

lemma join_returns:
  assumes inv: "app_inv s" and w: "a_ui s = UiJoin k" "live s t"
  shows "ss_state (a_state (run_engine t 5 s)) = APP_STOPPED \<and>
    (\<exists>s'. ui_step ev c (run_engine t 5 s) = Some s' \<and> a_ui s' = ui_return k \<and> a_session s' = None \<and> a_label s' = Some START_LABEL)"
proof -
  obtain pc where pc: "a_engines s t = Some pc" "pc \<noteq> EDone" using live_pc[OF w(2)] by blast
  have st: "told_to_stop s" using app_invD(12)[OF inv] w(1) by (simp add: told_to_stop_def)
  have "pc_ok s pc" using app_invD(3)[OF inv w(2)] pc by simp
  then have "steps_left pc \<le> 5" "a_label s \<noteq> None" using pc(2) st by (cases pc; auto simp: told_to_stop_def)+
  note r = run_engine_ends[OF inv pc st this(1)]
  let ?s = "run_engine t 5 s"
  have th: "a_thread ?s = Some t" "t \<notin> a_joined ?s" using r app_invD(1,2)[OF inv w(2)] by simp_all
  have lv: "\<not> live ?s u" for u using app_invD(1)[of ?s u] r th(1) live_pc[of ?s u] by force
  then have d: "dead ?s" by (simp add: dead_def)
  have "a_label ?s \<noteq> None" using run_engine_label[of s t 5] \<open>a_label s \<noteq> None\<close> by simp
  then have "a_session ?s = None" "a_label ?s = Some START_LABEL" using app_invD(4,6,11)[of ?s] r d by auto
  moreover have "a_ui ?s = UiJoin k" "a_engines ?s t = Some EDone" "ss_state (a_state ?s) = APP_STOPPED" using r w(1) by simp_all
  ultimately show ?thesis using th
    by (simp add: ui_step_def vpn_app_start_engine_def vpn_app_stop_engine_def ui_leave_def)
qed

text \<open>
  C12. The life of the client's engine. However the window's thread and the engine's threads interleave, whatever is
  clicked, closed or quit, and whether or not the engine starts: never is more than one engine thread running; every session made
  has been cleaned up exactly once, except the current one, and there is a current one only while its thread runs;
  an application that has been freed, or that says it is stopped while its window is not waiting for a thread, has neither;
  a running thread finds the button it relabels, and without one the button offers to start. When the window has told
  the engine to stop and waits for its thread, the thread ends after at most five steps of its own, the
  state says stopped, and the join returns.
\<close>

theorem vpn_app_lifecycle:
  assumes "app_run app_init s"
  shows "(live s t \<and> live s u \<longrightarrow> t = u) \<and>
    distinct (a_made s) \<and> a_made s = a_cleaned s @ owned (a_session s) \<and>
    (a_session s \<noteq> None \<longrightarrow> (\<exists>t. live s t)) \<and>
    (ss_state (a_state s) = APP_STOPPED \<and> \<not> joining (a_ui s) \<or> a_ui s = UiFreed \<longrightarrow> a_session s = None \<and> \<not> live s t) \<and>
    (live s t \<longrightarrow> a_label s \<noteq> None) \<and> ((\<forall>t. \<not> live s t) \<longrightarrow> a_label s \<in> {None, Some START_LABEL}) \<and>
    (a_ui s = UiJoin k \<and> live s t \<longrightarrow>
      ss_state (a_state (run_engine t 5 s)) = APP_STOPPED \<and>
      (\<exists>s'. ui_step ev c (run_engine t 5 s) = Some s' \<and> a_ui s' = ui_return k \<and> a_session s' = None \<and> a_label s' = Some START_LABEL))"
proof -
  have inv: "app_inv s" using app_run_inv[OF assms init_inv] .
  have one: "live s t \<and> live s u \<longrightarrow> t = u" using app_invD(1)[OF inv] by (metis option.inject)
  have stopped: "a_session s = None \<and> \<not> live s t"
    if "ss_state (a_state s) = APP_STOPPED \<and> \<not> joining (a_ui s) \<or> a_ui s = UiFreed"
  proof -
    have "dead s" using that stopped_dead[OF inv] app_invD(12)[OF inv] by auto
    then show ?thesis using app_invD(4)[OF inv] by (simp add: dead_def)
  qed
  have sess: "a_session s \<noteq> None \<longrightarrow> (\<exists>t. live s t)" using app_invD(4)[OF inv] unfolding dead_def by metis
  have label: "live s t \<longrightarrow> a_label s \<noteq> None" using dead_label[OF inv] by (auto simp: dead_def)
  have idle: "(\<forall>t. \<not> live s t) \<longrightarrow> a_label s \<in> {None, Some START_LABEL}" using app_invD(6,11)[OF inv] by (auto simp: dead_def)
  have "distinct (a_made s)" "a_made s = a_cleaned s @ owned (a_session s)"
    using app_invD(9)[OF inv] unfolding sessions_ok_def by blast+
  then show ?thesis using one stopped sess label idle join_returns[OF inv, of k t ev c] by blast
qed

text \<open>Runs given by their events.\<close>

datatype app_event = Ui ui_event "nat option" | Engine "nat option" nat

fun app_exec :: "app_event list \<Rightarrow> app_sys \<Rightarrow> app_sys option" where
  "app_exec [] s = Some s"
| "app_exec (Ui ev c # es) s = (case ui_step ev c s of None \<Rightarrow> None | Some s' \<Rightarrow> app_exec es s')"
| "app_exec (Engine r t # es) s = (case engine_thread_routine r t s of None \<Rightarrow> None | Some s' \<Rightarrow> app_exec es s')"

lemma app_run_trans: "app_run s' s'' \<Longrightarrow> app_run s s' \<Longrightarrow> app_run s s''"
  by (induction rule: app_run.induct) (auto intro: app_run.step)

lemma app_step_run: "app_step s s' \<Longrightarrow> app_run s' s'' \<Longrightarrow> app_run s s''"
  using app_run_trans[of s' s'' s] app_run.step[OF app_run.refl] by blast

lemma app_exec_run: "app_exec es s = Some s' \<Longrightarrow> app_run s s'"
  by (induction es s rule: app_exec.induct)
    (auto split: option.splits intro: app_run.refl app_step_run app_step.intros)

text \<open>The application is activated, the button pressed and a thread created.\<close>

definition demo_start :: "app_event list" where
  "demo_start = replicate 2 (Ui Activate None) @ replicate 5 (Ui Click None) @ [Ui Click (Some 7)]"

lemmas app_eval = demo_start_def app_init_def ui_step_def vpn_app_start_engine_def vpn_app_stop_engine_def
  engine_thread_routine_def on_activate_def view_controls_create_def ui_leave_def numeral_eq_Suc

theorem vpn_app_lifecycle_witness:
  "\<exists>s s'. app_exec (demo_start @ [Engine (Some 100) 7, Engine None 7] @ replicate 5 (Ui Click None)) app_init = Some s \<and>
     a_ui s = UiJoin Resume \<and> live s 7 \<and> ui_step Click None (run_engine 7 5 s) = Some s' \<and> a_ui s' = UiIdle \<and> a_session s' = None"
proof -
  let ?es = "demo_start @ [Engine (Some 100) 7, Engine None 7] @ replicate 5 (Ui Click None)"
  obtain s where s: "app_exec ?es app_init = Some s" "a_ui s = UiJoin Resume" "a_thread s = Some 7" "7 \<notin> a_joined s"
    "a_engines s 7 = Some ELabelStop" by (simp add: app_eval)
  then have "live s 7" by (simp add: live_def)
  then show ?thesis
    using s vpn_app_lifecycle[OF app_exec_run[OF s(1)], of 7 7 Resume Click None] by auto
qed

text \<open>
  C38. Leaving while the engine starts. If the window is closed while the engine is starting
  and the engine then fails to start, the window's thread waits for a running engine that never comes:
  from then on nothing in the program has a step. If the failure comes in between the two tests of
  \<^verbatim>\<open>vpn_app_stop_engine\<close>, the state is overwritten with stopping and the thread joined
  twice, which is undefined.
\<close>

lemma dead_wait_stuck:
  assumes "app_inv s" "a_ui s = UiWait k" "dead s" "app_run s s'"
  shows "s' = s"
  using assms(4,1-3)
proof (induction rule: app_run.induct)
  case (step s s' s'')
  then have s': "s' = s" by blast
  have "ss_state (a_state s) \<noteq> APP_RUNNING" using app_invD(5) step.prems by blast
  then have "ui_step ev c s = None" for ev c
    using step.prems(2) by (simp add: ui_step_def vpn_app_start_engine_def vpn_app_stop_engine_def)
  moreover have "engine_thread_routine r t s = None" for r t
    using step.prems(3) by (auto simp: engine_thread_routine_def dead_def live_def split: option.splits engine_pc.splits)
  ultimately show ?case using step.hyps(2) s' by (auto elim: app_stepE)
qed simp

theorem vpn_app_quit_races:
  "(\<exists>s. app_run app_init s \<and> a_ui s = UiWait Closed \<and> ss_state (a_state s) = APP_STOPPED \<and>
      (\<forall>s'. app_run s s' \<longrightarrow> s' = s)) \<and>
   (\<exists>s. app_run app_init s \<and> ss_state (a_state s) = APP_STOPPING \<and> a_ui s = UiUndefined)"
proof
  let ?es = "demo_start @ replicate 3 (Ui Close None) @ [Engine None 7, Engine None 7]"
  obtain s where s: "app_exec ?es app_init = Some s" "a_ui s = UiWait Closed" "ss_state (a_state s) = APP_STOPPED"
    by (simp add: app_eval)
  then have run: "app_run app_init s" by (intro app_exec_run)
  then have inv: "app_inv s" using app_run_inv init_inv by blast
  have "dead s" using stopped_dead[OF inv s(3)] s(2) by simp
  then show "\<exists>s. app_run app_init s \<and> a_ui s = UiWait Closed \<and> ss_state (a_state s) = APP_STOPPED \<and>
      (\<forall>s'. app_run s s' \<longrightarrow> s' = s)"
    using run s dead_wait_stuck[OF inv s(2)] by blast
next
  let ?es = "demo_start @ replicate 2 (Ui Close None) @ [Engine None 7, Engine None 7] @ replicate 7 (Ui Close None)"
  obtain s where "app_exec ?es app_init = Some s" "ss_state (a_state s) = APP_STOPPING" "a_ui s = UiUndefined"
    by (simp add: app_eval)
  then show "\<exists>s. app_run app_init s \<and> ss_state (a_state s) = APP_STOPPING \<and> a_ui s = UiUndefined"
    using app_exec_run by blast
qed

text \<open>So there is a state of the waiting window with no step to the one that goes on.\<close>

theorem vpn_app_quit_races_witness:
  "\<exists>s. app_run app_init s \<and> a_ui s = UiWait Closed \<and> \<not> app_step s (s\<lparr>a_ui := UiSetStopping Closed\<rparr>)"
proof -
  from vpn_app_quit_races obtain s where s: "app_run app_init s" "a_ui s = UiWait Closed" "\<forall>s'. app_run s s' \<longrightarrow> s' = s"
    by blast
  have "s\<lparr>a_ui := UiSetStopping Closed\<rparr> \<noteq> s"
  proof
    assume "s\<lparr>a_ui := UiSetStopping Closed\<rparr> = s"
    then have "a_ui (s\<lparr>a_ui := UiSetStopping Closed\<rparr>) = a_ui s" by simp
    then show False using s(2) by simp
  qed
  then show ?thesis using s app_run.intros by blast
qed

end
