(* ===== verification/Headless.thy ===== *)
theory Headless
  imports Prelude
begin

text \<open>
  The client without a window, \<^verbatim>\<open>client/src/vpn_client_headless.c\<close>: one thread runs the engine,
  the main thread waits for its start, then for a signal, stops it, joins it and cleans up. The steps of the two
  interleave; a section under the mutex is one step, and so is an atomic access.
\<close>

section \<open>State\<close>

text \<open>Where the engine's thread is: before \<^verbatim>\<open>vpn_engine_start\<close>; before it reports; before it says
  that it runs; in its loop; at its end.\<close>

datatype worker_pc = WStart | WReport | WStore | WLoop | WEnd

datatype main_pc = MCreate | MWait | MJoinFailed | MSigwait | MStore | MJoin | MClean | MExit int

text \<open>The static variables of the file; the last two fields record the sessions made and cleaned up.\<close>

record headless =
  vpn_engine_ctx :: "nat option"
  vpn_engine_start_done :: bool
  vpn_engine_start_success :: bool
  vpn_engine_running :: bool
  h_worker :: "worker_pc option"
  h_main :: main_pc
  h_made :: "nat list"
  h_cleaned :: "nat list"

definition headless_init :: headless where
  "headless_init = \<lparr>vpn_engine_ctx = None, vpn_engine_start_done = False, vpn_engine_start_success = False,
     vpn_engine_running = False, h_worker = None, h_main = MCreate, h_made = [], h_cleaned = []\<rparr>"

section \<open>The two threads\<close>

text \<open>The argument is what the engine's start returns. \<^const>\<open>None\<close> when the thread has no step.\<close>

definition headless_engine_thread :: "nat option \<Rightarrow> headless \<Rightarrow> headless option" where
  "headless_engine_thread start s =
     (case h_worker s of
        Some WStart \<Rightarrow> Some (s\<lparr>vpn_engine_ctx := start, h_worker := Some WReport,
                               h_made := h_made s @ (case start of None \<Rightarrow> [] | Some x \<Rightarrow> [x])\<rparr>)
      | Some WReport \<Rightarrow> Some (s\<lparr>vpn_engine_start_done := True, vpn_engine_start_success := (vpn_engine_ctx s \<noteq> None),
                                h_worker := Some (if vpn_engine_ctx s = None then WEnd else WStore)\<rparr>)
      | Some WStore \<Rightarrow> Some (s\<lparr>vpn_engine_running := True, h_worker := Some WLoop\<rparr>)
      | Some WLoop \<Rightarrow> Some (if vpn_engine_running s then s else s\<lparr>h_worker := Some WEnd\<rparr>)
      | _ \<Rightarrow> None)"

text \<open>The argument says whether the thread can be created. The wait for the report and the joins have no step until what
  they wait for has happened; a signal may come at any time.\<close>

definition headless_main :: "bool \<Rightarrow> headless \<Rightarrow> headless option" where
  "headless_main create_ok s =
     (case h_main s of
        MCreate \<Rightarrow> Some (if create_ok then s\<lparr>h_worker := Some WStart, h_main := MWait\<rparr> else s\<lparr>h_main := MExit 1\<rparr>)
      | MWait \<Rightarrow>
          if \<not> vpn_engine_start_done s then None
          else Some (s\<lparr>h_main := if vpn_engine_start_success s then MSigwait else MJoinFailed\<rparr>)
      | MJoinFailed \<Rightarrow> if h_worker s = Some WEnd then Some (s\<lparr>h_main := MExit 1\<rparr>) else None
      | MSigwait \<Rightarrow> Some (s\<lparr>h_main := MStore\<rparr>)
      | MStore \<Rightarrow> Some (s\<lparr>vpn_engine_running := False, h_main := MJoin\<rparr>)
      | MJoin \<Rightarrow> if h_worker s = Some WEnd then Some (s\<lparr>h_main := MClean\<rparr>) else None
      | MClean \<Rightarrow> Some (s\<lparr>h_cleaned := h_cleaned s @ (case vpn_engine_ctx s of None \<Rightarrow> [] | Some x \<Rightarrow> [x]), h_main := MExit 0\<rparr>)
      | MExit code \<Rightarrow> None)"

inductive headless_step :: "headless \<Rightarrow> headless \<Rightarrow> bool" where
  main: "headless_main create_ok s = Some s' \<Longrightarrow> headless_step s s'"
| worker: "headless_engine_thread start s = Some s' \<Longrightarrow> headless_step s s'"

inductive_cases headless_stepE: "headless_step s s'"

inductive headless_run :: "headless \<Rightarrow> headless \<Rightarrow> bool" where
  refl: "headless_run s s"
| step: "headless_run s s' \<Longrightarrow> headless_step s' s'' \<Longrightarrow> headless_run s s''"

section \<open>Invariant\<close>

text \<open>What the worker has done by the place it is at.\<close>

fun worker_inv :: "headless \<Rightarrow> worker_pc option \<Rightarrow> bool" where
  "worker_inv s None \<longleftrightarrow> vpn_engine_ctx s = None \<and> h_made s = [] \<and> \<not> vpn_engine_start_done s"
| "worker_inv s (Some WStart) \<longleftrightarrow> vpn_engine_ctx s = None \<and> h_made s = [] \<and> \<not> vpn_engine_start_done s"
| "worker_inv s (Some WReport) \<longleftrightarrow> h_made s = (case vpn_engine_ctx s of None \<Rightarrow> [] | Some x \<Rightarrow> [x]) \<and> \<not> vpn_engine_start_done s"
| "worker_inv s (Some WEnd) \<longleftrightarrow> h_made s = (case vpn_engine_ctx s of None \<Rightarrow> [] | Some x \<Rightarrow> [x]) \<and> vpn_engine_start_done s \<and>
     vpn_engine_start_success s = (vpn_engine_ctx s \<noteq> None)"
| "worker_inv s (Some _) \<longleftrightarrow> (\<exists>x. vpn_engine_ctx s = Some x \<and> h_made s = [x]) \<and> vpn_engine_start_done s \<and> vpn_engine_start_success s"

definition stopping :: "main_pc \<Rightarrow> bool" where
  "stopping pc \<longleftrightarrow> pc \<in> {MSigwait, MStore, MJoin, MClean, MExit 0}"

definition main_inv :: "headless \<Rightarrow> bool" where
  "main_inv s \<longleftrightarrow>
     (h_main s = MCreate \<longrightarrow> h_worker s = None) \<and> (h_main s = MWait \<longrightarrow> h_worker s \<noteq> None) \<and>
     (stopping (h_main s) \<longrightarrow> vpn_engine_start_done s \<and> vpn_engine_start_success s) \<and>
     (h_main s = MJoinFailed \<longrightarrow> vpn_engine_start_done s \<and> \<not> vpn_engine_start_success s) \<and>
     (h_main s \<in> {MClean, MExit 0} \<longrightarrow> h_worker s = Some WEnd) \<and>
     (\<forall>code. h_main s = MExit code \<longrightarrow> code = 0 \<or> code = 1 \<and> (h_worker s = None \<or> h_worker s = Some WEnd \<and> vpn_engine_ctx s = None)) \<and>
     h_cleaned s = (if h_main s = MExit 0 then h_made s else [])"

definition headless_inv :: "headless \<Rightarrow> bool" where
  "headless_inv s \<longleftrightarrow> worker_inv s (h_worker s) \<and> main_inv s"

lemma headless_init_inv: "headless_inv headless_init"
  by (simp add: headless_inv_def headless_init_def main_inv_def stopping_def)

lemma worker_step_inv:
  assumes "headless_engine_thread start s = Some s'" "headless_inv s"
  shows "headless_inv s'"
proof -
  obtain w where w: "h_worker s = Some w" using assms(1) by (auto simp: headless_engine_thread_def split: option.splits)
  note defs = headless_engine_thread_def headless_inv_def main_inv_def stopping_def
  show ?thesis
  proof (cases w)
    case WStart
    then show ?thesis using assms w by (cases start; simp add: defs; elim conjE; hypsubst; simp)
  next
    case WReport
    then show ?thesis using assms w by (cases "vpn_engine_ctx s"; simp add: defs; elim conjE; hypsubst; simp)
  next
    case WStore
    then show ?thesis using assms w by (simp add: defs; elim conjE; hypsubst; simp)
  next
    case WLoop
    then show ?thesis using assms w by (cases "vpn_engine_running s"; simp add: defs; elim conjE exE; hypsubst; simp)
  next
    case WEnd
    then show ?thesis using assms w by (simp add: defs)
  qed
qed

lemma worker_inv_main:
  "worker_inv (s\<lparr>h_main := pc\<rparr>) w = worker_inv s w" "worker_inv (s\<lparr>vpn_engine_running := b\<rparr>) w = worker_inv s w"
  "worker_inv (s\<lparr>h_cleaned := cs\<rparr>) w = worker_inv s w" "worker_inv (s\<lparr>h_worker := v\<rparr>) w = worker_inv s w"
  by (cases "(s, w)" rule: worker_inv.cases; simp)+

lemma worker_ended: "worker_inv s (Some WEnd) \<Longrightarrow> vpn_engine_start_success s \<Longrightarrow> \<exists>x. vpn_engine_ctx s = Some x \<and> h_made s = [x]"
  by (auto split: option.splits)

lemma main_step_inv:
  assumes "headless_main ok s = Some s'" "headless_inv s"
  shows "headless_inv s'"
proof (cases "h_main s")
  case MClean
  then have "h_worker s = Some WEnd" "worker_inv s (Some WEnd)" "vpn_engine_start_success s" "vpn_engine_start_done s" "h_cleaned s = []"
    using assms(2) by (auto simp: headless_inv_def main_inv_def stopping_def)
  then show ?thesis using assms(1) MClean worker_ended[of s]
    by (auto simp: headless_main_def headless_inv_def main_inv_def stopping_def)
next
  case MJoinFailed
  then show ?thesis using assms
    by (auto simp: headless_main_def headless_inv_def main_inv_def stopping_def worker_inv_main split: if_splits option.splits)
qed (use assms in \<open>auto simp: headless_main_def headless_inv_def main_inv_def stopping_def worker_inv_main split: if_splits\<close>)

lemma headless_run_inv: "headless_run s s' \<Longrightarrow> headless_inv s \<Longrightarrow> headless_inv s'"
  by (induction rule: headless_run.induct) (auto elim!: headless_stepE intro: worker_step_inv main_step_inv)

section \<open>The stop that is lost\<close>

definition stop_lost :: "headless \<Rightarrow> bool" where
  "stop_lost s \<longleftrightarrow> h_main s = MJoin \<and> h_worker s = Some WLoop \<and> vpn_engine_running s"

lemma stop_lost_stays: "headless_run s s' \<Longrightarrow> stop_lost s \<Longrightarrow> s' = s"
  by (induction rule: headless_run.induct)
    (auto elim!: headless_stepE simp: stop_lost_def headless_main_def headless_engine_thread_def)

lemma main_move: "headless_run a s \<Longrightarrow> headless_main ok s \<noteq> None \<Longrightarrow> headless_run a (the (headless_main ok s))"
  by (metis headless_run.step headless_step.main option.collapse)

lemma worker_move: "headless_run a s \<Longrightarrow> headless_engine_thread st s \<noteq> None \<Longrightarrow> headless_run a (the (headless_engine_thread st s))"
  by (metis headless_run.step headless_step.worker option.collapse)

definition demo_lost :: headless where
  "demo_lost = \<lparr>vpn_engine_ctx = Some 1, vpn_engine_start_done = True, vpn_engine_start_success = True,
     vpn_engine_running = True, h_worker = Some WLoop, h_main = MJoin, h_made = [1], h_cleaned = []\<rparr>"

text \<open>The signal is pending when the start is reported: main stores its flag first, the worker stores its own after it.\<close>

lemma stop_lost_reachable: "headless_run headless_init demo_lost"
proof -
  let ?m = "\<lambda>s. the (headless_main True s)" and ?w = "\<lambda>s. the (headless_engine_thread (Some 1) s)"
  have "headless_run headless_init (?w (?m (?m (?m (?w (?w (?m headless_init)))))))"
    by (intro main_move worker_move headless_run.refl) (simp_all add: headless_init_def headless_main_def headless_engine_thread_def)
  then show ?thesis by (simp add: headless_init_def headless_main_def headless_engine_thread_def demo_lost_def)
qed

section \<open>Properties\<close>

text \<open>
  C40. The program without a window. In every state that any interleaving of the two threads
  reaches: while it has not exited nothing is cleaned up; when it has exited with zero, the engine's thread has ended and
  every session made has been cleaned up exactly once; when it has exited with one, there never was a session.
  But a signal that comes early is lost: there is a run in which main has stored its flag and waits for the
  thread, the thread has then stored its own, and from there nothing changes any more.
\<close>

theorem headless_lifecycle:
  "(\<forall>s. headless_run headless_init s \<longrightarrow>
      (case h_main s of
         MExit code \<Rightarrow> code = 0 \<and> h_worker s = Some WEnd \<and> h_made s \<noteq> [] \<and> h_cleaned s = h_made s \<and> distinct (h_made s) \<or>
                       code = 1 \<and> h_worker s \<in> {None, Some WEnd} \<and> h_made s = [] \<and> h_cleaned s = []
       | _ \<Rightarrow> h_cleaned s = [])) \<and>
   (\<exists>s. headless_run headless_init s \<and> h_main s = MJoin \<and> (\<forall>s'. headless_run s s' \<longrightarrow> s' = s))"
proof
  show "\<exists>s. headless_run headless_init s \<and> h_main s = MJoin \<and> (\<forall>s'. headless_run s s' \<longrightarrow> s' = s)"
  proof (intro exI conjI)
    show "headless_run headless_init demo_lost" by (rule stop_lost_reachable)
    have "stop_lost demo_lost" by (simp add: stop_lost_def demo_lost_def)
    then show "\<forall>s'. headless_run demo_lost s' \<longrightarrow> s' = demo_lost" using stop_lost_stays by blast
  qed (simp add: demo_lost_def)
  show "\<forall>s. headless_run headless_init s \<longrightarrow>
      (case h_main s of
         MExit code \<Rightarrow> code = 0 \<and> h_worker s = Some WEnd \<and> h_made s \<noteq> [] \<and> h_cleaned s = h_made s \<and> distinct (h_made s) \<or>
                       code = 1 \<and> h_worker s \<in> {None, Some WEnd} \<and> h_made s = [] \<and> h_cleaned s = []
       | _ \<Rightarrow> h_cleaned s = [])"
  proof (intro allI impI)
    fix s assume "headless_run headless_init s"
    then have "headless_inv s" using headless_run_inv headless_init_inv by blast
    then show "case h_main s of
         MExit code \<Rightarrow> code = 0 \<and> h_worker s = Some WEnd \<and> h_made s \<noteq> [] \<and> h_cleaned s = h_made s \<and> distinct (h_made s) \<or>
                       code = 1 \<and> h_worker s \<in> {None, Some WEnd} \<and> h_made s = [] \<and> h_cleaned s = []
       | _ \<Rightarrow> h_cleaned s = []"
      by (cases "h_main s") (auto simp: headless_inv_def main_inv_def stopping_def split: option.splits)
  qed
qed

text \<open>A run to the end, and the lost stop.\<close>

definition demo_exit :: headless where
  "demo_exit = \<lparr>vpn_engine_ctx = Some 1, vpn_engine_start_done = True, vpn_engine_start_success = True,
     vpn_engine_running = False, h_worker = Some WEnd, h_main = MExit 0, h_made = [1], h_cleaned = [1]\<rparr>"

lemma demo_exit_reachable: "headless_run headless_init demo_exit"
proof -
  let ?m = "\<lambda>s. the (headless_main True s)" and ?w = "\<lambda>s. the (headless_engine_thread (Some 1) s)"
  have "headless_run headless_init (?m (?m (?w (?m (?m (?m (?w (?w (?w (?m headless_init))))))))))"
    by (intro main_move worker_move headless_run.refl) (simp_all add: headless_init_def headless_main_def headless_engine_thread_def)
  then show ?thesis by (simp add: headless_init_def headless_main_def headless_engine_thread_def demo_exit_def)
qed

theorem headless_lifecycle_witness:
  "headless_run headless_init demo_exit \<and> h_cleaned demo_exit = [1] \<and>
   (\<exists>s. headless_run headless_init s \<and> h_main s = MJoin \<and> \<not> headless_step s (s\<lparr>h_main := MClean\<rparr>))"
proof -
  from headless_lifecycle obtain s where s: "headless_run headless_init s" "h_main s = MJoin" "\<forall>s'. headless_run s s' \<longrightarrow> s' = s" by blast
  have "\<not> headless_step s (s\<lparr>h_main := MClean\<rparr>)"
  proof
    assume "headless_step s (s\<lparr>h_main := MClean\<rparr>)"
    then have "s\<lparr>h_main := MClean\<rparr> = s" using s(3) headless_run.intros by blast
    then have "h_main (s\<lparr>h_main := MClean\<rparr>) = h_main s" by simp
    then show False using s(2) by simp
  qed
  moreover have "h_cleaned demo_exit = h_made demo_exit"
    using headless_lifecycle demo_exit_reachable by (auto simp: demo_exit_def)
  ultimately show ?thesis using s demo_exit_reachable by (auto simp: demo_exit_def)
qed

end
