(* ===== verification/Spec2Isabelle.thy ===== *)
theory Spec2Isabelle
  imports Lf_Queue Lf_Pool Tunnel Pkt_Print Wan_Monitor Server_Engine View_Config View_Logger Vpn_App Headless
begin

text \<open>
  \<^bold>\<open>A VPN over QUIC.\<close>
  The repository has two programs. The server (\<^verbatim>\<open>server/\<close>) creates a tunnel device, keeps a pool of tunnel addresses and a table of
  clients, and listens for QUIC connections. The client (\<^verbatim>\<open>client/\<close>) connects, asks on a control stream for its
  configuration, creates a device with the address it is given and routes everything through it. Both then
  forward IP packets between the device and unreliable datagrams of the connection, with one thread for each direction.
  What they share is in \<^verbatim>\<open>common/\<close>: queues, pools, synchronisation, the tunnel device, frames and packets.
  The QUIC library, the kernel and the window toolkit are outside.

  \<^bold>\<open>How the code is modelled.\<close>
  A function of the code is a function here, with the same branches in the same order; a structure is a
  record, a machine integer a word of its width where its wrap-around can matter. A result is of type
  \<^typ>\<open>'a cres\<close>: a value, an error with its number, waiting, or the end of the program by a failed assertion or
  an undefined operation. What the system and the library answer to a call is an argument of the function
  that makes the call, so that a theorem quantifies over all answers; calls that matter are recorded in order. Where threads
  run together, their atomic steps form an inductive relation, and the properties hold in every reachable
  state. A wait is a loop over the wake-ups it meets, given as a list; when the list is used up the result is that it waits.
  No function needs fuel except the loops that free a list (bounded by the count of blocks the pool keeps, which the
  invariant shows to be enough) and the compare-and-swap loops (over the interferences they meet). Pointers into
  pools are addresses in an explicit memory.

  \<^bold>\<open>The theories\<close>, each with the properties it ends with:
  \<^item> \<^verbatim>\<open>Prelude\<close>: integer types, error numbers, results, byte order, semaphores; the lemmas the others share.
  \<^item> \<^verbatim>\<open>Fifo_Spec\<close>, \<^verbatim>\<open>Pool_Spec\<close>, \<^verbatim>\<open>Lease_Spec\<close>: what a bounded queue, a pool of blocks and a table of leases promise, as locales with
    the lemmas their users need.
  \<^item> \<^verbatim>\<open>Blocking_Queue\<close> (\<^verbatim>\<open>common/inc/queue.h\<close>, both platforms): refinement of the bounded queue; safety and progress of any
    number of threads; where the platforms differ.
  \<^item> \<^verbatim>\<open>Lf_Queue\<close> (\<^verbatim>\<open>lf_queue.h\<close>): the lock-free queue, refinement from any counter values; safety of producer and consumer
    at every atomic access; the spinning push.
  \<^item> \<^verbatim>\<open>Mem_Pool\<close>, \<^verbatim>\<open>Lf_Pool\<close> (\<^verbatim>\<open>pool.h\<close>, \<^verbatim>\<open>lf_pool.h\<close>): free lists in memory, any number of threads, users of a pool; a wake-up that is lost.
  \<^item> \<^verbatim>\<open>Sync_Prims\<close> (\<^verbatim>\<open>state_sync.h\<close>, \<^verbatim>\<open>cnt_sync.h\<close>, \<^verbatim>\<open>cond_sync.h\<close>): waits with deadlines and abort states; no sleeper is forgotten, by a
    locale of monitors interpreted for both.
  \<^item> \<^verbatim>\<open>Net_Utils\<close> (\<^verbatim>\<open>utils.h\<close>), \<^verbatim>\<open>Net_Iface\<close>, \<^verbatim>\<open>Wan_Monitor\<close> (\<^verbatim>\<open>net_iface.c\<close>): masks and texts; the choice of the default route; the
    watch on the uplink as a refinement of an observer of interface and gateway.
  \<^item> \<^verbatim>\<open>Tun_Driver\<close>, \<^verbatim>\<open>Tun_Api\<close>, \<^verbatim>\<open>Tun_Setup\<close> (\<^verbatim>\<open>tun_driver.c\<close>, \<^verbatim>\<open>tun.c\<close>): the requests made of the system, the status of a
    device, sequences of configuration calls.
  \<^item> \<^verbatim>\<open>Ip_Pool\<close> (\<^verbatim>\<open>ip_pool.c\<close>): addresses as leases, by interpretation of the locale; round robin.
  \<^item> \<^verbatim>\<open>Pkt_Ctrl\<close>, \<^verbatim>\<open>Pkt_Print\<close>, \<^verbatim>\<open>Quic_Stream\<close> (\<^verbatim>\<open>pkt_ctrl.c\<close>, the receive events of \<^verbatim>\<open>quic.c\<close>): frames and their bytes, their trace,
    frames out of a stream however it is cut.
  \<^item> \<^verbatim>\<open>Pkt_Data\<close>, \<^verbatim>\<open>Data_Path\<close>, \<^verbatim>\<open>Data_Send\<close> (\<^verbatim>\<open>pkt_data.c\<close>, \<^verbatim>\<open>threads.c\<close>, the datagram events): packets read inside their bounds; what is
    written to the device and what is handed to the transport, for any interleaving; the locale \<^verbatim>\<open>sending_thread\<close> is what both sending
    threads promise.
  \<^item> \<^verbatim>\<open>Tunnel\<close>: a sending thread, the datagrams of a connection in the transport and the receiving half of the other program; what the
    device at one end is given of what was read at the other, in both directions.
  \<^item> \<^verbatim>\<open>Client_List\<close> (\<^verbatim>\<open>client.c\<close>), \<^verbatim>\<open>Server_Quic\<close> (\<^verbatim>\<open>server/src/engine/quic.c\<close>, \<^verbatim>\<open>stream.c\<close>): the table of clients; the callbacks of listener,
    connection and stream; answers and disconnection.
  \<^item> \<^verbatim>\<open>Client_Ctrl\<close>, \<^verbatim>\<open>Client_Quic\<close> (\<^verbatim>\<open>client/src/engine/quic.c\<close>): applying a configuration; the callbacks, starting connection
    and stream while events come. The locale \<^verbatim>\<open>client_invariant\<close> carries what both callbacks keep over any events,
    \<^verbatim>\<open>client_session_invariant\<close> over the starting functions too; they are interpreted here and in \<^verbatim>\<open>Client_Engine\<close>.
  \<^item> \<^verbatim>\<open>Quic_Setup\<close> (both \<^verbatim>\<open>quic.c\<close>), \<^verbatim>\<open>Engine_Base\<close>, \<^verbatim>\<open>Server_Engine\<close> (\<^verbatim>\<open>session.c\<close>, \<^verbatim>\<open>vpn_server_engine.c\<close>), \<^verbatim>\<open>Client_Engine\<close> (\<^verbatim>\<open>domain.c\<close>,
    \<^verbatim>\<open>session.c\<close>, \<^verbatim>\<open>vpn_client_engine.c\<close>): from the start of each program to the point where it serves, and its cleanup.
  \<^item> \<^verbatim>\<open>Vpn_App\<close> (\<^verbatim>\<open>vpn_app.c\<close>, \<^verbatim>\<open>vpn_client_gtk.c\<close>, the handlers of \<^verbatim>\<open>gtk_app.c\<close>, \<^verbatim>\<open>window_main.c\<close> and \<^verbatim>\<open>view_controls.c\<close>), \<^verbatim>\<open>View_Config\<close>
    (\<^verbatim>\<open>view_controls.c\<close>), \<^verbatim>\<open>View_Logger\<close> (\<^verbatim>\<open>view_logger.c\<close>), \<^verbatim>\<open>Headless\<close> (\<^verbatim>\<open>vpn_client_headless.c\<close>): the application around
    the client's engine, with and without a window, as interleaved threads; its settings and its log view.
  \<^item> this theory: the two programs together, from the start of the server to the device of the client.

  \<^bold>\<open>Assumptions.\<close> The host is little-endian with 64-bit words. Memory is sequentially consistent; the lock-free structures
  are interleaved at their atomic accesses, with the memory orders of the code taken as sufficient for that. The
  kernel's messages come parsed. A theorem that needs more says so in its hypotheses, for instance that the system's
  requests succeed, or that a counter has not come round.

  \<^bold>\<open>Not modelled.\<close> The text of log and trace lines; the creation and the layout of the widgets (in \<^verbatim>\<open>window_main.c\<close>,
  \<^verbatim>\<open>view_controls.c\<close> and \<^verbatim>\<open>view_logger.c\<close>), which only calls the toolkit; the library headers under \<^verbatim>\<open>dep/\<close>, which are third-party code; times, except for the arithmetic of deadlines; the
  descriptor that wakes the sending thread, but for its effect. A second thread of the server that receives a signal
  while the start is still running is not interleaved with it.
\<close>

section \<open>The two programs together\<close>

text \<open>What the client's engine makes of the server's answer.\<close>

lemma client_takes_answer:
  assumes "comes_to_request cenv config ms mr cev cs x" "pkt_ctrl_create_config_req True 0 2 (Some ''quic vpn client'') = Some req"
    and "cfg tun = server_cfg" "concat bufs = pkt_bytes (answer_frame tun uid ip)"
  obtains e ctun where "vpn_engine_start (answered_by cenv bufs) config ms mr cev = Started e"
    "ss_state (tun_state_of (en_q e)) = TUN_READY" "cs_tun (cq_ctrl (en_q e)) = Some ctun" "tun_start (Some ctun) = 0"
    "cfg ctun = server_cfg\<lparr>cf_ip := ip\<rparr>" "cq_calls (en_q e) = cq_calls cs @ [StreamSend (x_stream x) (pkt_bytes req)]"
proof -
  let ?p = "answer_frame tun uid ip"
  note d = answer_frame_decodes[where tun = tun and uid = uid and ip = ip]
  have t: "t_mask tun = SERVER_MASK" "t_mtu tun = 1380" "t_dns1 tun = 0x01010101" "t_dns2 tun = 0x08080808"
    using assms(3) by (simp_all add: cfg_def server_cfg_def)
  have "validate_mask SERVER_MASK" by code_simp
  then have acc: "acceptable (resp_of_bytes (raw_padding ?p)) (ntohs (r_mtu (resp_of_bytes (raw_padding ?p))))"
    by (simp add: acceptable_def d(6) t)
  have val: "cfg_of (resp_of_bytes (raw_padding ?p)) (ntohs (r_mtu (resp_of_bytes (raw_padding ?p)))) = server_cfg\<lparr>cf_ip := ip\<rparr>"
    by (simp add: cfg_of_def d(6) t server_cfg_def)
  show ?thesis
    using start_answered[OF d(1-4) acc assms(4,1,2)] that unfolding val by blast
qed


text \<open>The first connection of a server that has come up.\<close>

lemma serving_blocks:
  assumes "server_main env m = Serving b"
  shows "m_blocks (bt_mem b) = m_blocks m"
proof (rule server_main_stages[OF assms])
  have pool: "m_blocks (fst (make_pool pe bs n m)) = m_blocks m" for pe bs n m
    by (auto simp: make_pool_def pool_init_def split: prod.splits option.splits)
  fix b0 wan b1 b2 b3 b4
  assume "create_session (be_session env) m = Ok (Some b0)"
    and tun: "setup_tun_interface (be_tun env) ''172.18.0.1'' ''255.255.0.0'' (wi_ifname wan) (b0\<lparr>bt_wan := Some wan\<rparr>) = (b1, 0)"
    and ips: "setup_ip_pool_manager (fst (be_ips env)) (snd (be_ips env)) b1 = (b2, 0)"
    and cl: "init_client_manager (fst (be_clients env)) (snd (be_clients env)) (max_clients (the (bt_ips b2))) b2 = (b3, 0)"
    and q: "setup_msquic (be_quic env) b3 = (b4, 0)" and b: "b = b4\<lparr>bt_sending := True, bt_send_thread := True, bt_receiving := True, bt_recv_thread := True\<rparr>"
  then have "m_blocks (bt_mem b0) = m_blocks m"
    by (auto simp: create_session_def split: if_splits prod.splits cres.splits) (metis fst_conv pool)+
  moreover have "bt_mem b1 = bt_mem b0" by (rule setup_tun_sound[OF tun]) simp
  moreover have "bt_mem b2 = bt_mem b1"
    using ips by (auto simp: setup_ip_pool_manager_def split: cres.splits if_splits option.splits)
  moreover have "m_blocks (bt_mem b3) = m_blocks (bt_mem b2)"
    using cl by (auto simp: init_client_manager_def Let_def split: if_splits prod.splits cres.splits) (metis fst_conv pool)
  moreover have "bt_mem b4 = bt_mem b3" by (rule setup_msquic_sound[OF q]) simp
  ultimately show ?thesis using b by simp
qed

lemma first_connection:
  assumes boot: "server_main env m = Serving b" and "m_blocks m blk = None"
    and s: "sv s = session_of b mem" "sv_msquic s"
  obtains c s1 s2 where "ServerListenerCallback (LISTENER_NEW_CONNECTION (pool_os_ok (Some blk)) conn QUIC_STATUS_SUCCESS) s = (s1, Ok QUIC_STATUS_SUCCESS)"
    "Some c \<in> set (client_list (sv s1))" "ServerConnectionCallback (Some conn) c CONN_CONNECTED s1 = (s2, Ok QUIC_STATUS_SUCCESS)"
proof (rule server_serving[OF boot])
  fix tun pool pid qa
  assume pool: "ip_pool_ok pool" "ip_leases pool = Map.empty" "server_ip pool = SERVER_IP" "netmask pool = SERVER_MASK" "max_clients pool = 65536"
    and blocks: "pool_holds pid (bt_mem b) {}" "pool_limit pid (bt_mem b) = 65536"
    and sess: "\<And>mem. session_of b mem = \<lparr>client_list = replicate 65536 None, client_mem = mem, client_pool = pid,
      s_mem = bt_mem b, s_ips = pool, client_cnt = 1\<rparr>"
  let ?os = "pool_os_ok (Some blk)" and ?m = "bt_mem b"
  have sv: "client_list (sv s) = replicate 65536 None" "s_ips (sv s) = pool" "client_pool (sv s) = pid" "s_mem (sv s) = ?m"
    using s(1) sess[of mem] by simp_all
  obtain p where p: "m_pools ?m pid = Some p" "p_cap p = 65536" "total_blocks p \<le> 65536"
    using blocks by (auto simp: pool_holds_def pool_inv_def pool_limit_def pool_rep_def)
  have "pool_env_ok pid ?os ?m"
    using serving_blocks[OF boot] assms(2) p by (simp add: pool_env_ok_def pool_os_ok_def)
  from pool_try_get_spec[OF blocks(1) this] obtain m' c where get: "pool_try_get ?os (Some pid) ?m = (m', Ok c)"
    using blocks(2) by (auto simp: pool_os_ok_def split: prod.splits cres.splits)
  have "List.find (\<lambda>idx. client_list (sv s) ! idx = None) [0..<max_clients (s_ips (sv s))] = Some 0"
    unfolding find_Some_iff sv pool(5) by (rule exI[of _ 0]) simp
  then obtain ss where add: "list_add_client ?os conn (sv s) = (ss, Ok (Some c))" "client_list ss = (client_list (sv s))[0 := Some c]"
    "s_ips ss = pool" using get sv by (simp add: list_add_client_def Let_def)
  define s1 where "s1 = quic (ConnectionSetConfiguration conn) (quic (SetCallbackHandler conn) (s\<lparr>sv := ss\<rparr>))"
  have l: "ServerListenerCallback (LISTENER_NEW_CONNECTION ?os conn QUIC_STATUS_SUCCESS) s = (s1, Ok QUIC_STATUS_SUCCESS)"
    using add s(2) by (simp add: ServerListenerCallback_def Let_def s1_def)
  have mem: "Some c \<in> set (client_list (sv s1))"
    using add(2) sv(1) by (simp add: s1_def quic_def set_update_memI)
  have "ntohl SERVER_IP = 0xAC120001" "ntohl (SERVER_IP AND SERVER_MASK) = 0xAC120000" by code_simp+
  then have "2 \<in> ip_usable pool"
    using ip_pool_okD(2)[OF pool(1)] pool(3-5) by (simp add: ip_usable_def reserved_def net_host_def)
  then obtain ips e where acq: "ip_acquire pool (Some c) = (ips, Some e)"
    using ip_acquire_None[OF pool(1), of c] pool(2) by (cases "ip_acquire pool (Some c)"; cases "snd (ip_acquire pool (Some c))") auto
  then obtain s2 where "ServerConnectionCallback (Some conn) c CONN_CONNECTED s1 = (s2, Ok QUIC_STATUS_SUCCESS)"
    using add(3) s(2) by (simp add: ServerConnectionCallback_def initialize_client_state_def s1_def quic_def Let_def)
  then show ?thesis using that l mem by blast
qed


end
